(* ===== verification/Prelude.thy ===== *)
theory Prelude
  imports Main "HOL-Library.AList" "HOL-Library.List_Lexorder" "HOL-Library.Char_ord"
begin

text \<open>
  Shared vocabulary of the development: the outcome of a Go call that may panic or block
  (\<open>res\<close>), Go maps as association lists, the search functions of Go's \<^verbatim>\<open>slices\<close> package
  that do not reorder their argument, and the generic lemmas the component proofs use.
\<close>

section \<open>Named collections\<close>

named_theorems res_simps \<open>rewriting of \<open>bind\<close> on outcomes\<close>
named_theorems slice_simps \<open>facts on the search functions of slices\<close>

section \<open>Outcomes of a call\<close>

text \<open>
  A Go call returns a value, panics, or never returns. The panics that the modelled code can
  raise, and the ways it can block for ever or end the process, are values of \<open>panic\<close>:
  a method call through a nil pointer, an operation on a mutex that is never released
  (\<open>Deadlock\<close>), an integer division by zero, and \<^verbatim>\<open>os.Exit\<close>.
\<close>

datatype panic = NilDeref | Deadlock | DivideByZero | ProcessExit | IndexOutOfRange | CloseOfClosed | UnexportedField | NonPositiveInterval | ShutdownFailed

datatype 'a res = Ok 'a | Panic panic

fun bind :: "'a res \<Rightarrow> ('a \<Rightarrow> 'b res) \<Rightarrow> 'b res" where
  "bind (Ok x) f = f x"
| "bind (Panic p) f = Panic p"

fun is_Ok :: "'a res \<Rightarrow> bool" where
  "is_Ok (Ok x) = True"
| "is_Ok (Panic p) = False"

lemma bind_eq_Ok [res_simps]: "bind m f = Ok y \<longleftrightarrow> (\<exists>x. m = Ok x \<and> f x = Ok y)"
  by (cases m) auto

lemma bind_eq_Panic [res_simps]:
  "bind m f = Panic p \<longleftrightarrow> m = Panic p \<or> (\<exists>x. m = Ok x \<and> f x = Panic p)"
  by (cases m) auto

lemma bind_assoc [res_simps]: "bind (bind m f) g = bind m (\<lambda>x. bind (f x) g)"
  by (cases m) auto

lemma bind_Ok [simp]: "bind m Ok = m"
  by (cases m) auto

lemma is_Ok_iff: "is_Ok m \<longleftrightarrow> (\<exists>x. m = Ok x)"
  by (cases m) auto

lemma bind_cong [fundef_cong]:
  "m = m' \<Longrightarrow> (\<And>x. m' = Ok x \<Longrightarrow> f x = g x) \<Longrightarrow> bind m f = bind m' g"
  by (cases m') auto

section \<open>Go maps\<close>

text \<open>
  A Go map is an association list with distinct keys; its order is the order in which one
  \<^verbatim>\<open>range\<close> loop happens to visit the entries. \<open>mget\<close> is \<^verbatim>\<open>m[k]\<close> with its
  \<^verbatim>\<open>ok\<close> result, \<open>mput\<close> is \<^verbatim>\<open>m[k] = v\<close> and \<open>mdel\<close> is \<^verbatim>\<open>delete(m, k)\<close>.
\<close>

type_synonym ('k, 'v) gomap = "('k \<times> 'v) list"

abbreviation mget :: "('k, 'v) gomap \<Rightarrow> 'k \<Rightarrow> 'v option" where
  "mget \<equiv> map_of"

abbreviation mput :: "'k \<Rightarrow> 'v \<Rightarrow> ('k, 'v) gomap \<Rightarrow> ('k, 'v) gomap" where
  "mput \<equiv> AList.update"

abbreviation mdel :: "'k \<Rightarrow> ('k, 'v) gomap \<Rightarrow> ('k, 'v) gomap" where
  "mdel \<equiv> AList.delete"

abbreviation keys_ok :: "('k, 'v) gomap \<Rightarrow> bool" where
  "keys_ok m \<equiv> distinct (map fst m)"

lemma mget_mput: "mget (mput k v m) k' = (if k' = k then Some v else mget m k')"
  by (simp add: update_conv')

lemma mget_mdel: "mget (mdel k m) k' = (if k' = k then None else mget m k')"
  by (simp add: delete_conv')

lemma keys_ok_mput [intro]: "keys_ok m \<Longrightarrow> keys_ok (mput k v m)"
  by (rule distinct_update)

lemma keys_ok_mdel [intro]: "keys_ok m \<Longrightarrow> keys_ok (mdel k m)"
  by (rule distinct_delete)

lemma mget_in_set: "keys_ok m \<Longrightarrow> (k, v) \<in> set m \<longleftrightarrow> mget m k = Some v"
  by (metis map_of_SomeD map_of_is_SomeI)

section \<open>Searching slices\<close>

text \<open>
  \<^verbatim>\<open>slices.IndexFunc\<close> returns the first index whose element satisfies the predicate, and -1
  (here \<open>None\<close>) when there is none; \<^verbatim>\<open>slices.DeleteFunc\<close> and \<^verbatim>\<open>slices.ContainsFunc\<close>
  are \<open>filter\<close> and \<open>list_ex\<close>.
\<close>

fun IndexFunc :: "('a \<Rightarrow> bool) \<Rightarrow> 'a list \<Rightarrow> nat option" where
  "IndexFunc p [] = None"
| "IndexFunc p (x # xs) = (if p x then Some 0 else map_option Suc (IndexFunc p xs))"

definition DeleteFunc :: "('a \<Rightarrow> bool) \<Rightarrow> 'a list \<Rightarrow> 'a list" where
  "DeleteFunc p xs = filter (\<lambda>x. \<not> p x) xs"

definition ContainsFunc :: "('a \<Rightarrow> bool) \<Rightarrow> 'a list \<Rightarrow> bool" where
  "ContainsFunc p xs = list_ex p xs"

lemma IndexFunc_None [slice_simps]: "IndexFunc p xs = None \<longleftrightarrow> (\<forall>x \<in> set xs. \<not> p x)"
  by (induction xs) auto

lemma IndexFunc_Some:
  "IndexFunc p xs = Some i \<longleftrightarrow> i < length xs \<and> p (xs ! i) \<and> (\<forall>j < i. \<not> p (xs ! j))"
  by (induction xs arbitrary: i) (auto simp: nth_Cons less_Suc_eq_0_disj split: nat.splits)

lemma IndexFunc_SomeD: "IndexFunc p xs = Some i \<Longrightarrow> i < length xs \<and> p (xs ! i)"
  by (simp add: IndexFunc_Some)

lemma set_DeleteFunc [slice_simps, simp]: "set (DeleteFunc p xs) = {x \<in> set xs. \<not> p x}"
  by (auto simp: DeleteFunc_def)

lemma DeleteFunc_idem: "\<forall>x \<in> set xs. \<not> p x \<Longrightarrow> DeleteFunc p xs = xs"
  by (simp add: DeleteFunc_def filter_id_conv)

lemma ContainsFunc_iff [slice_simps, simp]: "ContainsFunc p xs \<longleftrightarrow> (\<exists>x \<in> set xs. p x)"
  by (simp add: ContainsFunc_def list_ex_iff)

lemma distinct_map_DeleteFunc: "distinct (map f xs) \<Longrightarrow> distinct (map f (DeleteFunc p xs))"
  by (simp add: DeleteFunc_def distinct_map_filter)

lemma distinct_nth_unique:
  "distinct (map f xs) \<Longrightarrow> i < length xs \<Longrightarrow> x \<in> set xs \<Longrightarrow> f x = f (xs ! i) \<Longrightarrow> x = xs ! i"
  by (metis (mono_tags) in_set_conv_nth length_map nth_eq_iff_index_eq nth_map)

lemma map_list_update_same:
  "i < length xs \<Longrightarrow> f y = f (xs ! i) \<Longrightarrow> map f (xs[i := y]) = map f xs"
  by (simp add: map_update list_update_same_conv)

end
