(* ===== verification/GoSlices.thy ===== *)
theory GoSlices
  imports Prelude "HOL-Library.Multiset"
begin

text \<open>
  The two algorithms of Go's \<^verbatim>\<open>slices\<close> package that the operator relies on:
  \<^verbatim>\<open>SortFunc\<close> and \<^verbatim>\<open>BinarySearchFunc\<close>. A comparator returns an \<open>int\<close> and only the
  test \<^verbatim>\<open>cmp(a, b) < 0\<close> (and, for the search, \<^verbatim>\<open>== 0\<close>) is ever made, so the contract a
  comparator owes to the sort is that this test is a strict weak order: the locale
  \<open>strict_weak_cmp\<close>.
\<close>

section \<open>Sorting\<close>

text \<open>
  Up to twelve elements Go sorts by insertion: element \<open>i\<close> moves left while it is smaller than
  its left neighbour. The sorted prefix is kept reversed here, so moving left is walking down
  the list. Longer slices go through pattern-defeating quicksort, which is specified by the same
  contract (a permutation, ordered) but may order equivalent elements differently.
\<close>

fun sink :: "('a \<Rightarrow> 'a \<Rightarrow> int) \<Rightarrow> 'a \<Rightarrow> 'a list \<Rightarrow> 'a list" where
  "sink cmp x [] = [x]"
| "sink cmp x (y # ys) = (if cmp x y < 0 then y # sink cmp x ys else x # y # ys)"

definition SortFunc :: "('a \<Rightarrow> 'a \<Rightarrow> int) \<Rightarrow> 'a list \<Rightarrow> 'a list" where
  "SortFunc cmp xs = rev (foldl (\<lambda>acc x. sink cmp x acc) [] xs)"

definition ordered_by :: "('a \<Rightarrow> 'a \<Rightarrow> int) \<Rightarrow> 'a list \<Rightarrow> bool" where
  "ordered_by cmp xs \<longleftrightarrow> sorted_wrt (\<lambda>a b. \<not> cmp b a < 0) xs"

lemma mset_sink: "mset (sink cmp x ys) = add_mset x (mset ys)"
  by (induction ys) auto

lemma mset_foldl_sink:
  "mset (foldl (\<lambda>acc x. sink cmp x acc) acc xs) = mset acc + mset xs"
  by (induction xs arbitrary: acc) (auto simp: mset_sink)

lemma mset_SortFunc [simp]: "mset (SortFunc cmp xs) = mset xs"
  by (simp add: SortFunc_def mset_foldl_sink)

lemma set_SortFunc [simp]: "set (SortFunc cmp xs) = set xs"
  by (metis mset_SortFunc set_mset_mset)

lemma length_SortFunc [simp]: "length (SortFunc cmp xs) = length xs"
  by (metis mset_SortFunc size_mset)

lemma distinct_SortFunc [simp]: "distinct (SortFunc cmp xs) = distinct xs"
  by (metis mset_SortFunc mset_eq_imp_distinct_iff)

lemma SortFunc_Nil [simp]: "SortFunc cmp [] = []"
  by (simp add: SortFunc_def)

lemma SortFunc_eq_Nil [simp]: "SortFunc cmp xs = [] \<longleftrightarrow> xs = []"
  by (metis length_SortFunc length_0_conv)

lemma distinct_map_SortFunc [simp]: "distinct (map f (SortFunc cmp xs)) = distinct (map f xs)"
  by (metis mset_SortFunc mset_map mset_eq_imp_distinct_iff)

subsection \<open>The contract of a comparator\<close>

locale strict_weak_cmp =
  fixes cmp :: "'a \<Rightarrow> 'a \<Rightarrow> int"
  assumes asym: "cmp a b < 0 \<Longrightarrow> \<not> cmp b a < 0"
    and neg_trans: "\<not> cmp a b < 0 \<Longrightarrow> \<not> cmp b c < 0 \<Longrightarrow> \<not> cmp a c < 0"
begin

lemma sink_sorted:
  "sorted_wrt (\<lambda>a b. \<not> cmp a b < 0) ys \<Longrightarrow> sorted_wrt (\<lambda>a b. \<not> cmp a b < 0) (sink cmp x ys)"
proof (induction ys)
  case Nil
  then show ?case by simp
next
  case (Cons y ys)
  have set_eq: "set (sink cmp x ys) = insert x (set ys)"
    by (metis mset_sink set_mset_add_mset_insert set_mset_mset)
  show ?case
  proof (cases "cmp x y < 0")
    case True
    with Cons show ?thesis by (auto simp: set_eq dest: asym)
  next
    case False
    with Cons.prems show ?thesis using neg_trans [OF False] by auto
  qed
qed

lemma foldl_sink_sorted:
  "sorted_wrt (\<lambda>a b. \<not> cmp a b < 0) acc \<Longrightarrow>
   sorted_wrt (\<lambda>a b. \<not> cmp a b < 0) (foldl (\<lambda>acc x. sink cmp x acc) acc xs)"
  by (induction xs arbitrary: acc) (auto simp: sink_sorted)

lemma SortFunc_ordered: "ordered_by cmp (SortFunc cmp xs)"
  using foldl_sink_sorted [of "[]" xs]
  by (simp add: SortFunc_def ordered_by_def sorted_wrt_rev)

text \<open>The first element is a least one.\<close>

lemma ordered_first_least:
  "ordered_by cmp xs \<Longrightarrow> i < length xs \<Longrightarrow> \<not> cmp (xs ! i) (xs ! 0) < 0"
  unfolding ordered_by_def
  by (cases "i = 0") (auto simp: sorted_wrt_iff_nth_less dest: asym)

text \<open>
  When the order has no two equivalent elements, the result is the only ordered permutation, so
  it does not depend on the algorithm behind \<^verbatim>\<open>SortFunc\<close>.
\<close>

lemma ordered_unique:
  assumes "ordered_by cmp xs" "ordered_by cmp ys" "mset xs = mset ys"
    and tot: "\<And>a b. a \<in> set xs \<Longrightarrow> b \<in> set xs \<Longrightarrow> a \<noteq> b \<Longrightarrow> cmp a b < 0 \<or> cmp b a < 0"
  shows "xs = ys"
  using assms
proof (induction xs arbitrary: ys)
  case Nil
  then show ?case by simp
next
  case (Cons x xs)
  then obtain y ys' where ys: "ys = y # ys'" by (cases ys) auto
  have mem: "set (x # xs) = set ys" by (metis Cons.prems(3) set_mset_mset)
  have "x = y"
  proof (rule ccontr)
    assume ne: "x \<noteq> y"
    then have in_xs: "y \<in> set xs" and "x \<in> set ys'" using mem ys by auto
    then have "\<not> cmp y x < 0" "\<not> cmp x y < 0"
      using Cons.prems(1,2) ys by (auto simp: ordered_by_def)
    then show False using Cons.prems(4)[of x y] ne in_xs by auto
  qed
  with Cons ys show ?case by (auto simp: ordered_by_def)
qed

lemma SortFunc_unique:
  assumes "ordered_by cmp ys" "mset ys = mset xs"
    and "\<And>a b. a \<in> set xs \<Longrightarrow> b \<in> set xs \<Longrightarrow> a \<noteq> b \<Longrightarrow> cmp a b < 0 \<or> cmp b a < 0"
  shows "SortFunc cmp xs = ys"
  using SortFunc_ordered assms by (intro ordered_unique) auto

end

subsection \<open>Comparing keys\<close>

text \<open>\<^verbatim>\<open>cmp.Compare\<close> of Go on an ordered type.\<close>

definition Compare :: "'k::linorder \<Rightarrow> 'k \<Rightarrow> int" where
  "Compare a b = (if a < b then -1 else if b < a then 1 else 0)"

lemma Compare_less [simp]: "Compare a b < 0 \<longleftrightarrow> a < b"
  by (simp add: Compare_def)

lemma Compare_eq [simp]: "Compare a b = 0 \<longleftrightarrow> a = b"
  by (auto simp: Compare_def)

lemma ordered_by_Compare: "ordered_by (\<lambda>a b. Compare (f a) (f b)) xs \<longleftrightarrow> sorted (map f xs)"
  by (simp add: ordered_by_def sorted_wrt_map not_less)

section \<open>Binary search\<close>

text \<open>
  \<^verbatim>\<open>slices.BinarySearchFunc\<close>: the least position whose element is not below the target, and
  whether that element compares equal to it.
\<close>

function bsearch :: "('a \<Rightarrow> 't \<Rightarrow> int) \<Rightarrow> 'a list \<Rightarrow> 't \<Rightarrow> nat \<Rightarrow> nat \<Rightarrow> nat" where
  "bsearch cmp xs t i j =
     (if i < j
      then let h = (i + j) div 2
           in if cmp (xs ! h) t < 0 then bsearch cmp xs t (h + 1) j else bsearch cmp xs t i h
      else i)"
  by pat_completeness auto
termination
  by (relation "measure (\<lambda>(cmp, xs, t, i, j). j - i)") auto

declare bsearch.simps [simp del]

definition BinarySearchFunc :: "('a \<Rightarrow> 't \<Rightarrow> int) \<Rightarrow> 'a list \<Rightarrow> 't \<Rightarrow> nat \<times> bool" where
  "BinarySearchFunc cmp xs t =
     (let n = length xs; i = bsearch cmp xs t 0 n in (i, i < n \<and> cmp (xs ! i) t = 0))"

lemma bsearch_bounds: "i \<le> j \<Longrightarrow> i \<le> bsearch cmp xs t i j \<and> bsearch cmp xs t i j \<le> j"
proof (induction cmp xs t i j rule: bsearch.induct)
  case (1 cmp xs t i j)
  let ?h = "(i + j) div 2"
  show ?case
  proof (cases "i < j")
    case True
    then have h: "i \<le> ?h" "?h < j" by auto
    show ?thesis
      using 1 True h by (subst (1 2) bsearch.simps) (fastforce simp: Let_def)
  next
    case False
    with 1 show ?thesis by (subst (1 2) bsearch.simps) simp
  qed
qed

text \<open>
  On a slice whose elements below the target come first, everything left of the returned
  position is below the target and nothing from it on is.
\<close>

lemma bsearch_split:
  assumes "j \<le> length xs" "i \<le> j"
    and mono: "\<And>a b. a \<le> b \<Longrightarrow> b < length xs \<Longrightarrow> cmp (xs ! b) t < 0 \<Longrightarrow> cmp (xs ! a) t < 0"
    and "\<And>k. k < i \<Longrightarrow> cmp (xs ! k) t < 0"
    and "\<And>k. j \<le> k \<Longrightarrow> k < length xs \<Longrightarrow> \<not> cmp (xs ! k) t < 0"
  shows "(\<forall>k < bsearch cmp xs t i j. cmp (xs ! k) t < 0) \<and>
         (\<forall>k. bsearch cmp xs t i j \<le> k \<and> k < length xs \<longrightarrow> \<not> cmp (xs ! k) t < 0)"
  using assms
proof (induction cmp xs t i j rule: bsearch.induct)
  case (1 cmp xs t i j)
  let ?h = "(i + j) div 2"
  note mono = "1.prems"(3)
  show ?case
  proof (cases "i < j")
    case True
    then have h: "i \<le> ?h" "?h < j" "?h < length xs" using "1.prems"(1) by auto
    show ?thesis
    proof (cases "cmp (xs ! ?h) t < 0")
      case below: True
      have eq: "bsearch cmp xs t i j = bsearch cmp xs t (?h + 1) j"
        using True below by (subst bsearch.simps) (simp add: Let_def)
      have left: "k < ?h + 1 \<Longrightarrow> cmp (xs ! k) t < 0" for k
        using mono[of k ?h] h below by auto
      show ?thesis unfolding eq
        by (rule "1.IH"(1)[OF True refl below]) (use "1.prems" h left in auto)
    next
      case above: False
      have eq: "bsearch cmp xs t i j = bsearch cmp xs t i ?h"
        using True above by (subst bsearch.simps) (simp add: Let_def)
      have right: "?h \<le> k \<Longrightarrow> k < length xs \<Longrightarrow> \<not> cmp (xs ! k) t < 0" for k
        using mono[of ?h k] above by auto
      show ?thesis unfolding eq
        by (rule "1.IH"(2)[OF True refl above]) (use "1.prems" h right in auto)
    qed
  next
    case False
    then have eq: "bsearch cmp xs t i j = i" by (subst bsearch.simps) simp
    show ?thesis unfolding eq using False "1.prems" by auto
  qed
qed

lemma sorted_keys_mono:
  "sorted (map f xs) \<Longrightarrow> a \<le> b \<Longrightarrow> b < length xs \<Longrightarrow> Compare (f (xs ! b)) t < 0 \<Longrightarrow>
   Compare (f (xs ! a)) t < 0"
  by (simp add: sorted_iff_nth_mono) (meson le_less_trans)

text \<open>On a slice sorted by a key, the search finds the key exactly when it is there.\<close>

lemma BinarySearchFunc_found:
  assumes sorted: "sorted (map f xs)"
    and found: "BinarySearchFunc (\<lambda>x t. Compare (f x) t) xs k = (i, True)"
  shows "i < length xs \<and> f (xs ! i) = k"
  using found by (auto simp: BinarySearchFunc_def Let_def)

lemma BinarySearchFunc_complete:
  assumes sorted: "sorted (map f xs)" and "x \<in> set xs" "f x = k"
  shows "\<exists>i. BinarySearchFunc (\<lambda>x t. Compare (f x) t) xs k = (i, True)"
proof -
  let ?cmp = "\<lambda>x t. Compare (f x) t"
  let ?i = "bsearch ?cmp xs k 0 (length xs)"
  have split: "(\<forall>j < ?i. ?cmp (xs ! j) k < 0) \<and>
      (\<forall>j. ?i \<le> j \<and> j < length xs \<longrightarrow> \<not> ?cmp (xs ! j) k < 0)"
    by (rule bsearch_split) (use sorted_keys_mono[OF sorted] in auto)
  obtain p where p: "p < length xs" "xs ! p = x" using assms(2) by (auto simp: in_set_conv_nth)
  then have "?i \<le> p" using split assms(3) by (metis Compare_less less_irrefl not_le)
  then have "f (xs ! ?i) \<le> k" using sorted p assms(3) by (auto simp: sorted_iff_nth_mono)
  moreover have "\<not> f (xs ! ?i) < k" using split \<open>?i \<le> p\<close> p by auto
  ultimately show ?thesis
    using \<open>?i \<le> p\<close> p by (auto simp: BinarySearchFunc_def Let_def)
qed

end
