(* ===== verification/GoTime.thy ===== *)
theory GoTime
  imports Complex_Main "HOL-Library.Log_Nat" Prelude
begin

text \<open>
  Durations and the arithmetic that computes check intervals. A \<^verbatim>\<open>time.Duration\<close> (and the
  wrapper \<^verbatim>\<open>timesutil.Duration\<close>) counts nanoseconds in an int64 and is an \<open>int\<close> here; the
  conversions that can leave the int64 range are written out. The scaling of intervals runs through
  \<^verbatim>\<open>float64\<close>: \<open>f64\<close> is the set of binary64 values with rounding to nearest, ties to even.
\<close>

section \<open>Durations\<close>

type_synonym Duration = int

abbreviation Millisecond :: Duration where "Millisecond \<equiv> 1000000"
abbreviation Second :: Duration where "Second \<equiv> 1000000000"

definition DEFAULT_TIMEOUT :: Duration where "DEFAULT_TIMEOUT = Millisecond * 500"
definition MIN_CHECK_INTERVAL :: Duration where "MIN_CHECK_INTERVAL = Second * 5"
definition MAX_CHECK_INTERVAL :: Duration where "MAX_CHECK_INTERVAL = Second * 60"

abbreviation min_int64 :: int where "min_int64 \<equiv> - (2 ^ 63)"
abbreviation max_int64 :: int where "max_int64 \<equiv> 2 ^ 63 - 1"

text \<open>Integer division of Go, which truncates towards zero.\<close>

definition quot :: "int \<Rightarrow> int \<Rightarrow> int" where
  "quot a b = sgn a * sgn b * (\<bar>a\<bar> div \<bar>b\<bar>)"

lemma quot_nonneg [simp]: "0 \<le> a \<Longrightarrow> 0 < b \<Longrightarrow> quot a b = a div b"
  by (cases "a = 0") (auto simp: quot_def)

text \<open>\<^verbatim>\<open>Duration.Round\<close>: to the nearest multiple, halves away from zero, saturating.\<close>

definition Duration_Round :: "Duration \<Rightarrow> Duration \<Rightarrow> Duration" where
  "Duration_Round d m =
     (if m \<le> 0 then d
      else if d < 0 then
        (let r = (- d) mod m
         in if r + r < m then d + r
            else if min_int64 \<le> d - m + r then d - m + r else min_int64)
      else
        (let r = d mod m
         in if r + r < m then d - r
            else if d + m - r \<le> max_int64 then d + m - r else max_int64))"

lemma Duration_Round_multiple: "0 \<le> d \<Longrightarrow> 0 < m \<Longrightarrow> d mod m = 0 \<Longrightarrow> Duration_Round d m = d"
  by (simp add: Duration_Round_def)

lemma Duration_Round_ge:
  assumes "0 < m" "0 \<le> k" "k * m \<le> d" "d \<le> max_int64" shows "k * m \<le> Duration_Round d m"
proof -
  have d: "0 \<le> d" using assms by (meson mult_nonneg_nonneg less_imp_le order_trans)
  have "k \<le> d div m" using zdiv_mono1[OF assms(3,1)] assms(1) by simp
  then have "k * m \<le> d div m * m" using assms(1) by simp
  then have "k * m \<le> d - d mod m" by (simp add: minus_mod_eq_div_mult)
  then show ?thesis using assms d pos_mod_bound[of m d] by (auto simp: Duration_Round_def Let_def)
qed

section \<open>Binary64 values\<close>

datatype f64 = Fin rat | PInf | NInf | NaN

text \<open>Rounding to an integer, ties to even; and the binary exponent of a positive number.\<close>

definition rhe :: "rat \<Rightarrow> int" where
  "rhe x = (let f = \<lfloor>x\<rfloor>; d = x - of_int f
            in if d < 1 / 2 then f else if d > 1 / 2 then f + 1 else if even f then f else f + 1)"

definition ilog2 :: "rat \<Rightarrow> int" where
  "ilog2 x = (let (n, d) = quotient_of x; k = bitlen n - bitlen d
              in if 2 powi k \<le> x then k else k - 1)"

definition f64_round :: "rat \<Rightarrow> f64" where
  "f64_round x =
     (if x = 0 then Fin 0
      else let e = max (ilog2 \<bar>x\<bar> - 52) (- 1074);
               r = of_int (rhe (x / 2 powi e)) * 2 powi e
           in if 2 ^ 1024 \<le> r then PInf else if r \<le> - (2 ^ 1024) then NInf else Fin r)"

definition f64_of_int :: "int \<Rightarrow> f64" where
  "f64_of_int i = f64_round (of_int i)"

definition f64_inf :: "rat \<Rightarrow> f64" where
  "f64_inf s = (if s = 0 then NaN else if 0 < s then PInf else NInf)"

fun f64_mul :: "f64 \<Rightarrow> f64 \<Rightarrow> f64" where
  "f64_mul (Fin a) (Fin b) = f64_round (a * b)"
| "f64_mul NaN _ = NaN"
| "f64_mul _ NaN = NaN"
| "f64_mul (Fin a) PInf = f64_inf a"
| "f64_mul (Fin a) NInf = f64_inf (- a)"
| "f64_mul PInf (Fin b) = f64_inf b"
| "f64_mul NInf (Fin b) = f64_inf (- b)"
| "f64_mul PInf PInf = PInf"
| "f64_mul NInf NInf = PInf"
| "f64_mul PInf NInf = NInf"
| "f64_mul NInf PInf = NInf"

fun f64_div :: "f64 \<Rightarrow> f64 \<Rightarrow> f64" where
  "f64_div (Fin a) (Fin b) = (if b = 0 then f64_inf a else f64_round (a / b))"
| "f64_div NaN _ = NaN"
| "f64_div _ NaN = NaN"
| "f64_div (Fin a) _ = Fin 0"
| "f64_div PInf (Fin b) = f64_inf (if b < 0 then - 1 else 1)"
| "f64_div NInf (Fin b) = f64_inf (if b < 0 then 1 else - 1)"
| "f64_div _ _ = NaN"

fun f64_add :: "f64 \<Rightarrow> f64 \<Rightarrow> f64" where
  "f64_add (Fin a) (Fin b) = f64_round (a + b)"
| "f64_add NaN _ = NaN"
| "f64_add _ NaN = NaN"
| "f64_add PInf NInf = NaN"
| "f64_add NInf PInf = NaN"
| "f64_add PInf _ = PInf"
| "f64_add _ PInf = PInf"
| "f64_add NInf _ = NInf"
| "f64_add _ NInf = NInf"

text \<open>
  Conversion to int64 truncates. Go leaves the result implementation-specific when the value is
  out of range; \<open>ovf\<close> is what the platform produces then.
\<close>

fun to_int64 :: "int \<Rightarrow> f64 \<Rightarrow> int" where
  "to_int64 ovf (Fin r) =
     (let t = (if 0 \<le> r then \<lfloor>r\<rfloor> else \<lceil>r\<rceil>) in if min_int64 \<le> t \<and> t \<le> max_int64 then t else ovf)"
| "to_int64 ovf _ = ovf"

subsection \<open>Rounding facts\<close>

lemma rhe_of_int [simp]: "rhe (of_int n) = n"
  by (simp add: rhe_def)

lemma rhe_le: "x \<le> of_int n \<Longrightarrow> rhe x \<le> n"
proof (cases "\<lfloor>x\<rfloor> < n")
  case True
  then show ?thesis by (auto simp: rhe_def Let_def)
next
  case False
  moreover assume "x \<le> of_int n"
  ultimately have "x = of_int n" by (simp add: le_floor_iff not_less)
  then show ?thesis by simp
qed

lemma rhe_ge: "of_int n \<le> x \<Longrightarrow> n \<le> rhe x"
proof -
  assume "of_int n \<le> x"
  then have "n \<le> \<lfloor>x\<rfloor>" by (simp only: le_floor_iff)
  then show ?thesis by (auto simp: rhe_def Let_def)
qed

lemma bitlen_bounds_rat:
  assumes "0 < n" shows "2 powi (bitlen n - 1) \<le> (of_int n :: rat)" "(of_int n :: rat) < 2 powi (bitlen n)"
proof -
  have b: "2 ^ nat (bitlen n - 1) \<le> n \<and> n < 2 ^ nat (bitlen n)" using bitlen_bounds[OF assms] .
  have "0 < bitlen n" using assms bitlen_nonneg[of n] bitlen_eq_zero_iff[of n] by linarith
  then have e1: "2 powi (bitlen n - 1) = (of_int (2 ^ nat (bitlen n - 1)) :: rat)"
    and e2: "2 powi (bitlen n) = (of_int (2 ^ nat (bitlen n)) :: rat)"
    by (simp_all add: power_int_def)
  show "2 powi (bitlen n - 1) \<le> (of_int n :: rat)" unfolding e1 using b by (simp only: of_int_le_iff)
  show "(of_int n :: rat) < 2 powi (bitlen n)" unfolding e2 using b by (simp only: of_int_less_iff)
qed

lemma ilog2_bounds:
  assumes "0 < x" shows "2 powi (ilog2 x) \<le> x \<and> x < 2 powi (ilog2 x + 1)"
proof -
  obtain n d where nd: "quotient_of x = (n, d)" by fastforce
  have x: "x = of_int n / of_int d" and d: "0 < d"
    using nd by (auto simp: quotient_of_div quotient_of_denom_pos)
  have n: "0 < n" using assms x d by (simp add: zero_less_divide_iff)
  let ?k = "bitlen n - bitlen d"
  note bn = bitlen_bounds_rat[OF n] and bd = bitlen_bounds_rat[OF d]
  have "x < 2 powi (bitlen n) / 2 powi (bitlen d - 1)"
    unfolding x using bn bd d n by (intro frac_less) auto
  also have "\<dots> = 2 powi (?k + 1)" by (simp add: power_int_diff power_int_add)
  finally have up: "x < 2 powi (?k + 1)" .
  have "2 powi (bitlen n - 1) / 2 powi (bitlen d) \<le> x"
    unfolding x using bn bd d n by (intro frac_le) auto
  moreover have "2 powi (bitlen n - 1) / 2 powi (bitlen d) = (2 powi (?k - 1) :: rat)"
    by (simp add: power_int_diff)
  ultimately have "2 powi (?k - 1) \<le> x" by simp
  with up show ?thesis by (auto simp: ilog2_def nd Let_def)
qed

lemma f64_finite:
  assumes "\<bar>r\<bar> \<le> (2 :: rat) ^ 62" shows "\<not> 2 ^ 1024 \<le> r \<and> \<not> r \<le> - (2 ^ 1024)"
proof -
  define M where "M = (2 :: rat) ^ 1024"
  have "(2::rat) ^ 62 < M" unfolding M_def by (rule power_strict_increasing) auto
  with assms have "\<not> M \<le> r \<and> \<not> r \<le> - M" by linarith
  then show ?thesis by (simp add: M_def)
qed

lemma f64_roundI:
  assumes "x \<noteq> 0" "max (ilog2 \<bar>x\<bar> - 52) (- 1074) = e"
    and "of_int (rhe (x / 2 powi e)) * 2 powi e = r" "\<bar>r\<bar> \<le> (2 :: rat) ^ 62"
  shows "f64_round x = Fin r"
  using f64_finite[OF assms(4)] assms(1)
  unfolding f64_round_def Let_def assms(2,3) by (simp only: if_False simp_thms)

text \<open>Below \<open>2 ^ 53\<close> integers are exact; from there on rounding cannot cross a power of two.\<close>

lemma f64_round_exact:
  assumes "\<bar>i\<bar> \<le> 2 ^ 53" shows "f64_round (of_int i) = Fin (of_int i)"
proof (cases "i = 0")
  case True
  then show ?thesis by (simp add: f64_round_def)
next
  case False
  define x where "x = (of_int \<bar>i\<bar> :: rat)"
  have x: "0 < x" "x \<le> 2 ^ 53" using False assms by (auto simp: x_def simp flip: of_int_power)
  note b = ilog2_bounds[OF x(1)]
  have lo: "0 \<le> ilog2 x"
  proof (rule ccontr)
    assume "\<not> 0 \<le> ilog2 x"
    then have "2 powi (ilog2 x + 1) \<le> (2 powi 0 :: rat)" by (intro power_int_increasing) auto
    with b have "x < 1" by simp
    with False show False by (simp add: x_def)
  qed
  have hi: "ilog2 x \<le> 53"
  proof (rule ccontr)
    assume "\<not> ilog2 x \<le> 53"
    then have "2 powi 54 \<le> (2 powi (ilog2 x) :: rat)" by (intro power_int_increasing) auto
    with b x(2) have "2 powi 54 \<le> (2 ^ 53 :: rat)" by linarith
    then show False by simp
  qed
  let ?e = "max (ilog2 x - 52) (- 1074)"
  have e: "?e = ilog2 x - 52" using lo by simp
  have div_int: "\<exists>q. of_int i / 2 powi ?e = (of_int q :: rat)"
  proof (cases "ilog2 x = 53")
    case True
    with b x(2) have "x = 2 ^ 53" by simp
    then have "\<bar>i\<bar> = 2 ^ 53" unfolding x_def by (metis of_int_eq_iff of_int_numeral of_int_power)
    then have "i = 2 ^ 53 \<or> i = - (2 ^ 53)" by linarith
    then have "of_int i / 2 powi ?e = (of_int (2 ^ 52) :: rat) \<or>
               of_int i / 2 powi ?e = (of_int (- (2 ^ 52)) :: rat)"
      unfolding e True by auto
    then show ?thesis by blast
  next
    case False
    then have "?e \<le> 0" using hi e by simp
    then obtain k where k: "?e = - int k" by (metis nat_0_le minus_minus neg_0_le_iff_le)
    have "of_int i / 2 powi ?e = (of_int (i * 2 ^ k) :: rat)"
      unfolding k by (simp add: power_int_minus divide_inverse)
    then show ?thesis by blast
  qed
  then obtain q where q: "of_int i / 2 powi ?e = (of_int q :: rat)" by blast
  then have r: "of_int q * 2 powi ?e = (of_int i :: rat)" by (simp add: field_simps)
  have ax: "\<bar>of_int i :: rat\<bar> = x" by (simp add: x_def)
  show ?thesis
  proof (rule f64_roundI)
    show "(of_int i :: rat) \<noteq> 0" using False by simp
    show "max (ilog2 \<bar>of_int i\<bar> - 52) (- 1074) = ?e" by (simp only: ax)
    show "of_int (rhe (of_int i / 2 powi ?e)) * 2 powi ?e = (of_int i :: rat)"
      by (simp only: q rhe_of_int r)
    show "\<bar>of_int i :: rat\<bar> \<le> 2 ^ 62" using x(2) by (simp add: ax)
  qed
qed

text \<open>
  Rounding never crosses a power of two: a value of at least \<open>2 ^ 53\<close> stays there, and a value
  of at most \<open>2 ^ 62\<close> stays within int64.
\<close>

lemma f64_round_range:
  assumes lo: "2 ^ 53 \<le> x" and hi: "x \<le> 2 ^ 62"
  shows "\<exists>r. f64_round x = Fin r \<and> 2 ^ 53 \<le> r \<and> r \<le> 2 ^ 62"
proof -
  have x: "0 < x" using lo by (auto intro: less_le_trans)
  note b = ilog2_bounds[OF x]
  have l: "53 \<le> ilog2 x"
  proof (rule ccontr)
    assume "\<not> 53 \<le> ilog2 x"
    then have "2 powi (ilog2 x + 1) \<le> (2 powi 53 :: rat)" by (intro power_int_increasing) auto
    with b lo show False by simp
  qed
  have h: "ilog2 x \<le> 62"
  proof (rule ccontr)
    assume "\<not> ilog2 x \<le> 62"
    then have "2 powi 63 \<le> (2 powi (ilog2 x) :: rat)" by (intro power_int_increasing) auto
    with b hi have "2 powi 63 \<le> (2 ^ 62 :: rat)" by linarith
    then show False by simp
  qed
  define k where "k = nat (ilog2 x - 52)"
  have e: "max (ilog2 x - 52) (- 1074) = int k" and k: "1 \<le> k" "k \<le> 10"
    using l h by (auto simp: k_def)
  define m where "m = rhe (x / 2 ^ k)"
  have "2 ^ (53 - k) * 2 ^ k = (2 ^ 53 :: rat)" "2 ^ (62 - k) * 2 ^ k = (2 ^ 62 :: rat)"
    using k by (simp_all flip: power_add)
  note split = this
  have "of_int (2 ^ (53 - k)) \<le> x / 2 ^ k" using lo split by (simp add: field_simps)
  then have m_lo: "2 ^ (53 - k) \<le> m" unfolding m_def by (rule rhe_ge)
  have "x / 2 ^ k \<le> of_int (2 ^ (62 - k))" using hi split by (simp add: field_simps)
  then have m_hi: "m \<le> 2 ^ (62 - k)" unfolding m_def by (rule rhe_le)
  let ?r = "of_int m * 2 ^ k :: rat"
  have "of_int (2 ^ (53 - k)) * 2 ^ k \<le> ?r" using m_lo by (intro mult_right_mono) auto
  then have r_lo: "2 ^ 53 \<le> ?r" using split by simp
  have "?r \<le> of_int (2 ^ (62 - k)) * 2 ^ k" using m_hi by (intro mult_right_mono) auto
  then have r_hi: "?r \<le> 2 ^ 62" using split by simp
  have "f64_round x = Fin ?r"
  proof (rule f64_roundI)
    show "max (ilog2 \<bar>x\<bar> - 52) (- 1074) = int k" using x e by simp
    show "of_int (rhe (x / 2 powi int k)) * 2 powi int k = ?r" by (simp add: m_def)
    show "\<bar>?r\<bar> \<le> 2 ^ 62" using r_lo r_hi by (simp add: abs_le_iff)
  qed (use x in simp)
  with r_lo r_hi show ?thesis by blast
qed

text \<open>
  Rounding is monotone against any bound that is itself a binary64 value with at most 53 bits.
\<close>

lemma pow_powi: "(2 :: rat) ^ k = 2 powi (int k)"
  by simp

lemma dyadic_div:
  assumes "e \<le> - int t" shows "\<exists>q. (of_int n / 2 ^ t) / 2 powi e = (of_int q :: rat) \<and> q = n * 2 ^ nat (- int t - e)"
proof -
  have "2 powi (- int t - e) = (2 :: rat) ^ nat (- int t - e)"
    using assms by (simp add: power_int_def)
  moreover have "2 powi (- int t - e) = (1 / 2 ^ t) / (2 powi e :: rat)"
    by (simp add: power_int_diff power_int_minus divide_inverse)
  ultimately have "(of_int n / 2 ^ t) / 2 powi e = (of_int (n * 2 ^ nat (- int t - e)) :: rat)"
    by (simp add: divide_inverse)
  then show ?thesis by blast
qed

lemma rhe_mult: "x = of_int q * p \<Longrightarrow> 0 < p \<Longrightarrow> of_int (rhe (x / p)) * p = x"
  by simp

lemma f64_round_between:
  assumes lo: "of_int m / 2 ^ t \<le> x" and hi: "x \<le> of_int n / 2 ^ t"
    and m: "\<bar>m\<bar> \<le> 2 ^ 53" and n: "\<bar>n\<bar> \<le> 2 ^ 53" and t: "t \<le> 1000"
  shows "\<exists>r. f64_round x = Fin r \<and> of_int m / 2 ^ t \<le> r \<and> r \<le> of_int n / 2 ^ t"
proof (cases "x = 0")
  case True
  then show ?thesis using lo hi by (simp add: f64_round_def)
next
  case False
  have bnd: "\<bar>of_int k / 2 ^ t\<bar> \<le> 2 ^ 53 / (2 :: rat) ^ t" if "\<bar>k\<bar> \<le> 2 ^ 53" for k
  proof -
    have "\<bar>of_int k :: rat\<bar> \<le> of_int (2 ^ 53)" using that by (simp only: of_int_abs[symmetric] of_int_le_iff)
    then show ?thesis by (simp add: abs_divide divide_right_mono)
  qed
  have ax: "\<bar>x\<bar> \<le> 2 ^ 53 / 2 ^ t" using bnd[OF m] bnd[OF n] lo hi by linarith
  have one: "(2 :: rat) ^ 53 / 2 ^ t \<le> 2 ^ 53" by (simp add: divide_le_eq)
  have top: "2 ^ 53 / (2 :: rat) ^ t = 2 powi (53 - int t)"
    by (simp add: power_int_diff)
  let ?L = "ilog2 \<bar>x\<bar>"
  let ?e = "max (?L - 52) (- 1074)"
  have b: "2 powi ?L \<le> \<bar>x\<bar>" "\<bar>x\<bar> < 2 powi (?L + 1)" using ilog2_bounds[of "\<bar>x\<bar>"] False by auto
  have L: "?L \<le> 53 - int t"
  proof (rule ccontr)
    assume "\<not> ?L \<le> 53 - int t"
    then have "(2 :: rat) powi (53 - int t) < 2 powi ?L" by (intro power_int_strict_increasing) auto
    then show False using b(1) ax top by linarith
  qed
  define r where "r = (of_int (rhe (x / 2 powi ?e)) * 2 powi ?e :: rat)"
  have r: "of_int m / 2 ^ t \<le> r \<and> r \<le> of_int n / 2 ^ t"
  proof (cases "?L = 53 - int t")
    case True
    then have "\<bar>x\<bar> = 2 ^ 53 / 2 ^ t" using b(1) ax top by simp
    moreover have "(2 :: rat) ^ 53 / 2 ^ t = of_int (2 ^ 52) * 2 powi ?e"
      using True t top power_int_add[of "2 :: rat" 52 "1 - int t"] by simp
    ultimately have "x = of_int (2 ^ 52) * 2 powi ?e \<or> x = of_int (- (2 ^ 52)) * 2 powi ?e" by auto
    then have "of_int (rhe (x / 2 powi ?e)) * 2 powi ?e = x"
      by (elim disjE) (rule rhe_mult, assumption, simp)+
    then have "r = x" by (simp add: r_def)
    then show ?thesis using lo hi by simp
  next
    case False
    then have e: "?e \<le> - int t" using L t by simp
    have pos: "(0 :: rat) < 2 powi ?e" by simp
    obtain qm where qm: "(of_int m / 2 ^ t) / 2 powi ?e = (of_int qm :: rat)" using dyadic_div[OF e] by blast
    obtain qn where qn: "(of_int n / 2 ^ t) / 2 powi ?e = (of_int qn :: rat)" using dyadic_div[OF e] by blast
    have "of_int qm \<le> x / 2 powi ?e" "x / 2 powi ?e \<le> of_int qn"
      unfolding qm[symmetric] qn[symmetric] using lo hi pos by (simp_all only: divide_right_mono less_imp_le)
    then have "qm \<le> rhe (x / 2 powi ?e)" "rhe (x / 2 powi ?e) \<le> qn" by (auto intro: rhe_le rhe_ge)
    then have "of_int qm * 2 powi ?e \<le> of_int (rhe (x / 2 powi ?e)) * (2 powi ?e :: rat)"
      "of_int (rhe (x / 2 powi ?e)) * 2 powi ?e \<le> of_int qn * (2 powi ?e :: rat)"
      using pos by (auto intro: mult_right_mono)
    moreover have "of_int qm * 2 powi ?e = (of_int m / 2 ^ t :: rat)" "of_int qn * 2 powi ?e = (of_int n / 2 ^ t :: rat)"
      using qm qn pos by (auto simp: field_simps)
    ultimately show ?thesis by (simp add: r_def)
  qed
  have "\<bar>r\<bar> \<le> 2 ^ 53 / 2 ^ t" using bnd[OF m] bnd[OF n] r by linarith
  also have "\<dots> \<le> 2 ^ 62" using one by (rule order_trans) simp
  finally have "f64_round x = Fin r" using False by (intro f64_roundI[OF _ refl]) (simp_all add: r_def)
  then show ?thesis using r by blast
qed

text \<open>The instance for integer bounds, and the conversion back.\<close>

lemma f64_round_between_int:
  assumes "of_int m \<le> x" "x \<le> of_int n" "\<bar>m\<bar> \<le> 2 ^ 53" "\<bar>n\<bar> \<le> 2 ^ 53"
  shows "\<exists>r. f64_round x = Fin r \<and> of_int m \<le> r \<and> r \<le> of_int n"
  using f64_round_between[of m 0 x n] assms by simp

lemma to_int64_between:
  assumes "of_int m \<le> r" "r \<le> of_int n" "\<bar>m\<bar> \<le> 2 ^ 53" "\<bar>n\<bar> \<le> 2 ^ 53"
  shows "m \<le> to_int64 ovf (Fin r) \<and> to_int64 ovf (Fin r) \<le> n"
proof -
  let ?t = "if 0 \<le> r then \<lfloor>r\<rfloor> else \<lceil>r\<rceil>"
  have "m \<le> \<lfloor>r\<rfloor>" "\<lceil>r\<rceil> \<le> n" using assms(1,2) by (simp_all add: le_floor_iff ceiling_le_iff)
  then have "m \<le> ?t" "?t \<le> n" using floor_le_ceiling[of r] by (cases "0 \<le> r"; simp only: if_True if_False; linarith)+
  moreover from this have "min_int64 \<le> ?t" "?t \<le> max_int64" using assms(3,4) by (auto simp: abs_le_iff)
  ultimately show ?thesis by (simp add: Let_def)
qed

end
