(* ===== verification/RoundTrip.thy ===== *)
theory RoundTrip
  imports GoTime
begin

text \<open>
  \<^verbatim>\<open>checks.RoundTripper\<close>: a ring buffer of the last twenty roundtrip times of a checker and
  their average, which ranks the members of a service group. The lemmas relate the buffer to the
  list of all the times ever recorded.
\<close>

record RoundTripper =
  rt_currentTripStart :: int
  rt_roundtrips :: "Duration list"
  rt_roundtripIdx :: nat
  rt_count :: nat
  rt_roundtripCapacity :: nat

definition NewRoundtripper :: RoundTripper where
  "NewRoundtripper = \<lparr>rt_currentTripStart = 0, rt_roundtrips = replicate 20 0,
     rt_roundtripIdx = 0, rt_count = 0, rt_roundtripCapacity = 20\<rparr>"

definition startRecording :: "int \<Rightarrow> RoundTripper \<Rightarrow> RoundTripper" where
  "startRecording now rt = rt\<lparr>rt_currentTripStart := now\<rparr>"

definition endRecording :: "int \<Rightarrow> RoundTripper \<Rightarrow> RoundTripper" where
  "endRecording now rt =
     (let rt1 = rt\<lparr>rt_roundtrips := (rt_roundtrips rt)[rt_roundtripIdx rt := now - rt_currentTripStart rt]\<rparr>;
          rt2 = rt1\<lparr>rt_roundtripIdx := (rt_roundtripIdx rt1 + 1) mod rt_roundtripCapacity rt1\<rparr>
      in if rt_count rt2 < rt_roundtripCapacity rt2
         then rt2\<lparr>rt_count := rt_count rt2 + 1\<rparr> else rt2)"

definition AverageRoundtripTime :: "RoundTripper \<Rightarrow> Duration" where
  "AverageRoundtripTime rt =
     (if rt_count rt = 0 then 0 else quot (sum_list (rt_roundtrips rt)) (int (rt_count rt)))"

text \<open>One check records one time; \<open>record_all\<close> is the history of a checker.\<close>

definition record_trip :: "int \<times> int \<Rightarrow> RoundTripper \<Rightarrow> RoundTripper" where
  "record_trip t rt = endRecording (snd t) (startRecording (fst t) rt)"

definition record_all :: "(int \<times> int) list \<Rightarrow> RoundTripper \<Rightarrow> RoundTripper" where
  "record_all ts rt = fold record_trip ts rt"

definition trip_times :: "(int \<times> int) list \<Rightarrow> Duration list" where
  "trip_times ts = map (\<lambda>(s, e). e - s) ts"

definition last_n :: "nat \<Rightarrow> 'a list \<Rightarrow> 'a list" where
  "last_n n xs = drop (length xs - n) xs"

text \<open>The buffer \<open>rt\<close> holds the last twenty of the times \<open>ds\<close>, each at its index modulo 20.\<close>

definition rt_holds :: "RoundTripper \<Rightarrow> Duration list \<Rightarrow> bool" where
  "rt_holds rt ds \<longleftrightarrow>
     length (rt_roundtrips rt) = 20 \<and> rt_roundtripCapacity rt = 20 \<and>
     rt_roundtripIdx rt = length ds mod 20 \<and> rt_count rt = min (length ds) 20 \<and>
     (\<forall>k < length ds. length ds \<le> k + 20 \<longrightarrow> rt_roundtrips rt ! (k mod 20) = ds ! k) \<and>
     (\<forall>j. length ds \<le> j \<and> j < 20 \<longrightarrow> rt_roundtrips rt ! j = 0) \<and>
     sum_list (rt_roundtrips rt) = sum_list (last_n 20 ds)"

lemma rt_holds_new: "rt_holds NewRoundtripper []"
  by (simp add: rt_holds_def NewRoundtripper_def last_n_def sum_list_replicate)

lemma sum_list_update_int:
  "i < length xs \<Longrightarrow> sum_list (xs[i := (x::int)]) = sum_list xs - xs ! i + x"
  by (induction xs arbitrary: i) (auto split: nat.splits)

lemma sum_last_n_snoc:
  "sum_list (last_n 20 (ds @ [d])) =
   sum_list (last_n 20 ds) - (if 20 \<le> length ds then ds ! (length ds - 20) else 0) + (d::int)"
proof (cases "20 \<le> length ds")
  case True
  then have "drop (length ds - 20) ds = ds ! (length ds - 20) # drop (Suc (length ds - 20)) ds"
    by (intro Cons_nth_drop_Suc [symmetric]) auto
  moreover have "Suc (length ds) - 20 = Suc (length ds - 20)" using True by simp
  ultimately show ?thesis using True by (simp add: last_n_def)
next
  case False
  then show ?thesis by (simp add: last_n_def)
qed

lemma overwritten_cell:
  assumes "rt_holds rt ds"
  shows "rt_roundtrips rt ! (length ds mod 20) =
         (if 20 \<le> length ds then ds ! (length ds - 20) else 0)"
proof (cases "20 \<le> length ds")
  case True
  then have "(length ds - 20) mod 20 = length ds mod 20" by (simp add: mod_if)
  moreover have "rt_roundtrips rt ! ((length ds - 20) mod 20) = ds ! (length ds - 20)"
    using assms True by (auto simp: rt_holds_def)
  ultimately show ?thesis using True by simp
next
  case False
  then show ?thesis using assms by (auto simp: rt_holds_def)
qed

lemma mod20_neq:
  assumes "k < n" "n < k + 20" shows "k mod 20 \<noteq> n mod (20::nat)"
proof
  assume "k mod 20 = n mod 20"
  then have "20 dvd n - k" using assms(1) by (metis less_imp_le mod_eq_dvd_iff_nat)
  moreover have "\<not> 20 dvd n - k" by (rule nat_dvd_not_less) (use assms in auto)
  ultimately show False by simp
qed

lemma rt_holds_record:
  assumes "rt_holds rt ds" shows "rt_holds (record_trip (s, e) rt) (ds @ [e - s])"
proof -
  let ?n = "length ds"
  let ?cells = "(rt_roundtrips rt)[?n mod 20 := e - s]"
  have inv: "length (rt_roundtrips rt) = 20" "rt_roundtripCapacity rt = 20"
    "rt_roundtripIdx rt = ?n mod 20" "rt_count rt = min ?n 20"
    "sum_list (rt_roundtrips rt) = sum_list (last_n 20 ds)"
    using assms by (auto simp: rt_holds_def)
  have cells: "rt_roundtrips (record_trip (s, e) rt) = ?cells"
    "rt_roundtripCapacity (record_trip (s, e) rt) = 20"
    "rt_roundtripIdx (record_trip (s, e) rt) = Suc ?n mod 20"
    "rt_count (record_trip (s, e) rt) = min (Suc ?n) 20"
    using inv by (auto simp: record_trip_def endRecording_def startRecording_def Let_def mod_Suc_eq)
  have sum: "sum_list ?cells = sum_list (last_n 20 (ds @ [e - s]))"
    using inv overwritten_cell[OF assms] by (simp add: sum_list_update_int sum_last_n_snoc)
  have old: "?cells ! (k mod 20) = ds ! k" if "k < ?n" "Suc ?n \<le> k + 20" for k
    using that assms mod20_neq[of k ?n] by (auto simp: rt_holds_def nth_list_update)
  have new: "?cells ! (?n mod 20) = e - s" using inv by simp
  have zero: "?cells ! j = 0" if "Suc ?n \<le> j" "j < 20" for j
    using that assms by (auto simp: rt_holds_def nth_list_update)
  have hold: "?cells ! (k mod 20) = (ds @ [e - s]) ! k" if "k < Suc ?n" "Suc ?n \<le> k + 20" for k
  proof (cases "k = ?n")
    case True
    then show ?thesis using new by simp
  next
    case False
    then show ?thesis using that old[of k] by (simp add: nth_append)
  qed
  show ?thesis
    unfolding rt_holds_def cells length_append_singleton
    using inv(1) sum hold zero by (intro conjI allI impI) (simp_all only: length_list_update)
qed

lemma rt_holds_all:
  "rt_holds rt ds \<Longrightarrow> rt_holds (record_all ts rt) (ds @ trip_times ts)"
proof (induction ts arbitrary: rt ds)
  case Nil
  then show ?case by (simp add: record_all_def trip_times_def)
next
  case (Cons t ts)
  obtain s e where t: "t = (s, e)" by fastforce
  have "rt_holds (record_all ts (record_trip t rt)) ((ds @ [e - s]) @ trip_times ts)"
    unfolding t by (intro Cons.IH rt_holds_record Cons.prems)
  then show ?case by (simp add: record_all_def trip_times_def t)
qed

text \<open>
  The average roundtrip time of a checker is the integer mean of the times of its last twenty
  checks, or of all of them while there are fewer; with no check yet it is zero.
\<close>

theorem average_is_mean_of_last_20:
  "AverageRoundtripTime (record_all ts NewRoundtripper) =
     (if ts = [] then 0
      else quot (sum_list (last_n 20 (trip_times ts))) (int (min (length ts) 20)))"
proof -
  have "rt_holds (record_all ts NewRoundtripper) (trip_times ts)"
    using rt_holds_all[OF rt_holds_new, of ts] by simp
  moreover have "length (trip_times ts) = length ts" by (simp add: trip_times_def)
  ultimately show ?thesis by (cases ts) (auto simp: rt_holds_def AverageRoundtripTime_def)
qed

end
