(* ===== verification/Checks.thy ===== *)
theory Checks
  imports RoundTrip
begin

text \<open>
  The health checkers of \<^verbatim>\<open>internal/checks\<close>. What the network (or the random generator of a
  dry run) answers is an input, the \<open>probe\<close>; what each checker makes of it, and the roundtrip
  time it records around the probe, is the code's.
\<close>

datatype Checker =
    DryRun
  | HTTPChecker (http_url: string) (ck_timeout: Duration) (http_validator: "string option") (ck_rt: RoundTripper)
  | TCPFullChecker (ck_addr: string) (ck_timeout: Duration) (ck_rt: RoundTripper)
  | TCPHalfChecker (ck_addr: string) (ck_timeout: Duration) (ck_rt: RoundTripper)

text \<open>
  \<^verbatim>\<open>NewHTTPChecker\<close> takes any number of scripts and keeps the last one that is not empty.
\<close>

fun pick_validator :: "string list \<Rightarrow> string option \<Rightarrow> string option" where
  "pick_validator [] v = v"
| "pick_validator (s # ss) v = pick_validator ss (if s \<noteq> [] then Some s else v)"

definition NewHTTPChecker :: "string \<Rightarrow> Duration \<Rightarrow> string list \<Rightarrow> Checker" where
  "NewHTTPChecker url timeout scripts = HTTPChecker url timeout (pick_validator scripts None) NewRoundtripper"

definition NewTCPFullChecker :: "string \<Rightarrow> Duration \<Rightarrow> Checker" where
  "NewTCPFullChecker addr timeout = TCPFullChecker addr timeout NewRoundtripper"

definition NewTCPHalfChecker :: "string \<Rightarrow> Duration \<Rightarrow> Checker" where
  "NewTCPHalfChecker addr timeout = TCPHalfChecker addr timeout NewRoundtripper"

text \<open>
  An answer of the network: no usable connection (and whether it was a time-out), or a connection,
  with the HTTP status and the verdict of the validation script where one runs.
\<close>

datatype probe = Unreachable (timed_out: bool) | Reached (status: int) (script_accepts: bool)

text \<open>\<^verbatim>\<open>Check\<close> of each checker: \<open>True\<close> when it returns a nil error.\<close>

fun check_ok :: "Checker \<Rightarrow> probe \<Rightarrow> bool" where
  "check_ok DryRun (Unreachable to) = False"
| "check_ok DryRun (Reached st v) = True"
| "check_ok (HTTPChecker u t val rt) (Unreachable to) = False"
| "check_ok (HTTPChecker u t val rt) (Reached st v) =
     (case val of Some s \<Rightarrow> v | None \<Rightarrow> st \<noteq> 503)"
| "check_ok (TCPFullChecker a t rt) (Unreachable to) = False"
| "check_ok (TCPFullChecker a t rt) (Reached st v) = True"
| "check_ok (TCPHalfChecker a t rt) (Unreachable to) = (\<not> to)"
| "check_ok (TCPHalfChecker a t rt) (Reached st v) = True"

fun record_check :: "int \<times> int \<Rightarrow> Checker \<Rightarrow> Checker" where
  "record_check t DryRun = DryRun"
| "record_check t (HTTPChecker u to v rt) = HTTPChecker u to v (record_trip t rt)"
| "record_check t (TCPFullChecker a to rt) = TCPFullChecker a to (record_trip t rt)"
| "record_check t (TCPHalfChecker a to rt) = TCPHalfChecker a to (record_trip t rt)"

definition Check :: "int \<times> int \<Rightarrow> probe \<Rightarrow> Checker \<Rightarrow> Checker \<times> bool" where
  "Check t p c = (record_check t c, check_ok c p)"

fun Roundtrip :: "Checker \<Rightarrow> Duration" where
  "Roundtrip DryRun = 0"
| "Roundtrip (HTTPChecker u t v rt) = AverageRoundtripTime rt"
| "Roundtrip (TCPFullChecker a t rt) = AverageRoundtripTime rt"
| "Roundtrip (TCPHalfChecker a t rt) = AverageRoundtripTime rt"

lemma pick_validator_last:
  "pick_validator ss v = (case filter (\<lambda>s. s \<noteq> []) ss of [] \<Rightarrow> v | xs \<Rightarrow> Some (last xs))"
  by (induction ss arbitrary: v) (auto split: list.splits)

lemma Roundtrip_new [simp]:
  "Roundtrip (NewHTTPChecker u t ss) = 0"
  "Roundtrip (NewTCPFullChecker a t) = 0"
  "Roundtrip (NewTCPHalfChecker a t) = 0"
  by (simp_all add: NewHTTPChecker_def NewTCPFullChecker_def NewTCPHalfChecker_def
      AverageRoundtripTime_def NewRoundtripper_def)

end
