(* ===== verification/Service.thy ===== *)
theory Service
  imports Checks
begin

text \<open>
  \<^verbatim>\<open>internal/service\<close>: the service object, its construction from a configuration record, the
  interval arithmetic and the failure counter that turns check results into health. The network
  functions of Go that construction calls, and what the platform's float conversion does out of
  range, are the parameters collected in \<open>NetEnv\<close>.
\<close>

section \<open>Configuration and service\<close>

text \<open>\<^verbatim>\<open>model.GSLBConfig\<close>, after JSON decoding.\<close>

record GSLBConfig =
  cfg_ServiceID :: string
  cfg_Fqdn :: string
  cfg_MemberOf :: string
  cfg_Ip :: string
  cfg_Port :: string
  cfg_Datacenter :: string
  cfg_Interval :: Duration
  cfg_Priority :: int
  cfg_FailureThreshold :: int
  cfg_CheckType :: string
  cfg_Script :: string

text \<open>A resolved address is used through the string forms of its IP and of the whole.\<close>

record TCPAddr =
  ta_IP :: string
  ta_String :: string

record NetEnv =
  net_ParseIP :: "string \<Rightarrow> string option"
  net_ResolveTCPAddr :: "string \<Rightarrow> TCPAddr option"
  f64_overflow :: int

text \<open>
  \<^verbatim>\<open>service.Service\<close>. The health-change callback is a closure of the manager; the service only
  knows whether one is set.
\<close>

record Service =
  svc_id :: string
  svc_addr :: TCPAddr
  svc_Fqdn :: string
  svc_MemberOf :: string
  svc_Datacenter :: string
  svc_checkType :: string
  svc_ScheduledInterval :: Duration
  svc_defaultInterval :: Duration
  svc_priority :: int
  svc_FailureThreshold :: int
  svc_failureCount :: int
  svc_checker :: Checker
  svc_callbackSet :: bool
  svc_isHealthy :: bool
  svc_dryRun :: bool

text \<open>\<^verbatim>\<open>model.GSLBService\<close>, the stored form.\<close>

record GSLBService =
  gs_ID :: string
  gs_MemberOf :: string
  gs_Fqdn :: string
  gs_Datacenter :: string
  gs_IP :: string
  gs_IsHealthy :: bool
  gs_FailureCount :: int
  gs_IsActive :: bool
  gs_HasOverride :: bool

type_synonym GSLBServiceGroup = "GSLBService list"

section \<open>Intervals\<close>

fun scale_loop :: "nat \<Rightarrow> f64 \<Rightarrow> f64" where
  "scale_loop 0 m = m"
| "scale_loop (Suc n) m = scale_loop n (f64_mul m (Fin 3))"

definition multiplier :: "int \<Rightarrow> f64" where
  "multiplier priority = scale_loop (nat (priority - 1)) (Fin 1)"

definition CalculateInterval :: "NetEnv \<Rightarrow> int \<Rightarrow> Duration \<Rightarrow> Duration" where
  "CalculateInterval env priority baseInterval =
     (let priority = (if priority < 1 then 1 else priority);
          interval = to_int64 (f64_overflow env) (f64_mul (f64_of_int baseInterval) (multiplier priority))
      in if interval > MAX_CHECK_INTERVAL then MAX_CHECK_INTERVAL else interval)"

definition GetBaseInterval :: "NetEnv \<Rightarrow> Service \<Rightarrow> Duration" where
  "GetBaseInterval env s =
     (let baseInterval = max (to_int64 (f64_overflow env)
            (f64_div (f64_of_int (svc_defaultInterval s)) (multiplier (svc_priority s)))) (Second * 5)
      in Duration_Round baseInterval Second)"

section \<open>Construction\<close>

datatype ServiceOption = WithDryRunChecks bool | WithHealthy | WithFailureCount int

fun apply_option :: "Service \<Rightarrow> ServiceOption \<Rightarrow> Service" where
  "apply_option s (WithDryRunChecks enabled) = s\<lparr>svc_dryRun := enabled\<rparr>"
| "apply_option s WithHealthy = s\<lparr>svc_isHealthy := True\<rparr>"
| "apply_option s (WithFailureCount n) = (if n > -1 then s\<lparr>svc_failureCount := n\<rparr> else s)"

datatype service_error = ErrUnableToParseIpAddr | ErrUnableToResolveAddr | ErrEmptyServiceId

definition select_checker :: "GSLBConfig \<Rightarrow> Service \<Rightarrow> Checker" where
  "select_checker config s =
     (if svc_dryRun s then DryRun
      else if cfg_CheckType config = ''HTTPS''
        then NewHTTPChecker (''https://'' @ svc_Fqdn s) DEFAULT_TIMEOUT [cfg_Script config]
      else if cfg_CheckType config = ''HTTP''
        then NewHTTPChecker (''https://'' @ svc_Fqdn s) DEFAULT_TIMEOUT [cfg_Script config]
      else if cfg_CheckType config = ''TCP-FULL''
        then NewTCPFullChecker (ta_String (svc_addr s)) DEFAULT_TIMEOUT
      else if cfg_CheckType config = ''TCP-HALF''
        then NewTCPHalfChecker (ta_String (svc_addr s)) DEFAULT_TIMEOUT
      else NewTCPFullChecker (ta_String (svc_addr s)) DEFAULT_TIMEOUT)"

definition NewServiceFromGSLBConfig ::
  "NetEnv \<Rightarrow> GSLBConfig \<Rightarrow> ServiceOption list \<Rightarrow> service_error + Service" where
  "NewServiceFromGSLBConfig env config opts =
     (case net_ParseIP env (cfg_Ip config) of
        None \<Rightarrow> Inl ErrUnableToParseIpAddr
      | Some ip \<Rightarrow>
        (case net_ResolveTCPAddr env (ip @ '':'' @ cfg_Port config) of
           None \<Rightarrow> Inl ErrUnableToResolveAddr
         | Some addr \<Rightarrow>
           if cfg_ServiceID config = [] then Inl ErrEmptyServiceId
           else
             let interval = CalculateInterval env (cfg_Priority config) (cfg_Interval config);
                 svc = \<lparr>svc_id = cfg_ServiceID config, svc_addr = addr, svc_Fqdn = cfg_Fqdn config,
                        svc_MemberOf = cfg_MemberOf config, svc_Datacenter = cfg_Datacenter config,
                        svc_checkType = cfg_CheckType config, svc_ScheduledInterval = interval,
                        svc_defaultInterval = interval, svc_priority = cfg_Priority config,
                        svc_FailureThreshold = cfg_FailureThreshold config,
                        svc_failureCount = cfg_FailureThreshold config, svc_checker = DryRun,
                        svc_callbackSet = False, svc_isHealthy = False, svc_dryRun = False\<rparr>;
                 svc = foldl apply_option svc opts
             in Inr (svc\<lparr>svc_checker := select_checker config svc\<rparr>)))"

section \<open>The failure counter\<close>

text \<open>
  \<^verbatim>\<open>OnSuccess\<close> and \<^verbatim>\<open>OnFailure\<close> return the updated service and, when the health changed, the
  argument of the callback, whose call is the last thing either method does.
\<close>

definition OnSuccess :: "Service \<Rightarrow> Service \<times> bool option" where
  "OnSuccess s =
     (if svc_isHealthy s then (s\<lparr>svc_failureCount := 0\<rparr>, None)
      else
        let s1 = (if svc_failureCount s > 0 then s\<lparr>svc_failureCount := svc_failureCount s - 1\<rparr> else s)
        in if svc_failureCount s1 = 0 then (s1\<lparr>svc_isHealthy := True\<rparr>, Some True) else (s1, None))"

definition OnFailure :: "Service \<Rightarrow> Service \<times> bool option" where
  "OnFailure s =
     (if \<not> svc_isHealthy s then (s\<lparr>svc_failureCount := svc_FailureThreshold s\<rparr>, None)
      else
        let s1 = (if svc_failureCount s < svc_FailureThreshold s
                  then s\<lparr>svc_failureCount := svc_failureCount s + 1\<rparr> else s)
        in if svc_failureCount s1 = svc_FailureThreshold s1
           then (s1\<lparr>svc_isHealthy := False\<rparr>, Some False) else (s1, None))"

definition SetHealthChangeCallback :: "Service \<Rightarrow> Service" where
  "SetHealthChangeCallback s = s\<lparr>svc_callbackSet := True\<rparr>"

section \<open>Accessors and updates\<close>

definition GetIP :: "Service \<Rightarrow> string" where
  "GetIP s = ta_IP (svc_addr s)"

definition GetAverageRoundtrip :: "Service \<Rightarrow> Duration" where
  "GetAverageRoundtrip s = Roundtrip (svc_checker s)"

definition ConfigChanged :: "Service \<Rightarrow> Service \<Rightarrow> bool" where
  "ConfigChanged s other \<longleftrightarrow>
     svc_Fqdn s \<noteq> svc_Fqdn other \<or>
     ta_String (svc_addr s) \<noteq> ta_String (svc_addr other) \<or>
     svc_Datacenter s \<noteq> svc_Datacenter other \<or>
     svc_FailureThreshold s \<noteq> svc_FailureThreshold other \<or>
     svc_priority s \<noteq> svc_priority other \<or>
     svc_checkType s \<noteq> svc_checkType other"

definition Assign :: "Service \<Rightarrow> Service \<Rightarrow> Service" where
  "Assign s new = s\<lparr>svc_addr := svc_addr new, svc_Fqdn := svc_Fqdn new,
     svc_checker := svc_checker new, svc_MemberOf := svc_MemberOf new,
     svc_priority := svc_priority new, svc_checkType := svc_checkType new,
     svc_Datacenter := svc_Datacenter new, svc_defaultInterval := svc_defaultInterval new,
     svc_FailureThreshold := svc_FailureThreshold new\<rparr>"

definition toGSLBService :: "Service \<Rightarrow> GSLBService" where
  "toGSLBService s = \<lparr>gs_ID = svc_id s, gs_MemberOf = svc_MemberOf s, gs_Fqdn = svc_Fqdn s,
     gs_Datacenter = svc_Datacenter s, gs_IP = GetIP s, gs_IsHealthy = svc_isHealthy s,
     gs_FailureCount = svc_failureCount s, gs_IsActive = False, gs_HasOverride = False\<rparr>"

definition Execute :: "int \<times> int \<Rightarrow> probe \<Rightarrow> Service \<Rightarrow> Service \<times> bool" where
  "Execute t p s = (case Check t p (svc_checker s) of (c, ok) \<Rightarrow> (s\<lparr>svc_checker := c\<rparr>, ok))"

lemma Assign_clears_change [simp]: "\<not> ConfigChanged (Assign s new) new"
  by (simp add: ConfigChanged_def Assign_def)

lemma Assign_frame [simp]:
  "svc_id (Assign s new) = svc_id s"
  "svc_ScheduledInterval (Assign s new) = svc_ScheduledInterval s"
  "svc_failureCount (Assign s new) = svc_failureCount s"
  "svc_isHealthy (Assign s new) = svc_isHealthy s"
  "svc_callbackSet (Assign s new) = svc_callbackSet s"
  by (simp_all add: Assign_def)

text \<open>A concrete service, unhealthy with threshold three, for evaluations.\<close>

definition blank_service :: Service where
  "blank_service = \<lparr>svc_id = ''a'', svc_addr = \<lparr>ta_IP = ''10.0.0.1'', ta_String = ''10.0.0.1:80''\<rparr>,
     svc_Fqdn = ''a.example'', svc_MemberOf = ''example'', svc_Datacenter = ''DC1'',
     svc_checkType = ''TCP-FULL'', svc_ScheduledInterval = 5 * Second,
     svc_defaultInterval = 5 * Second, svc_priority = 1, svc_FailureThreshold = 3,
     svc_failureCount = 3, svc_checker = DryRun, svc_callbackSet = False, svc_isHealthy = False,
     svc_dryRun = False\<rparr>"

section \<open>Interval lemmas\<close>

lemma scale_loop_exact:
  "3 ^ (k + n) \<le> (2 :: int) ^ 53 \<Longrightarrow> scale_loop n (Fin (3 ^ k)) = Fin (3 ^ (k + n))"
proof (induction n arbitrary: k)
  case 0
  then show ?case by simp
next
  case (Suc n)
  have "(3 :: int) ^ Suc k \<le> 3 ^ (k + Suc n)" by (rule power_increasing) auto
  then have "(3 :: int) ^ Suc k \<le> 2 ^ 53" using Suc.prems by (rule order_trans)
  then have "\<bar>(3 :: int) ^ Suc k\<bar> \<le> 2 ^ 53" by (simp only: abs_of_nonneg zero_le_power zero_le_numeral)
  then have "f64_round (of_int (3 ^ Suc k)) = Fin (of_int (3 ^ Suc k))" by (rule f64_round_exact)
  then have "f64_mul (Fin (3 ^ k)) (Fin 3) = Fin (3 ^ Suc k)" by (simp add: mult.commute)
  moreover have "scale_loop n (Fin (3 ^ Suc k)) = Fin (3 ^ (Suc k + n))"
    using Suc.prems by (intro Suc.IH) simp
  ultimately show ?case by (simp del: power_Suc)
qed

lemma multiplier_exact: "p \<le> 34 \<Longrightarrow> multiplier p = Fin (3 ^ nat (p - 1))"
proof -
  assume "p \<le> 34"
  then have "(3 :: int) ^ nat (p - 1) \<le> 3 ^ 33" by (intro power_increasing) auto
  also have "(3 :: int) ^ 33 \<le> 2 ^ 53" by simp
  finally show ?thesis using scale_loop_exact[of 0 "nat (p - 1)"] by (simp add: multiplier_def)
qed

lemma multiplier_le_one: "p \<le> 1 \<Longrightarrow> multiplier p = multiplier 1"
  by (simp add: multiplier_def)

lemma f64_of_int_exact: "\<bar>i\<bar> \<le> 2 ^ 53 \<Longrightarrow> f64_of_int i = Fin (of_int i)"
  unfolding f64_of_int_def by (rule f64_round_exact)

lemma to_int64_of_int:
  "min_int64 \<le> i \<Longrightarrow> i \<le> max_int64 \<Longrightarrow> to_int64 ovf (Fin (of_int i)) = i"
  by (auto simp: Let_def)

lemma CalculateInterval_product:
  assumes base: "0 \<le> base" "base \<le> 2 ^ 53" and p: "p \<le> 34"
    and prod: "base * 3 ^ nat (p - 1) \<le> 2 ^ 62"
  defines "x \<equiv> base * 3 ^ nat (p - 1)"
  shows "\<exists>i. to_int64 ovf (f64_mul (f64_of_int base) (multiplier p)) = i \<and>
             (if x \<le> 2 ^ 53 then i = x else 2 ^ 53 \<le> i)"
proof -
  have mul: "f64_mul (f64_of_int base) (multiplier p) = f64_round (of_int x)"
    using base by (simp add: f64_of_int_exact multiplier_exact[OF p] x_def)
  show ?thesis
  proof (cases "x \<le> 2 ^ 53")
    case True
    moreover have "0 \<le> x" using base by (simp add: x_def)
    ultimately have "f64_round (of_int x) = Fin (of_int x)" by (intro f64_round_exact) simp
    moreover have "to_int64 ovf (Fin (of_int x)) = x"
      using True \<open>0 \<le> x\<close> by (intro to_int64_of_int) auto
    ultimately show ?thesis using True mul by simp
  next
    case False
    then have "of_int (2 ^ 53) \<le> (of_int x :: rat)" "(of_int x :: rat) \<le> of_int (2 ^ 62)"
      using prod unfolding x_def[symmetric] by (simp_all only: of_int_le_iff)
    then have "2 ^ 53 \<le> (of_int x :: rat)" "(of_int x :: rat) \<le> 2 ^ 62"
      by (simp_all only: of_int_power of_int_numeral)
    from f64_round_range[OF this] obtain r where
      r: "f64_round (of_int x) = Fin r" "2 ^ 53 \<le> r" "r \<le> 2 ^ 62" by blast
    have "of_int (2 ^ 53) \<le> r" "r \<le> of_int (2 ^ 62)" using r by simp_all
    then have "2 ^ 53 \<le> \<lfloor>r\<rfloor>" "\<lfloor>r\<rfloor> \<le> 2 ^ 62"
      by (simp_all only: le_floor_iff) (metis floor_mono floor_of_int)
    then show ?thesis using False mul r by (auto simp: Let_def)
  qed
qed

text \<open>
  C31. For a base interval of up to 2^53 ns, priorities up to 34 and a product within 2^62 (no
  conversion overflow), the check interval is exactly the base interval times three to the power
  of the priority minus one (priorities below one count as one), capped at sixty seconds: the
  floating-point detour of the code loses nothing.
\<close>

theorem CalculateInterval_scales:
  assumes "0 \<le> base" "base \<le> 2 ^ 53" "p \<le> 34" "base * 3 ^ nat (p - 1) \<le> 2 ^ 62"
  shows "CalculateInterval env p base = min (base * 3 ^ nat (p - 1)) (60 * Second)"
proof -
  let ?x = "base * 3 ^ nat (p - 1)"
  have "multiplier (if p < 1 then 1 else p) = multiplier p"
    using multiplier_le_one[of p] by simp
  moreover obtain i where
    "to_int64 (f64_overflow env) (f64_mul (f64_of_int base) (multiplier p)) = i"
    "if ?x \<le> 2 ^ 53 then i = ?x else 2 ^ 53 \<le> i"
    using CalculateInterval_product[OF assms] by blast
  ultimately show ?thesis
    by (auto simp: CalculateInterval_def MAX_CHECK_INTERVAL_def Let_def split: if_splits)
qed

theorem CalculateInterval_scales_witness:
  "CalculateInterval \<lparr>net_ParseIP = Some, net_ResolveTCPAddr = (\<lambda>a. None), f64_overflow = min_int64\<rparr>
     3 (5 * Second) = 45 * Second"
  by (subst CalculateInterval_scales) simp_all

text \<open>
  The base interval that a promotion schedules a service on is never below five seconds,
  whatever its default interval and priority, provided the platform's out-of-range conversion
  yields some int64.
\<close>

theorem GetBaseInterval_at_least_5s:
  assumes "f64_overflow env \<le> max_int64"
  shows "5 * Second \<le> GetBaseInterval env s"
proof -
  let ?f = "f64_div (f64_of_int (svc_defaultInterval s)) (multiplier (svc_priority s))"
  have "to_int64 (f64_overflow env) ?f \<le> max_int64"
    using assms by (cases ?f) (auto simp: Let_def)
  then show ?thesis
    unfolding GetBaseInterval_def Let_def
    using Duration_Round_ge[of Second 5] by simp
qed

theorem GetBaseInterval_at_least_5s_witness:
  "5 * Second \<le> GetBaseInterval
     \<lparr>net_ParseIP = Some, net_ResolveTCPAddr = (\<lambda>a. None), f64_overflow = min_int64\<rparr> blank_service"
  by (rule GetBaseInterval_at_least_5s) simp

text \<open>
  Undoing the scaling: a service whose default interval was computed from a base of whole
  seconds, at least five, and was not capped at sixty seconds, is promoted onto exactly that base.
\<close>

theorem GetBaseInterval_inverts:
  assumes default: "svc_defaultInterval s = CalculateInterval env (svc_priority s) base"
    and base: "5 * Second \<le> base" "base mod Second = 0"
    and uncapped: "base * 3 ^ nat (svc_priority s - 1) \<le> 60 * Second"
  shows "GetBaseInterval env s = base"
proof -
  let ?k = "nat (svc_priority s - 1)"
  have "5 * Second * 3 ^ ?k \<le> base * 3 ^ ?k" using base by (intro mult_right_mono) auto
  then have "5 * Second * 3 ^ ?k \<le> 60 * Second" using uncapped by (rule order_trans)
  then have small: "(3 :: int) ^ ?k \<le> 12" by simp
  have k: "?k \<le> 2"
  proof (rule ccontr)
    assume "\<not> ?k \<le> 2"
    then have "(3 :: int) ^ 3 \<le> 3 ^ ?k" by (intro power_increasing) auto
    with small show False by simp
  qed
  then have p: "svc_priority s \<le> 34" by linarith
  have "base * 1 \<le> base * 3 ^ ?k" using base by (intro mult_left_mono) auto
  then have base_hi: "base \<le> 60 * Second" using uncapped by simp
  have def: "svc_defaultInterval s = base * 3 ^ ?k"
    using CalculateInterval_scales[of base "svc_priority s" env] base base_hi p uncapped default
    by simp
  have "f64_div (f64_of_int (svc_defaultInterval s)) (multiplier (svc_priority s)) =
        f64_round (of_int base)"
    using uncapped base by (simp add: def f64_of_int_exact multiplier_exact[OF p])
  also have "\<dots> = Fin (of_int base)" using base base_hi by (intro f64_round_exact) simp
  finally have "to_int64 (f64_overflow env)
      (f64_div (f64_of_int (svc_defaultInterval s)) (multiplier (svc_priority s))) = base"
    using base base_hi by (simp add: to_int64_of_int del: to_int64.simps)
  then show ?thesis
    using base by (simp add: GetBaseInterval_def Let_def Duration_Round_multiple)
qed

theorem GetBaseInterval_inverts_witness:
  "GetBaseInterval \<lparr>net_ParseIP = Some, net_ResolveTCPAddr = (\<lambda>a. None), f64_overflow = min_int64\<rparr>
     (blank_service\<lparr>svc_priority := 2, svc_defaultInterval := 15 * Second\<rparr>) = 5 * Second"
  by (rule GetBaseInterval_inverts) (simp_all add: CalculateInterval_scales blank_service_def)

section \<open>Health from check results\<close>

definition on_result :: "bool \<Rightarrow> Service \<Rightarrow> Service" where
  "on_result ok s = fst (if ok then OnSuccess s else OnFailure s)"

definition run_checks :: "bool list \<Rightarrow> Service \<Rightarrow> Service" where
  "run_checks rs s = fold on_result rs s"

text \<open>
  The intended meaning, on the history with the latest result first: the health is that of the most
  recent streak of \<open>T\<close> equal results, and a service that never had one is unhealthy.
\<close>

definition streak :: "bool \<Rightarrow> bool list \<Rightarrow> nat" where
  "streak b hist = length (takeWhile ((=) b) hist)"

fun verdict :: "nat \<Rightarrow> bool list \<Rightarrow> bool" where
  "verdict T [] = False"
| "verdict T (r # hist) = (if T \<le> streak r (r # hist) then r else verdict T hist)"

definition counter_inv :: "Service \<Rightarrow> bool" where
  "counter_inv s \<longleftrightarrow> 0 \<le> svc_failureCount s \<and> svc_failureCount s \<le> svc_FailureThreshold s"

lemma streak_simps [simp]:
  "streak b [] = 0" "streak b (r # hist) = (if r = b then Suc (streak b hist) else 0)"
  by (auto simp: streak_def)

lemma on_result_threshold [simp]:
  "svc_FailureThreshold (on_result ok s) = svc_FailureThreshold s"
  by (simp add: on_result_def OnSuccess_def OnFailure_def Let_def)

lemma on_result_frame [simp]:
  "svc_id (on_result ok s) = svc_id s" "svc_MemberOf (on_result ok s) = svc_MemberOf s"
  "svc_priority (on_result ok s) = svc_priority s"
  "svc_ScheduledInterval (on_result ok s) = svc_ScheduledInterval s"
  "svc_defaultInterval (on_result ok s) = svc_defaultInterval s"
  "svc_checker (on_result ok s) = svc_checker s" "svc_addr (on_result ok s) = svc_addr s"
  "svc_Datacenter (on_result ok s) = svc_Datacenter s"
  "svc_callbackSet (on_result ok s) = svc_callbackSet s"
  by (simp_all add: on_result_def OnSuccess_def OnFailure_def Let_def)

lemma on_result_counter_inv: "counter_inv s \<Longrightarrow> counter_inv (on_result ok s)"
  by (auto simp: counter_inv_def on_result_def OnSuccess_def OnFailure_def Let_def)

lemma run_checks_snoc [simp]: "run_checks (rs @ [r]) s = on_result r (run_checks rs s)"
  by (simp add: run_checks_def)

lemma run_checks_Nil [simp]: "run_checks [] s = s"
  by (simp add: run_checks_def)

text \<open>
  What the counter means along a run: while unhealthy it is the threshold minus the current streak
  of successes, while healthy it is the current streak of failures, and neither streak is complete.
\<close>

definition tracks :: "nat \<Rightarrow> bool list \<Rightarrow> Service \<Rightarrow> bool" where
  "tracks T hist s \<longleftrightarrow> svc_FailureThreshold s = int T \<and> svc_isHealthy s = verdict T hist \<and>
     (if svc_isHealthy s then svc_failureCount s = int (streak False hist) \<and> streak False hist < T
      else svc_failureCount s = int T - int (streak True hist) \<and> streak True hist < T)"

lemma tracks_step:
  assumes "tracks T hist s" "0 < T" shows "tracks T (r # hist) (on_result r s)"
  using assms
  by (cases r) (auto simp: tracks_def on_result_def OnSuccess_def OnFailure_def Let_def)

lemma tracks_run:
  assumes "tracks T [] s" "0 < T" shows "tracks T (rev rs) (run_checks rs s)"
  using assms by (induction rs rule: rev_induct) (simp_all add: tracks_step)

text \<open>
  C17. Hysteresis. A service built with failure threshold \<open>T \<ge> 1\<close> (unhealthy, counter full) is
  healthy after any sequence of check results exactly when the most recent streak of \<open>T\<close> equal
  results is one of successes: neither a single failure nor a single success flips it.
\<close>

theorem health_is_last_full_streak:
  assumes "\<not> svc_isHealthy s" "svc_failureCount s = int T" "svc_FailureThreshold s = int T" "0 < T"
  shows "svc_isHealthy (run_checks rs s) = verdict T (rev rs)"
proof -
  have "tracks T [] s" using assms by (simp add: tracks_def)
  then show ?thesis using tracks_run assms(4) by (simp add: tracks_def)
qed

theorem health_is_last_full_streak_witness:
  "svc_isHealthy (run_checks [True, True, False, True, True, True, False] blank_service)"
  by (subst health_is_last_full_streak[of _ 3]) (simp_all add: blank_service_def)

text \<open>
  The health-change callback is called by a check result exactly when the health differs
  afterwards, and with the new health.
\<close>

theorem callback_iff_health_flips:
  "snd (if ok then OnSuccess s else OnFailure s) =
     (if svc_isHealthy (on_result ok s) \<noteq> svc_isHealthy s
      then Some (svc_isHealthy (on_result ok s)) else None)"
  by (auto simp: on_result_def OnSuccess_def OnFailure_def Let_def)

lemma OnFailure_past_threshold:
  "svc_isHealthy s \<Longrightarrow> svc_FailureThreshold s < svc_failureCount s \<Longrightarrow> on_result False s = s"
  by (simp add: on_result_def OnFailure_def Let_def)

text \<open>
  Lowering the failure threshold below the running failure count of a healthy service makes
  failures ineffective: the counter is past the value the equality test waits for, so no number of
  further failures turns the service unhealthy.
\<close>

theorem lowered_threshold_masks_failures:
  assumes "svc_isHealthy s" "svc_FailureThreshold new < svc_failureCount s"
  shows "svc_isHealthy (run_checks (replicate n False) (Assign s new))"
proof -
  have "run_checks (replicate n False) (Assign s new) = Assign s new"
    using assms
    by (induction n)
      (simp_all add: run_checks_def OnFailure_past_threshold Assign_def)
  then show ?thesis using assms(1) by simp
qed

theorem lowered_threshold_masks_failures_witness:
  "svc_isHealthy (run_checks (replicate 100 False)
     (Assign (run_checks [True, True, True, False, False] blank_service)
             (blank_service\<lparr>svc_FailureThreshold := 1\<rparr>)))"
  by (rule lowered_threshold_masks_failures)
    (simp_all add: run_checks_def on_result_def OnSuccess_def OnFailure_def Let_def blank_service_def)

end
