(* ===== verification/ServiceGroup.thy ===== *)
theory ServiceGroup
  imports GoSlices Service
begin

text \<open>
  \<^verbatim>\<open>internal/manager/servicegroup.go\<close>: which member of a group is active. A service is a
  reference into a heap (\<open>sref\<close>), a nil pointer is \<open>None\<close>. The operations work on the group and
  on a world \<open>'w\<close> they read the heap from; \<^verbatim>\<open>OnPromotion\<close> is the parameter \<open>cb\<close>, a
  transformation of that world that is called where the code calls it. The group's mutex is the
  flag \<open>sg_mu\<close>: locking a mutex that an earlier call left locked blocks for ever (\<open>Deadlock\<close>).
  The callback of the code (\<^verbatim>\<open>handlePromotion\<close>) never touches a group.
\<close>

section \<open>State\<close>

type_synonym sref = nat

type_synonym services = "sref \<Rightarrow> Service"

datatype ServiceGroupMode = ActiveActive | ActivePassive | ActiveActiveRoundTrip

fun mode_String :: "ServiceGroupMode \<Rightarrow> string" where
  "mode_String ActiveActive = ''ActiveActive''"
| "mode_String ActivePassive = ''ActivePassive''"
| "mode_String ActiveActiveRoundTrip = ''ActiveActive''"

record PromotionEvent =
  pe_Service :: string
  pe_NewActive :: "sref option"
  pe_OldActive :: "sref option"

record ServiceGroup =
  sg_Name :: string
  sg_mode :: ServiceGroupMode
  sg_Members :: "sref list"
  sg_active :: "sref option"
  sg_lastActive :: "sref option"
  sg_prioritizedDatacenter :: string
  sg_mu :: bool

definition NewEmptyServiceGroup :: "string \<Rightarrow> ServiceGroup" where
  "NewEmptyServiceGroup name = \<lparr>sg_Name = name, sg_mode = ActiveActive, sg_Members = [],
     sg_active = None, sg_lastActive = None, sg_prioritizedDatacenter = [], sg_mu = False\<rparr>"

definition sg_lock :: "ServiceGroup \<Rightarrow> ServiceGroup res" where
  "sg_lock sg = (if sg_mu sg then Panic Deadlock else Ok (sg\<lparr>sg_mu := True\<rparr>))"

definition sg_unlock :: "ServiceGroup \<Rightarrow> ServiceGroup" where
  "sg_unlock sg = sg\<lparr>sg_mu := False\<rparr>"

text \<open>A read lock is always released by the operation that takes it, before any write lock.\<close>

definition sg_rlock :: "ServiceGroup \<Rightarrow> unit res" where
  "sg_rlock sg = (if sg_mu sg then Panic Deadlock else Ok ())"

definition deref :: "'a option \<Rightarrow> 'a res" where
  "deref p = (case p of None \<Rightarrow> Panic NilDeref | Some r \<Rightarrow> Ok r)"

section \<open>Operations\<close>

definition GetActive :: "services \<Rightarrow> ServiceGroup \<Rightarrow> sref option res" where
  "GetActive h sg =
     bind (sg_rlock sg) (\<lambda>_. Ok (
       case sg_mode sg of
         ActivePassive \<Rightarrow> sg_active sg
       | _ \<Rightarrow> (case find (\<lambda>svc. svc_isHealthy (h svc)) (sg_Members sg) of
                 Some svc \<Rightarrow> Some svc
               | None \<Rightarrow> sg_active sg)))"

definition firstHealthy :: "services \<Rightarrow> ServiceGroup \<Rightarrow> sref option res" where
  "firstHealthy h sg =
     bind (sg_rlock sg) (\<lambda>_. Ok (find (\<lambda>svc. svc_isHealthy (h svc)) (sg_Members sg)))"

abbreviation max_int :: int where
  "max_int \<equiv> 2 ^ 63 - 1"

fun best_loop :: "services \<Rightarrow> nat \<Rightarrow> sref list \<Rightarrow> nat option \<Rightarrow> int \<Rightarrow> nat option" where
  "best_loop h i [] bestIdx bestPriority = bestIdx"
| "best_loop h i (svc # svcs) bestIdx bestPriority =
     (if svc_isHealthy (h svc) \<and> svc_priority (h svc) < bestPriority
      then best_loop h (Suc i) svcs (Some i) (svc_priority (h svc))
      else best_loop h (Suc i) svcs bestIdx bestPriority)"

definition promoteNextHealthy :: "services \<Rightarrow> ServiceGroup \<Rightarrow> (PromotionEvent \<times> ServiceGroup) res" where
  "promoteNextHealthy h sg =
     bind (sg_lock sg) (\<lambda>sg.
       let oldActive = sg_active sg in
       case best_loop h 0 (sg_Members sg) None max_int of
         Some bestIdx \<Rightarrow>
           let sg = sg\<lparr>sg_active := Some (sg_Members sg ! bestIdx)\<rparr>
           in Ok (\<lparr>pe_Service = sg_Name sg, pe_NewActive = sg_active sg, pe_OldActive = oldActive\<rparr>,
                  sg_unlock sg)
       | None \<Rightarrow>
           Ok (\<lparr>pe_Service = sg_Name sg, pe_NewActive = None, pe_OldActive = oldActive\<rparr>,
               sg_unlock (sg\<lparr>sg_active := None\<rparr>)))"

definition triggerPromotion :: "services \<Rightarrow> ServiceGroup \<Rightarrow> sref \<Rightarrow> bool" where
  "triggerPromotion h sg svc =
     (if \<not> svc_isHealthy (h svc) then False
      else case sg_active sg of
             None \<Rightarrow> svc_isHealthy (h svc)
           | Some a \<Rightarrow> if \<not> svc_isHealthy (h a) then svc_isHealthy (h svc)
                       else svc_priority (h svc) \<le> svc_priority (h a))"

definition OnServiceHealthChange ::
  "('w \<Rightarrow> services) \<Rightarrow> (PromotionEvent \<Rightarrow> 'w \<Rightarrow> 'w res) \<Rightarrow> sref \<Rightarrow> bool \<Rightarrow> ServiceGroup \<Rightarrow> 'w \<Rightarrow>
   (ServiceGroup \<times> 'w) res" where
  "OnServiceHealthChange heap cb changedService healthy sg w =
     bind (sg_lock sg) (\<lambda>sg.
       let oldActive = (case sg_active sg of None \<Rightarrow> sg_lastActive sg | Some a \<Rightarrow> Some a) in
       case sg_mode sg of
         ActivePassive \<Rightarrow>
           bind (if healthy then Ok False
                 else bind (deref (sg_active sg)) (\<lambda>a. Ok (svc_id (heap w a) = svc_id (heap w changedService))))
             (\<lambda>down.
               if down then
                 let sg = sg_unlock (sg\<lparr>sg_lastActive := sg_active sg\<rparr>) in
                 bind (promoteNextHealthy (heap w) sg) (\<lambda>(event, sg).
                 bind (cb event w) (\<lambda>w. Ok (sg, w)))
               else if healthy \<and> triggerPromotion (heap w) sg changedService then
                 let event = \<lparr>pe_Service = sg_Name sg, pe_NewActive = Some changedService, pe_OldActive = oldActive\<rparr>;
                     sg = sg_unlock (sg\<lparr>sg_lastActive := sg_active sg, sg_active := Some changedService\<rparr>)
                 in bind (cb event w) (\<lambda>w. Ok (sg, w))
               else Ok (sg, w))
       | ActiveActive \<Rightarrow>
           if healthy then
             if svc_Datacenter (heap w changedService) = sg_prioritizedDatacenter sg \<and>
                Some changedService \<noteq> sg_active sg then
               let sg = sg_unlock sg in
               bind (cb \<lparr>pe_Service = sg_Name sg, pe_NewActive = Some changedService, pe_OldActive = sg_active sg\<rparr> w)
                 (\<lambda>w. Ok (sg\<lparr>sg_active := Some changedService\<rparr>, w))
             else if (case sg_active sg of None \<Rightarrow> True | Some a \<Rightarrow> \<not> svc_isHealthy (heap w a)) then
               let sg = sg_unlock sg in
               bind (cb \<lparr>pe_Service = sg_Name sg, pe_NewActive = Some changedService, pe_OldActive = sg_active sg\<rparr> w)
                 (\<lambda>w. Ok (sg\<lparr>sg_active := Some changedService\<rparr>, w))
             else Ok (sg, w)
           else
             bind (deref (sg_active sg)) (\<lambda>a.
               if svc_id (heap w changedService) = svc_id (heap w a) then
                 let sg = sg_unlock sg in
                 bind (firstHealthy (heap w) sg) (\<lambda>nxt.
                   case nxt of
                     Some n \<Rightarrow>
                       bind (cb \<lparr>pe_Service = sg_Name sg, pe_NewActive = Some n, pe_OldActive = sg_active sg\<rparr> w)
                         (\<lambda>w. Ok (sg\<lparr>sg_lastActive := sg_active sg, sg_active := Some n\<rparr>, w))
                   | None \<Rightarrow>
                       bind (cb \<lparr>pe_Service = sg_Name sg, pe_NewActive = None, pe_OldActive = sg_active sg\<rparr> w)
                         (\<lambda>w. Ok (sg\<lparr>sg_lastActive := sg_active sg, sg_active := None\<rparr>, w)))
               else Ok (sg, w))
       | ActiveActiveRoundTrip \<Rightarrow> Ok (sg, w))"

definition sortMembersFunc :: "Service \<Rightarrow> Service \<Rightarrow> int" where
  "sortMembersFunc a b =
     (let aPriority = svc_priority a; bPriority = svc_priority b in
      if aPriority \<noteq> bPriority then Compare aPriority bPriority
      else
        let aRoundtrip = GetAverageRoundtrip a; bRoundtrip = GetAverageRoundtrip b;
            aHasRoundtrip = aRoundtrip > 0; bHasRoundtrip = bRoundtrip > 0
        in if aHasRoundtrip \<and> bHasRoundtrip then Compare aRoundtrip bRoundtrip
           else if aHasRoundtrip \<and> \<not> bHasRoundtrip then -1
           else 1)"

definition SetGroupMode :: "services \<Rightarrow> ServiceGroup \<Rightarrow> ServiceGroup res" where
  "SetGroupMode h sg =
     bind (sg_rlock sg) (\<lambda>_.
       case sg_Members sg of
         [] \<Rightarrow> Ok (sg\<lparr>sg_mode := ActiveActive\<rparr>)
       | [m] \<Rightarrow> Ok (sg\<lparr>sg_mode := ActiveActive, sg_active := (if svc_isHealthy (h m) then Some m else None)\<rparr>)
       | m # ms \<Rightarrow>
           let allSamePriority = list_all (\<lambda>svc. svc_priority (h svc) = svc_priority (h m)) ms in
           bind (sg_lock sg) (\<lambda>sg. Ok (sg_unlock (
             case sg_mode sg of
               ActiveActive \<Rightarrow> if \<not> allSamePriority then sg\<lparr>sg_mode := ActivePassive\<rparr> else sg
             | ActivePassive \<Rightarrow> if allSamePriority then sg\<lparr>sg_mode := ActiveActive\<rparr> else sg
             | ActiveActiveRoundTrip \<Rightarrow> sg\<lparr>sg_mode := ActiveActive\<rparr>))))"

definition memberExists :: "ServiceGroup \<Rightarrow> sref \<Rightarrow> bool res" where
  "memberExists sg member = bind (sg_rlock sg) (\<lambda>_. Ok (member \<in> set (sg_Members sg)))"

text \<open>\<^verbatim>\<open>Update\<close> calls \<^verbatim>\<open>OnPromotion\<close> with the group's mutex held.\<close>

definition group_Update ::
  "('w \<Rightarrow> services) \<Rightarrow> (PromotionEvent \<Rightarrow> 'w \<Rightarrow> 'w res) \<Rightarrow> ServiceGroup \<Rightarrow> 'w \<Rightarrow>
   (ServiceGroup \<times> 'w) res" where
  "group_Update heap cb sg w =
     bind (sg_rlock sg) (\<lambda>_.
       if sg_Members sg = [] then Ok (sg, w)
       else
         bind (sg_lock sg) (\<lambda>sg.
         let sg = sg_unlock (sg\<lparr>sg_Members :=
               SortFunc (\<lambda>a b. sortMembersFunc (heap w a) (heap w b)) (sg_Members sg)\<rparr>) in
         bind (SetGroupMode (heap w) sg) (\<lambda>sg.
         bind (firstHealthy (heap w) sg) (\<lambda>first.
           if first \<noteq> sg_active sg then
             bind (sg_lock sg) (\<lambda>sg.
               let sg = sg\<lparr>sg_lastActive := sg_active sg, sg_active := first\<rparr>;
                   event = \<lparr>pe_Service = sg_Name sg, pe_NewActive = sg_active sg, pe_OldActive = sg_lastActive sg\<rparr>
               in bind (cb event w) (\<lambda>w. Ok (sg_unlock sg, w)))
           else Ok (sg, w)))))"

definition group_RegisterService ::
  "('w \<Rightarrow> services) \<Rightarrow> (PromotionEvent \<Rightarrow> 'w \<Rightarrow> 'w res) \<Rightarrow> sref option \<Rightarrow> ServiceGroup \<Rightarrow> 'w \<Rightarrow>
   (ServiceGroup \<times> 'w) res" where
  "group_RegisterService heap cb newService sg w =
     (case newService of
        None \<Rightarrow> Ok (sg, w)
      | Some svc \<Rightarrow>
          bind (memberExists sg svc) (\<lambda>exists.
            if exists then Ok (sg, w)
            else
              bind (sg_lock sg) (\<lambda>sg.
                group_Update heap cb (sg_unlock (sg\<lparr>sg_Members := sg_Members sg @ [svc]\<rparr>)) w)))"

definition group_RemoveService ::
  "('w \<Rightarrow> services) \<Rightarrow> (PromotionEvent \<Rightarrow> 'w \<Rightarrow> 'w res) \<Rightarrow> string \<Rightarrow> ServiceGroup \<Rightarrow> 'w \<Rightarrow>
   (bool \<times> ServiceGroup \<times> 'w) res" where
  "group_RemoveService heap cb sid sg w =
     bind (sg_lock sg) (\<lambda>sg.
       let members = sg_Members sg; sg = sg_unlock sg in
       bind (case IndexFunc (\<lambda>s. svc_id (heap w s) = sid) members of
               None \<Rightarrow> Ok (sg, w)
             | Some idx \<Rightarrow>
                 bind (sg_lock sg) (\<lambda>sg.
                   group_Update heap cb
                     (sg_unlock (sg\<lparr>sg_Members := take idx members @ drop (Suc idx) members\<rparr>)) w))
         (\<lambda>(sg, w). Ok (sg_Members sg = [], sg, w)))"

text \<open>\<^verbatim>\<open>Failover\<close> is a stub of the code: it logs and returns nil.\<close>

definition group_Failover :: "string \<Rightarrow> string \<Rightarrow> ServiceGroup \<Rightarrow> string option \<times> ServiceGroup" where
  "group_Failover fqdn datacenter sg = (None, sg)"

end
