(* ===== verification/GroupActive.thy ===== *)
theory GroupActive
  imports ServiceGroup
begin

text \<open>
  What a service group promises: its active member is a healthy member with the lowest priority
  number, and there is none only while every member is down (\<open>serves\<close>). The lemmas hold for every
  callback that leaves health, priority and identity of the services alone (locale
  \<open>promotion_callback\<close>); the reachable states of a group are the inductive predicate
  \<open>group_reach\<close>, with a callback that records the promotion events.
\<close>

section \<open>Order of the members\<close>

lemma sortMembersFunc_less:
  "sortMembersFunc a b < 0 \<longleftrightarrow> svc_priority a < svc_priority b \<or>
     svc_priority a = svc_priority b \<and> GetAverageRoundtrip a > 0 \<and>
     (GetAverageRoundtrip b > 0 \<longrightarrow> GetAverageRoundtrip a < GetAverageRoundtrip b)"
  by (auto simp: sortMembersFunc_def Let_def)

interpretation members_order: strict_weak_cmp "\<lambda>a b. sortMembersFunc (h a) (h b)" for h
  by unfold_locales (auto simp: sortMembersFunc_less)

definition sort_members :: "services \<Rightarrow> sref list \<Rightarrow> sref list" where
  "sort_members h ms = SortFunc (\<lambda>a b. sortMembersFunc (h a) (h b)) ms"

definition healthy_in :: "services \<Rightarrow> sref \<Rightarrow> bool" where
  "healthy_in h r = svc_isHealthy (h r)"

lemma set_sort_members [simp]: "set (sort_members h ms) = set ms"
  "mset (sort_members h ms) = mset ms" "sort_members h ms = [] \<longleftrightarrow> ms = []"
  "length (sort_members h ms) = length ms"
  by (simp_all add: sort_members_def)

lemma sort_members_priority:
  "sorted (map (\<lambda>r. svc_priority (h r)) (sort_members h ms))"
proof -
  have "sorted_wrt (\<lambda>a b. \<not> sortMembersFunc (h b) (h a) < 0) (sort_members h ms)"
    using members_order.SortFunc_ordered[of h ms] by (simp add: ordered_by_def sort_members_def)
  then show ?thesis
    unfolding sorted_map
    by (rule sorted_wrt_mono_rel[rotated]) (auto simp: sortMembersFunc_less)
qed

section \<open>The specification\<close>

definition serves :: "services \<Rightarrow> sref list \<Rightarrow> sref option \<Rightarrow> bool" where
  "serves h ms act \<longleftrightarrow> (case act of
     None \<Rightarrow> \<forall>m \<in> set ms. \<not> svc_isHealthy (h m)
   | Some a \<Rightarrow> a \<in> set ms \<and> svc_isHealthy (h a) \<and>
       (\<forall>m \<in> set ms. svc_isHealthy (h m) \<longrightarrow> svc_priority (h a) \<le> svc_priority (h m)))"

lemma serves_None: "serves h ms None \<longleftrightarrow> (\<forall>m \<in> set ms. \<not> svc_isHealthy (h m))"
  by (simp add: serves_def)

lemma serves_Some: "serves h ms (Some a) \<longleftrightarrow> a \<in> set ms \<and> svc_isHealthy (h a) \<and>
    (\<forall>m \<in> set ms. svc_isHealthy (h m) \<longrightarrow> svc_priority (h a) \<le> svc_priority (h m))"
  by (simp add: serves_def)

definition same_priority :: "services \<Rightarrow> sref list \<Rightarrow> bool" where
  "same_priority h ms \<longleftrightarrow> (\<forall>a \<in> set ms. \<forall>b \<in> set ms. svc_priority (h a) = svc_priority (h b))"

definition members_ok :: "services \<Rightarrow> sref list \<Rightarrow> bool" where
  "members_ok h ms \<longleftrightarrow> distinct (map (\<lambda>r. svc_id (h r)) ms) \<and> (\<forall>m \<in> set ms. svc_priority (h m) < max_int)"

definition group_inv :: "services \<Rightarrow> ServiceGroup \<Rightarrow> bool" where
  "group_inv h sg \<longleftrightarrow> \<not> sg_mu sg \<and> members_ok h (sg_Members sg) \<and> sg_mode sg \<noteq> ActiveActiveRoundTrip \<and>
     (sg_Members sg \<noteq> [] \<longrightarrow> serves h (sg_Members sg) (sg_active sg) \<and>
        (sg_mode sg = ActiveActive \<longleftrightarrow> same_priority h (sg_Members sg)))"

definition same_health :: "services \<Rightarrow> services \<Rightarrow> bool" where
  "same_health h h' \<longleftrightarrow> (\<forall>r. svc_isHealthy (h' r) = svc_isHealthy (h r) \<and>
     svc_priority (h' r) = svc_priority (h r) \<and> svc_id (h' r) = svc_id (h r) \<and>
     svc_Datacenter (h' r) = svc_Datacenter (h r) \<and>
     GetAverageRoundtrip (h' r) = GetAverageRoundtrip (h r))"

lemma same_health_refl [simp]: "same_health h h"
  by (simp add: same_health_def)

lemma same_health_cong:
  assumes "same_health h h'"
  shows "serves h' ms act = serves h ms act" "same_priority h' ms = same_priority h ms"
    "members_ok h' ms = members_ok h ms" "group_inv h' sg = group_inv h sg"
proof -
  show "serves h' ms act = serves h ms act" for ms act
    using assms by (cases act) (simp_all add: same_health_def serves_None serves_Some)
  then show "same_priority h' ms = same_priority h ms" "members_ok h' ms = members_ok h ms"
    "group_inv h' sg = group_inv h sg"
    using assms
    by (simp_all add: same_health_def same_priority_def members_ok_def group_inv_def)
qed

lemma group_invD:
  assumes "group_inv h sg"
  shows "\<not> sg_mu sg" "members_ok h (sg_Members sg)"
    "sg_Members sg \<noteq> [] \<Longrightarrow> serves h (sg_Members sg) (sg_active sg)"
    "sg_Members sg \<noteq> [] \<Longrightarrow> sg_mode sg = ActiveActive \<longleftrightarrow> same_priority h (sg_Members sg)"
    "sg_mode sg = ActiveActive \<or> sg_mode sg = ActivePassive"
  using assms by (auto simp: group_inv_def intro: ServiceGroupMode.exhaust[of "sg_mode sg"])

lemma members_ok_mset:
  "mset ms = mset ms' \<Longrightarrow> members_ok h ms \<longleftrightarrow> members_ok h ms'"
  unfolding members_ok_def
  by (metis mset_map mset_eq_imp_distinct_iff set_mset_mset)

lemma members_ok_Cons: "members_ok h (m # ms) \<longleftrightarrow>
    svc_id (h m) \<notin> (\<lambda>r. svc_id (h r)) ` set ms \<and> svc_priority (h m) < max_int \<and> members_ok h ms"
  by (auto simp: members_ok_def)

lemma members_ok_inj:
  "members_ok h ms \<Longrightarrow> a \<in> set ms \<Longrightarrow> b \<in> set ms \<Longrightarrow> svc_id (h a) = svc_id (h b) \<Longrightarrow> a = b"
  by (auto simp: members_ok_def distinct_map inj_on_def)

lemma remove_nth_mset:
  assumes "i < length xs" shows "mset xs = mset (xs ! i # take i xs @ drop (Suc i) xs)"
proof -
  have "mset xs = mset (take i xs @ xs ! i # drop (Suc i) xs)"
    using id_take_nth_drop[OF assms] by simp
  then show ?thesis by simp
qed

lemma serves_find_sorted:
  assumes "sorted (map (\<lambda>r. svc_priority (h r)) ms)"
  shows "serves h ms (find (\<lambda>r. svc_isHealthy (h r)) ms)"
  using assms
proof (induction ms)
  case Nil
  then show ?case by (simp add: serves_def)
next
  case (Cons m ms)
  then show ?case by (cases "svc_isHealthy (h m)") (auto simp: serves_def split: option.splits)
qed

lemma serves_same_priority:
  "same_priority h ms \<Longrightarrow> a \<in> set ms \<Longrightarrow> svc_isHealthy (h a) \<Longrightarrow> serves h ms (Some a)"
  unfolding serves_Some same_priority_def by (metis order_refl)

lemma serves_find_same:
  assumes "same_priority h ms"
  shows "serves h ms (find (\<lambda>r. svc_isHealthy (h r)) ms)"
proof (cases "find (\<lambda>r. svc_isHealthy (h r)) ms")
  case None
  then show ?thesis by (simp add: serves_None) (simp add: find_None_iff)
next
  case (Some a)
  then have "a \<in> set ms" "svc_isHealthy (h a)" by (auto simp: find_Some_iff)
  then show ?thesis unfolding Some by (rule serves_same_priority[OF assms])
qed

text \<open>\<^verbatim>\<open>promoteNextHealthy\<close> picks the first healthy member of least priority.\<close>

lemma best_loop_inv:
  assumes "best = None \<longrightarrow> bestP = max_int"
    and "\<And>i. best = Some i \<Longrightarrow> i < length done_ms \<and> svc_isHealthy (h (done_ms ! i)) \<and>
           svc_priority (h (done_ms ! i)) = bestP \<and> bestP < max_int"
    and "\<forall>m \<in> set done_ms. svc_isHealthy (h m) \<longrightarrow> bestP \<le> svc_priority (h m)"
    and "\<forall>m \<in> set ms. svc_priority (h m) < max_int"
    and "best = None \<longrightarrow> (\<forall>m \<in> set done_ms. \<not> svc_isHealthy (h m))"
  shows "serves h (done_ms @ ms) (map_option ((!) (done_ms @ ms))
           (best_loop h (length done_ms) ms best bestP))"
  using assms
proof (induction ms arbitrary: done_ms best bestP)
  case Nil
  then show ?case by (cases best) (auto simp: serves_def)
next
  case (Cons m ms)
  let ?P = "svc_isHealthy (h m) \<and> svc_priority (h m) < bestP"
  have "serves h ((done_ms @ [m]) @ ms) (map_option ((!) ((done_ms @ [m]) @ ms))
      (best_loop h (length (done_ms @ [m])) ms (if ?P then Some (length done_ms) else best)
        (if ?P then svc_priority (h m) else bestP)))"
  proof (rule Cons.IH, goal_cases)
    case 1
    then show ?case using Cons.prems(1) by simp
  next
    case (2 i)
    then show ?case using Cons.prems(2,4) by (fastforce simp: nth_append split: if_splits)
  next
    case 3
    then show ?case using Cons.prems(3) by fastforce
  next
    case 4
    then show ?case using Cons.prems(4) by simp
  next
    case 5
    then show ?case using Cons.prems(1,4,5) by auto
  qed
  then show ?case by (simp split: if_splits) blast
qed

lemma best_loop_serves:
  assumes "members_ok h ms"
  shows "serves h ms (map_option ((!) ms) (best_loop h 0 ms None max_int))"
  using best_loop_inv[of None max_int "[]" h ms] assms by (auto simp: members_ok_def)

lemma promoteNextHealthy_eq:
  assumes "\<not> sg_mu sg"
  shows "promoteNextHealthy h sg =
    (let act = map_option ((!) (sg_Members sg)) (best_loop h 0 (sg_Members sg) None max_int)
     in Ok (\<lparr>pe_Service = sg_Name sg, pe_NewActive = act, pe_OldActive = sg_active sg\<rparr>,
            sg\<lparr>sg_active := act\<rparr>))"
  using assms
  by (auto simp: promoteNextHealthy_def sg_lock_def sg_unlock_def Let_def split: option.splits)

section \<open>The operations in closed form\<close>

definition first_healthy :: "services \<Rightarrow> sref list \<Rightarrow> sref option" where
  "first_healthy h ms = find (\<lambda>r. svc_isHealthy (h r)) ms"

definition mode_for :: "services \<Rightarrow> sref list \<Rightarrow> ServiceGroupMode" where
  "mode_for h ms = (if same_priority h ms then ActiveActive else ActivePassive)"

lemma same_priority_Cons:
  "same_priority h (m # ms) \<longleftrightarrow> list_all (\<lambda>r. svc_priority (h r) = svc_priority (h m)) ms"
  by (auto simp: same_priority_def list_all_iff)

lemma same_priority_set: "set ms = set ms' \<Longrightarrow> same_priority h ms = same_priority h ms'"
  by (simp add: same_priority_def)

lemma SetGroupMode_eq:
  assumes "\<not> sg_mu sg" "sg_mode sg \<noteq> ActiveActiveRoundTrip" "sg_Members sg \<noteq> []"
  shows "SetGroupMode h sg = Ok (sg\<lparr>sg_mode := mode_for h (sg_Members sg),
    sg_active := (if length (sg_Members sg) = 1 then first_healthy h (sg_Members sg) else sg_active sg)\<rparr>)"
proof (cases "sg_Members sg")
  case (Cons m ms)
  then show ?thesis
    using assms
    by (cases ms; cases "sg_mode sg")
      (auto simp: SetGroupMode_def sg_rlock_def sg_lock_def sg_unlock_def mode_for_def
        first_healthy_def same_priority_Cons)
qed (use assms in simp)

lemma firstHealthy_eq: "\<not> sg_mu sg \<Longrightarrow> firstHealthy h sg = Ok (first_healthy h (sg_Members sg))"
  by (simp add: firstHealthy_def sg_rlock_def first_healthy_def)

text \<open>The event of an \<^verbatim>\<open>Update\<close>, if there is one.\<close>

definition update_event :: "services \<Rightarrow> ServiceGroup \<Rightarrow> PromotionEvent option" where
  "update_event h sg =
     (let first = first_healthy h (sort_members h (sg_Members sg))
      in if length (sg_Members sg) = 1 \<or> first = sg_active sg then None
         else Some \<lparr>pe_Service = sg_Name sg, pe_NewActive = first, pe_OldActive = sg_active sg\<rparr>)"

definition updated_group :: "services \<Rightarrow> ServiceGroup \<Rightarrow> ServiceGroup" where
  "updated_group h sg =
     (let ms = sort_members h (sg_Members sg)
      in sg\<lparr>sg_Members := ms, sg_mode := mode_for h ms, sg_active := first_healthy h ms,
            sg_lastActive := (if update_event h sg = None then sg_lastActive sg else sg_active sg)\<rparr>)"

definition fire :: "(PromotionEvent \<Rightarrow> 'w \<Rightarrow> 'w res) \<Rightarrow> PromotionEvent option \<Rightarrow> 'w \<Rightarrow> 'w res" where
  "fire cb ev w = (case ev of None \<Rightarrow> Ok w | Some e \<Rightarrow> cb e w)"

lemma group_Update_eq:
  assumes "\<not> sg_mu sg" "sg_mode sg \<noteq> ActiveActiveRoundTrip" "sg_Members sg \<noteq> []"
  shows "group_Update heap cb sg w =
    bind (fire cb (update_event (heap w) sg) w) (\<lambda>w'. Ok (updated_group (heap w) sg, w'))"
proof -
  let ?ms = "sort_members (heap w) (sg_Members sg)"
  have mode: "SetGroupMode (heap w) (sg\<lparr>sg_Members := ?ms, sg_mu := False\<rparr>) =
    Ok (sg\<lparr>sg_Members := ?ms, sg_mu := False, sg_mode := mode_for (heap w) ?ms,
      sg_active := (if length (sg_Members sg) = 1 then first_healthy (heap w) ?ms else sg_active sg)\<rparr>)"
    using assms by (subst SetGroupMode_eq) simp_all
  show ?thesis
    using assms mode
    by (cases sg)
      (simp add: group_Update_def sg_unlock_def sort_members_def[symmetric] firstHealthy_def
        sg_rlock_def sg_lock_def first_healthy_def[symmetric] update_event_def updated_group_def
        fire_def Let_def)
qed

lemma group_RemoveService_eq:
  assumes "\<not> sg_mu sg"
  shows "group_RemoveService heap cb sid sg w =
    (case IndexFunc (\<lambda>s. svc_id (heap w s) = sid) (sg_Members sg) of
       None \<Rightarrow> Ok (sg_Members sg = [], sg, w)
     | Some i \<Rightarrow>
         bind (group_Update heap cb
             (sg\<lparr>sg_Members := take i (sg_Members sg) @ drop (Suc i) (sg_Members sg)\<rparr>) w)
           (\<lambda>(sg, w). Ok (sg_Members sg = [], sg, w)))"
  using assms
  by (cases sg) (simp add: group_RemoveService_def sg_lock_def sg_unlock_def Let_def split: option.splits)

lemma group_RegisterService_eq:
  assumes "\<not> sg_mu sg"
  shows "group_RegisterService heap cb (Some r) sg w =
    (if r \<in> set (sg_Members sg) then Ok (sg, w)
     else group_Update heap cb (sg\<lparr>sg_Members := sg_Members sg @ [r]\<rparr>) w)"
  using assms
  by (cases sg) (simp add: group_RegisterService_def memberExists_def sg_rlock_def sg_lock_def sg_unlock_def)

lemma group_Update_empty:
  "\<not> sg_mu sg \<Longrightarrow> sg_Members sg = [] \<Longrightarrow> group_Update heap cb sg w = Ok (sg, w)"
  by (simp add: group_Update_def sg_rlock_def)

lemma updated_group_inv:
  assumes "\<not> sg_mu sg" "members_ok h (sg_Members sg)"
  shows "group_inv h (updated_group h sg)"
proof -
  have "members_ok h (sort_members h (sg_Members sg))"
    using assms(2) members_ok_mset[of "sort_members h (sg_Members sg)" "sg_Members sg"] by simp
  then show ?thesis
    using assms serves_find_sorted[OF sort_members_priority[of h "sg_Members sg"]]
    by (simp add: group_inv_def updated_group_def Let_def mode_for_def first_healthy_def)
qed

section \<open>Health changes\<close>

definition set_health :: "sref \<Rightarrow> bool \<Rightarrow> services \<Rightarrow> services" where
  "set_health r b h = h(r := (h r)\<lparr>svc_isHealthy := b\<rparr>)"

lemma set_health_simps [simp]:
  "svc_isHealthy (set_health r b h m) = (if m = r then b else svc_isHealthy (h m))"
  "svc_priority (set_health r b h m) = svc_priority (h m)"
  "svc_id (set_health r b h m) = svc_id (h m)"
  "svc_Datacenter (set_health r b h m) = svc_Datacenter (h m)"
  by (simp_all add: set_health_def)

lemma same_priority_set_health [simp]: "same_priority (set_health r b h) ms = same_priority h ms"
  by (simp add: same_priority_def)

lemma members_ok_set_health [simp]: "members_ok (set_health r b h) ms = members_ok h ms"
  by (simp add: members_ok_def)

text \<open>A member coming up takes the role over only where the promise allows it.\<close>

lemma serves_up_None:
  "serves h ms None \<Longrightarrow> r \<in> set ms \<Longrightarrow> serves (set_health r True h) ms (Some r)"
  by (auto simp: serves_Some serves_None)

lemma serves_up_better:
  assumes "serves h ms (Some a)" "r \<in> set ms" "svc_priority (h r) \<le> svc_priority (h a)"
  shows "serves (set_health r True h) ms (Some r)"
  using assms by (fastforce simp: serves_Some)

lemma serves_id_eq:
  assumes "members_ok h ms" "serves h ms (Some a)" "r \<in> set ms"
  shows "svc_id (h r) = svc_id (h a) \<longleftrightarrow> r = a" "svc_id (h a) = svc_id (h r) \<longleftrightarrow> r = a"
  using assms members_ok_inj[OF assms(1)] by (auto simp: serves_Some)

lemma serves_Some_healthy: "serves h ms (Some a) \<Longrightarrow> a \<in> set ms \<and> svc_isHealthy (h a)"
  by (simp add: serves_Some)

lemma serves_down: "serves h ms act \<Longrightarrow> r \<in> set ms \<Longrightarrow> svc_isHealthy (h r) \<Longrightarrow> act \<noteq> None"
  by (metis serves_None)

lemma first_healthy_down: "first_healthy (set_health r False h) ms \<noteq> Some r"
  by (auto simp: first_healthy_def find_Some_iff)

text \<open>
  The two outcomes of a health change: the active member changes, the event is fired and the mutex
  is free; or the active member stays, and the call returns with the mutex locked.
\<close>

definition switches ::
  "('w \<Rightarrow> services) \<Rightarrow> (PromotionEvent \<Rightarrow> 'w \<Rightarrow> 'w res) \<Rightarrow> sref option \<Rightarrow> ServiceGroup \<Rightarrow> 'w \<Rightarrow>
   (ServiceGroup \<times> 'w) res \<Rightarrow> bool" where
  "switches heap cb act sg w result \<longleftrightarrow> (\<exists>old last.
     result = bind (cb \<lparr>pe_Service = sg_Name sg, pe_NewActive = act, pe_OldActive = old\<rparr> w)
       (\<lambda>w'. Ok (sg\<lparr>sg_lastActive := last, sg_active := act\<rparr>, w')) \<and>
     act \<noteq> sg_active sg \<and> serves (heap w) (sg_Members sg) act \<and>
     (sg_active sg \<noteq> None \<longrightarrow> old = sg_active sg))"

lemma sg_relock: "\<not> sg_mu sg \<Longrightarrow> sg\<lparr>sg_mu := False\<rparr> = sg"
  by (cases sg) simp

lemma switchesI:
  assumes "act \<noteq> sg_active sg" "serves (heap w) (sg_Members sg) act"
    and "sg_active sg \<noteq> None \<Longrightarrow> old = sg_active sg"
    and "result = bind (cb \<lparr>pe_Service = sg_Name sg, pe_NewActive = act, pe_OldActive = old\<rparr> w)
       (\<lambda>w'. Ok (sg\<lparr>sg_lastActive := prev, sg_active := act\<rparr>, w'))"
  shows "switches heap cb act sg w result"
  using assms unfolding switches_def by blast

lemma up_ActiveActive:
  assumes "group_inv h sg" "r \<in> set (sg_Members sg)" "\<not> svc_isHealthy (h r)"
    "heap w = set_health r True h" "sg_mode sg = ActiveActive"
  shows "switches heap cb (Some r) sg w (OnServiceHealthChange heap cb r True sg w) \<or>
         OnServiceHealthChange heap cb r True sg w = Ok (sg\<lparr>sg_mu := True\<rparr>, w)"
proof -
  have ne: "sg_Members sg \<noteq> []" using assms(2) by auto
  note inv = group_invD[OF assms(1)]
  have "serves (set_health r True h) (sg_Members sg) (Some r)"
    using inv(4)[OF ne] assms(2,5) by (intro serves_same_priority) simp_all
  moreover have "sg_active sg \<noteq> Some r"
    using inv(3)[OF ne] assms(3) by (auto simp: serves_Some)
  moreover have "OnServiceHealthChange heap cb r True sg w =
      bind (cb \<lparr>pe_Service = sg_Name sg, pe_NewActive = Some r, pe_OldActive = sg_active sg\<rparr> w)
        (\<lambda>w'. Ok (sg\<lparr>sg_lastActive := sg_lastActive sg, sg_active := Some r\<rparr>, w')) \<or>
      OnServiceHealthChange heap cb r True sg w = Ok (sg\<lparr>sg_mu := True\<rparr>, w)"
    using assms(5) inv(1)
    by (cases sg) (simp add: OnServiceHealthChange_def sg_lock_def sg_unlock_def Let_def)
  ultimately show ?thesis
    using switchesI[where old = "sg_active sg" and heap = heap] assms(4) by metis
qed

lemma down_ActiveActive:
  assumes "group_inv h sg" "r \<in> set (sg_Members sg)" "svc_isHealthy (h r)"
    "heap w = set_health r False h" "sg_mode sg = ActiveActive"
  shows "if sg_active sg = Some r
    then switches heap cb (first_healthy (heap w) (sg_Members sg)) sg w (OnServiceHealthChange heap cb r False sg w)
    else OnServiceHealthChange heap cb r False sg w = Ok (sg\<lparr>sg_mu := True\<rparr>, w)"
proof -
  have ne: "sg_Members sg \<noteq> []" using assms(2) by auto
  note inv = group_invD[OF assms(1)]
  obtain a where a: "sg_active sg = Some a"
    using serves_down[OF inv(3)[OF ne] assms(2,3)] by auto
  have id_eq: "svc_id (h r) = svc_id (h a) \<longleftrightarrow> r = a"
    using serves_id_eq[OF inv(2) _ assms(2)] inv(3)[OF ne] a by simp
  show ?thesis
  proof (cases "r = a")
    case True
    let ?n = "first_healthy (heap w) (sg_Members sg)"
    have "OnServiceHealthChange heap cb r False sg w =
      bind (cb \<lparr>pe_Service = sg_Name sg, pe_NewActive = ?n, pe_OldActive = sg_active sg\<rparr> w)
        (\<lambda>w'. Ok (sg\<lparr>sg_lastActive := sg_active sg, sg_active := ?n\<rparr>, w'))"
      using assms(5) inv(1) a True
      by (cases sg, cases ?n)
        (simp_all add: OnServiceHealthChange_def sg_lock_def sg_unlock_def Let_def deref_def
          firstHealthy_eq)
    moreover have "serves (heap w) (sg_Members sg) ?n"
      unfolding first_healthy_def using inv(4)[OF ne] assms(4,5) by (intro serves_find_same) simp
    moreover have "?n \<noteq> sg_active sg"
      unfolding assms(4) using first_healthy_down a True by simp
    ultimately show ?thesis using a True by (auto intro: switchesI)
  next
    case False
    then show ?thesis
      using assms(4,5) inv(1) a id_eq
      by (cases sg) (simp add: OnServiceHealthChange_def sg_lock_def sg_unlock_def Let_def deref_def)
  qed
qed

lemma up_ActivePassive:
  assumes "group_inv h sg" "r \<in> set (sg_Members sg)" "\<not> svc_isHealthy (h r)"
    "heap w = set_health r True h" "sg_mode sg = ActivePassive"
  shows "if triggerPromotion (heap w) sg r
    then switches heap cb (Some r) sg w (OnServiceHealthChange heap cb r True sg w)
    else OnServiceHealthChange heap cb r True sg w = Ok (sg\<lparr>sg_mu := True\<rparr>, w)"
proof -
  have ne: "sg_Members sg \<noteq> []" using assms(2) by auto
  note inv = group_invD[OF assms(1)]
  have neq: "sg_active sg \<noteq> Some r"
    using inv(3)[OF ne] assms(3) by (auto simp: serves_Some)
  show ?thesis
  proof (cases "triggerPromotion (heap w) sg r")
    case True
    let ?old = "case sg_active sg of None \<Rightarrow> sg_lastActive sg | Some a \<Rightarrow> Some a"
    have "OnServiceHealthChange heap cb r True sg w =
      bind (cb \<lparr>pe_Service = sg_Name sg, pe_NewActive = Some r, pe_OldActive = ?old\<rparr> w)
        (\<lambda>w'. Ok (sg\<lparr>sg_lastActive := sg_active sg, sg_active := Some r\<rparr>, w'))"
      using assms(5) inv(1) True
      by (cases sg; cases "sg_active sg")
        (auto simp: OnServiceHealthChange_def sg_lock_def sg_unlock_def triggerPromotion_def Let_def
          split: if_splits)
    moreover have "serves (heap w) (sg_Members sg) (Some r)"
    proof (cases "sg_active sg")
      case None
      then show ?thesis using serves_up_None[OF _ assms(2)] inv(3)[OF ne] assms(4) by simp
    next
      case (Some a)
      then have s: "serves h (sg_Members sg) (Some a)" using inv(3)[OF ne] by simp
      then have "svc_priority (h r) \<le> svc_priority (h a)"
        using True Some assms(4) by (auto simp: triggerPromotion_def serves_Some split: if_splits)
      then show ?thesis using serves_up_better[OF s assms(2)] assms(4) by simp
    qed
    ultimately show ?thesis using True neq by (auto intro!: switchesI split: option.splits)
  next
    case False
    then show ?thesis
      using assms(5) inv(1)
      by (cases sg; cases "sg_active sg")
        (auto simp: OnServiceHealthChange_def sg_lock_def triggerPromotion_def Let_def split: if_splits)
  qed
qed

lemma down_ActivePassive:
  assumes "group_inv h sg" "r \<in> set (sg_Members sg)" "svc_isHealthy (h r)"
    "heap w = set_health r False h" "sg_mode sg = ActivePassive"
  shows "if sg_active sg = Some r
    then \<exists>act. switches heap cb act sg w (OnServiceHealthChange heap cb r False sg w)
    else OnServiceHealthChange heap cb r False sg w = Ok (sg\<lparr>sg_mu := True\<rparr>, w)"
proof -
  have ne: "sg_Members sg \<noteq> []" using assms(2) by auto
  note inv = group_invD[OF assms(1)]
  obtain a where a: "sg_active sg = Some a"
    using serves_down[OF inv(3)[OF ne] assms(2,3)] by auto
  have id_eq: "svc_id (h a) = svc_id (h r) \<longleftrightarrow> r = a"
    using serves_id_eq[OF inv(2) _ assms(2)] inv(3)[OF ne] a by simp
  show ?thesis
  proof (cases "r = a")
    case True
    let ?n = "map_option ((!) (sg_Members sg)) (best_loop (heap w) 0 (sg_Members sg) None max_int)"
    have "promoteNextHealthy (heap w) (sg\<lparr>sg_mu := False, sg_lastActive := sg_active sg\<rparr>) =
      Ok (\<lparr>pe_Service = sg_Name sg, pe_NewActive = ?n, pe_OldActive = sg_active sg\<rparr>,
          sg\<lparr>sg_mu := False, sg_lastActive := sg_active sg, sg_active := ?n\<rparr>)"
      by (subst promoteNextHealthy_eq) (simp_all add: Let_def)
    then have "OnServiceHealthChange heap cb r False sg w =
      bind (cb \<lparr>pe_Service = sg_Name sg, pe_NewActive = ?n, pe_OldActive = sg_active sg\<rparr> w)
        (\<lambda>w'. Ok (sg\<lparr>sg_lastActive := sg_active sg, sg_active := ?n\<rparr>, w'))"
      using assms(5) inv(1) a True
      by (cases sg)
        (simp add: OnServiceHealthChange_def sg_lock_def sg_unlock_def Let_def deref_def)
    moreover have serves: "serves (heap w) (sg_Members sg) ?n"
      using inv(2) assms(4) by (intro best_loop_serves) simp
    moreover have "?n \<noteq> sg_active sg"
    proof
      assume "?n = sg_active sg"
      with serves have "serves (heap w) (sg_Members sg) (Some a)" by (simp only: a)
      then have "svc_isHealthy (heap w r)" by (simp add: True serves_Some)
      then show False by (simp add: assms(4))
    qed
    ultimately have "switches heap cb ?n sg w (OnServiceHealthChange heap cb r False sg w)"
      by (intro switchesI[where old = "sg_active sg" and prev = "sg_active sg"]) simp_all
    then show ?thesis using a True by auto
  next
    case False
    then show ?thesis
      using assms(4,5) inv(1) a id_eq
      by (cases sg) (simp add: OnServiceHealthChange_def sg_lock_def Let_def deref_def)
  qed
qed

text \<open>Together: for a member whose health really changed, the call does one or the other.\<close>

lemma health_change_cases:
  assumes "group_inv h sg" "r \<in> set (sg_Members sg)" "svc_isHealthy (h r) \<noteq> b"
    "heap w = set_health r b h"
  shows "(\<exists>act. switches heap cb act sg w (OnServiceHealthChange heap cb r b sg w)) \<or>
         OnServiceHealthChange heap cb r b sg w = Ok (sg\<lparr>sg_mu := True\<rparr>, w)"
  using group_invD(5)[OF assms(1)] assms
    up_ActiveActive[of h sg r heap w cb] up_ActivePassive[of h sg r heap w cb]
    down_ActiveActive[of h sg r heap w cb] down_ActivePassive[of h sg r heap w cb]
  by (cases b) (auto split: if_splits)

section \<open>Every operation keeps the promise\<close>

locale promotion_callback =
  fixes heap :: "'w \<Rightarrow> services" and cb :: "PromotionEvent \<Rightarrow> 'w \<Rightarrow> 'w res"
  assumes cb_keeps: "cb e w = Ok w' \<Longrightarrow> same_health (heap w) (heap w')"
begin

lemma fire_keeps: "fire cb ev w = Ok w' \<Longrightarrow> same_health (heap w) (heap w')"
  by (auto simp: fire_def cb_keeps split: option.splits)

lemma Update_inv:
  assumes "group_Update heap cb sg w = Ok (sg', w')" "\<not> sg_mu sg"
    "sg_mode sg \<noteq> ActiveActiveRoundTrip" "members_ok (heap w) (sg_Members sg)"
  shows "group_inv (heap w') sg' \<and> set (sg_Members sg') = set (sg_Members sg)"
proof (cases "sg_Members sg = []")
  case True
  then show ?thesis
    using assms by (simp add: group_Update_empty group_inv_def members_ok_def)
next
  case False
  then have w': "fire cb (update_event (heap w) sg) w = Ok w'" and sg': "sg' = updated_group (heap w) sg"
    using assms(1) group_Update_eq[OF assms(2,3) False, of heap cb w] by (auto simp: bind_eq_Ok)
  show ?thesis
    using updated_group_inv[OF assms(2,4)] same_health_cong(4)[OF fire_keeps[OF w']]
    by (simp add: sg' updated_group_def Let_def)
qed

lemma Register_inv:
  assumes "group_RegisterService heap cb (Some r) sg w = Ok (sg', w')" "group_inv (heap w) sg"
    "r \<notin> set (sg_Members sg) \<longrightarrow> members_ok (heap w) (sg_Members sg @ [r])"
  shows "group_inv (heap w') sg' \<and> set (sg_Members sg') = insert r (set (sg_Members sg))"
proof (cases "r \<in> set (sg_Members sg)")
  case True
  then show ?thesis
    using assms group_RegisterService_eq[OF group_invD(1)[OF assms(2)], of heap cb r w] by auto
next
  case False
  let ?sg = "sg\<lparr>sg_Members := sg_Members sg @ [r]\<rparr>"
  have "group_Update heap cb ?sg w = Ok (sg', w')"
    using assms(1) False group_RegisterService_eq[OF group_invD(1)[OF assms(2)], of heap cb r w] by simp
  from Update_inv[OF this] show ?thesis using assms(2,3) False by (simp add: group_inv_def)
qed

lemma Remove_inv:
  assumes "group_RemoveService heap cb sid sg w = Ok (gone, sg', w')" "group_inv (heap w) sg"
  shows "group_inv (heap w') sg' \<and>
    set (sg_Members sg') = {r \<in> set (sg_Members sg). svc_id (heap w r) \<noteq> sid} \<and>
    gone = (sg_Members sg' = [])"
proof (cases "IndexFunc (\<lambda>s. svc_id (heap w s) = sid) (sg_Members sg)")
  case None
  then have "\<forall>r \<in> set (sg_Members sg). svc_id (heap w r) \<noteq> sid" by (simp add: IndexFunc_None)
  then show ?thesis
    using assms None group_RemoveService_eq[OF group_invD(1)[OF assms(2)], of heap cb sid w] by auto
next
  case (Some i)
  let ?ms = "take i (sg_Members sg) @ drop (Suc i) (sg_Members sg)"
  let ?sg = "sg\<lparr>sg_Members := ?ms\<rparr>"
  have i: "i < length (sg_Members sg)" "svc_id (heap w (sg_Members sg ! i)) = sid"
    using Some by (simp_all add: IndexFunc_Some)
  have mem: "set (sg_Members sg) = insert (sg_Members sg ! i) (set ?ms)"
    "members_ok (heap w) (sg_Members sg ! i # ?ms)"
    using remove_nth_mset[OF i(1)] members_ok_mset[of "sg_Members sg"] group_invD(2)[OF assms(2)]
    by (metis set_mset_mset list.simps(15), metis)
  have "group_Update heap cb ?sg w = Ok (sg', w')" "gone = (sg_Members sg' = [])"
    using assms(1) Some group_RemoveService_eq[OF group_invD(1)[OF assms(2)], of heap cb sid w]
    by (auto simp: bind_eq_Ok)
  moreover have "members_ok (heap w) ?ms" using mem(2) unfolding members_ok_Cons by blast
  moreover have "\<forall>r \<in> set ?ms. svc_id (heap w r) \<noteq> sid"
  proof -
    have "svc_id (heap w (sg_Members sg ! i)) \<notin> (\<lambda>r. svc_id (heap w r)) ` set ?ms"
      using mem(2) unfolding members_ok_Cons by blast
    then show ?thesis using i(2) by (metis image_eqI)
  qed
  ultimately show ?thesis
    using Update_inv[of ?sg w sg' w'] assms(2) i(2) by (auto simp: group_inv_def mem(1))
qed

text \<open>
  A health change keeps the promise where it releases the mutex, and it keeps the mutex locked
  exactly when it does not change the active member.
\<close>

lemma Health_inv:
  assumes "group_inv h sg" "r \<in> set (sg_Members sg)" "svc_isHealthy (h r) \<noteq> b"
    "heap w = set_health r b h" "OnServiceHealthChange heap cb r b sg w = Ok (sg', w')"
  shows "sg_Members sg' = sg_Members sg"
    and "sg_mu sg' \<longleftrightarrow> sg_active sg' = sg_active sg"
    and "\<not> sg_mu sg' \<Longrightarrow> group_inv (heap w') sg'"
    and "sg_mu sg' \<Longrightarrow> w' = w \<and> sg' = sg\<lparr>sg_mu := True\<rparr>"
proof -
  note inv = group_invD[OF assms(1)]
  from health_change_cases[OF assms(1-3), of heap w cb, OF assms(4)]
  have "sg_Members sg' = sg_Members sg \<and> (sg_mu sg' \<longleftrightarrow> sg_active sg' = sg_active sg) \<and>
    (\<not> sg_mu sg' \<longrightarrow> group_inv (heap w') sg') \<and> (sg_mu sg' \<longrightarrow> w' = w \<and> sg' = sg\<lparr>sg_mu := True\<rparr>)"
  proof
    assume "\<exists>act. switches heap cb act sg w (OnServiceHealthChange heap cb r b sg w)"
    then obtain act old prev where
      eq: "OnServiceHealthChange heap cb r b sg w =
        bind (cb \<lparr>pe_Service = sg_Name sg, pe_NewActive = act, pe_OldActive = old\<rparr> w)
          (\<lambda>w'. Ok (sg\<lparr>sg_lastActive := prev, sg_active := act\<rparr>, w'))"
      and act: "act \<noteq> sg_active sg" "serves (heap w) (sg_Members sg) act"
      unfolding switches_def by blast
    have run: "cb \<lparr>pe_Service = sg_Name sg, pe_NewActive = act, pe_OldActive = old\<rparr> w = Ok w'"
      and sg': "sg' = sg\<lparr>sg_lastActive := prev, sg_active := act\<rparr>"
      using assms(5)[unfolded eq] by (auto simp: bind_eq_Ok)
    have "group_inv (heap w) sg'"
      using assms(1,4) act(2) by (simp add: group_inv_def sg')
    then show ?thesis
      using same_health_cong(4)[OF cb_keeps[OF run]] act inv(1) by (simp add: sg')
  next
    assume "OnServiceHealthChange heap cb r b sg w = Ok (sg\<lparr>sg_mu := True\<rparr>, w)"
    then show ?thesis using assms(5) by simp
  qed
  then show "sg_Members sg' = sg_Members sg" "sg_mu sg' \<longleftrightarrow> sg_active sg' = sg_active sg"
    "\<not> sg_mu sg' \<Longrightarrow> group_inv (heap w') sg'"
    "sg_mu sg' \<Longrightarrow> w' = w \<and> sg' = sg\<lparr>sg_mu := True\<rparr>" by blast+
qed

end

section \<open>Reachable groups\<close>

type_synonym recording = "services \<times> PromotionEvent list"

definition record_event :: "PromotionEvent \<Rightarrow> recording \<Rightarrow> recording res" where
  "record_event e w = Ok (fst w, snd w @ [e])"

interpretation recorder: promotion_callback fst record_event
  by unfold_locales (auto simp: record_event_def)

text \<open>
  A group starts empty; then services register and leave, a member's health flips, a service is
  reassigned to another configuration and the group is told, and round-trip times (and anything
  else the role does not depend on) drift. A step whose call does not return has no successor.
\<close>

inductive group_reach :: "ServiceGroup \<Rightarrow> recording \<Rightarrow> bool" where
  created: "group_reach (NewEmptyServiceGroup name) (h, [])"
| registered: "group_reach sg w \<Longrightarrow> r \<in> set (sg_Members sg) \<or> members_ok (fst w) (sg_Members sg @ [r]) \<Longrightarrow>
    group_RegisterService fst record_event (Some r) sg w = Ok (sg', w') \<Longrightarrow> group_reach sg' w'"
| left_group: "group_reach sg w \<Longrightarrow>
    group_RemoveService fst record_event sid sg w = Ok (e, sg', w') \<Longrightarrow> group_reach sg' w'"
| health: "group_reach sg (h, evs) \<Longrightarrow> r \<in> set (sg_Members sg) \<Longrightarrow> svc_isHealthy (h r) \<noteq> b \<Longrightarrow>
    OnServiceHealthChange fst record_event r b sg (set_health r b h, evs) = Ok (sg', w') \<Longrightarrow>
    group_reach sg' w'"
| reassigned: "group_reach sg (h, evs) \<Longrightarrow> svc_priority new < max_int \<Longrightarrow>
    group_Update fst record_event sg (h(r := Assign (h r) new), evs) = Ok (sg', w') \<Longrightarrow>
    group_reach sg' w'"
| drifted: "group_reach sg (h, evs) \<Longrightarrow>
    \<forall>r. svc_isHealthy (h' r) = svc_isHealthy (h r) \<and> svc_priority (h' r) = svc_priority (h r) \<and>
      svc_id (h' r) = svc_id (h r) \<Longrightarrow>
    group_reach sg (h', evs)"

inductive_cases group_reachE: "group_reach sg w"

text \<open>Every operation on a locked group blocks.\<close>

lemma locked_operations:
  assumes "sg_mu sg"
  shows "group_RegisterService heap cb (Some r) sg w = Panic Deadlock"
    "group_RemoveService heap cb sid sg w = Panic Deadlock"
    "OnServiceHealthChange heap cb r b sg w = Panic Deadlock"
    "group_Update heap cb sg w = Panic Deadlock"
    "GetActive h sg = Panic Deadlock" "firstHealthy h sg = Panic Deadlock"
    "promoteNextHealthy h sg = Panic Deadlock"
  using assms
  by (simp_all add: group_RegisterService_def memberExists_def group_RemoveService_def
      OnServiceHealthChange_def group_Update_def GetActive_def firstHealthy_def promoteNextHealthy_def
      sg_rlock_def sg_lock_def)

lemma members_ok_reassign:
  assumes "members_ok h ms" "svc_priority new < max_int"
  shows "members_ok (h(r := Assign (h r) new)) ms"
proof -
  have "(\<lambda>x. svc_id ((h(r := Assign (h r) new)) x)) = (\<lambda>x. svc_id (h x))"
    by (auto simp: Assign_def)
  then show ?thesis using assms by (auto simp: members_ok_def Assign_def)
qed

lemma reach_inv: "group_reach sg w \<Longrightarrow> \<not> sg_mu sg \<Longrightarrow> group_inv (fst w) sg"
proof (induction rule: group_reach.induct)
  case (created name h)
  then show ?case by (simp add: group_inv_def NewEmptyServiceGroup_def members_ok_def)
next
  case (registered sg w r sg' w')
  then have "\<not> sg_mu sg" using locked_operations(1)[of sg fst record_event r w] by auto
  then show ?case using registered recorder.Register_inv[of r sg w sg' w'] by auto
next
  case (left_group sg w sid e sg' w')
  then have "\<not> sg_mu sg" using locked_operations(2)[of sg fst record_event sid w] by auto
  then show ?case using left_group recorder.Remove_inv[of sid sg w e sg' w'] by auto
next
  case (health sg h evs r b sg' w')
  then have "\<not> sg_mu sg" using locked_operations(3)[of sg fst record_event r b] by auto
  then show ?case using health recorder.Health_inv(3)[of h sg r b "(set_health r b h, evs)" sg' w'] by auto
next
  case (reassigned sg h evs new r sg' w')
  then have mu: "\<not> sg_mu sg" using locked_operations(4)[of sg fst record_event] by auto
  then have inv: "group_inv h sg" using reassigned.IH by simp
  show ?case
    using recorder.Update_inv[OF reassigned.hyps(3) mu] members_ok_reassign[of h _ new r]
      group_invD(2,5)[OF inv] reassigned.hyps(2) by auto
next
  case (drifted sg h evs h')
  then have inv: "group_inv h sg" by simp
  have eq: "serves h' ms act = serves h ms act" "same_priority h' ms = same_priority h ms"
    "members_ok h' ms = members_ok h ms" for ms act
    using drifted.hyps(2)
    by (cases act; simp add: serves_None serves_Some same_priority_def members_ok_def)+
  show ?case using inv by (simp add: group_inv_def eq)
qed

section \<open>Properties of a service group\<close>

text \<open>Two services and a group of both, for the concrete instances below.\<close>

definition pair_services :: services where
  "pair_services r = blank_service\<lparr>svc_id := (if r = 0 then ''a'' else ''b''),
     svc_priority := int r + 1, svc_isHealthy := True\<rparr>"

definition pair_group :: ServiceGroup where
  "pair_group = \<lparr>sg_Name = ''g'', sg_mode = ActivePassive, sg_Members = [0, 1], sg_active = Some 0,
     sg_lastActive = None, sg_prioritizedDatacenter = [], sg_mu = False\<rparr>"

lemma GetAverageRoundtrip_pair: "GetAverageRoundtrip (pair_services r) = 0"
  by (simp add: GetAverageRoundtrip_def pair_services_def blank_service_def)

lemma pair_group_inv: "group_inv pair_services pair_group"
  by (simp add: group_inv_def pair_group_def members_ok_def same_priority_def serves_Some
      pair_services_def blank_service_def)

lemma pair_reach: "group_reach (updated_group pair_services (NewEmptyServiceGroup ''g''\<lparr>sg_Members := [0]\<rparr>))
    (pair_services, [])"
proof (rule group_reach.registered[OF group_reach.created[of "''g''" pair_services], of 0])
  show "0 \<in> set (sg_Members (NewEmptyServiceGroup ''g'')) \<or>
      members_ok (fst (pair_services, [])) (sg_Members (NewEmptyServiceGroup ''g'') @ [0])"
    by (simp add: NewEmptyServiceGroup_def members_ok_def pair_services_def blank_service_def)
  show "group_RegisterService fst record_event (Some 0) (NewEmptyServiceGroup ''g'') (pair_services, []) =
    Ok (updated_group pair_services (NewEmptyServiceGroup ''g''\<lparr>sg_Members := [0]\<rparr>), pair_services, [])"
    by (simp add: group_RegisterService_eq group_Update_eq NewEmptyServiceGroup_def update_event_def
        fire_def)
qed







text \<open>
  The choice of a failover: \<^verbatim>\<open>promoteNextHealthy\<close> makes a healthy member of least priority
  active, or none when all are down, and its event carries the old and the new active member.
\<close>

theorem promoteNextHealthy_picks_best:
  assumes "\<not> sg_mu sg" "\<forall>m \<in> set (sg_Members sg). svc_priority (h m) < max_int"
  shows "\<exists>act. promoteNextHealthy h sg =
      Ok (\<lparr>pe_Service = sg_Name sg, pe_NewActive = act, pe_OldActive = sg_active sg\<rparr>, sg\<lparr>sg_active := act\<rparr>) \<and>
    (case act of
       None \<Rightarrow> \<forall>m \<in> set (sg_Members sg). \<not> svc_isHealthy (h m)
     | Some a \<Rightarrow> a \<in> set (sg_Members sg) \<and> svc_isHealthy (h a) \<and>
         (\<forall>m \<in> set (sg_Members sg). svc_isHealthy (h m) \<longrightarrow> svc_priority (h a) \<le> svc_priority (h m)))"
  using best_loop_inv[of None max_int "[]" h "sg_Members sg"] assms
  by (simp add: promoteNextHealthy_eq Let_def serves_def)

theorem promoteNextHealthy_picks_best_witness:
  "\<exists>act. promoteNextHealthy (set_health 0 False pair_services) pair_group =
     Ok (\<lparr>pe_Service = ''g'', pe_NewActive = act, pe_OldActive = Some 0\<rparr>, pair_group\<lparr>sg_active := act\<rparr>)"
  using promoteNextHealthy_picks_best[of pair_group "set_health 0 False pair_services"]
  by (auto simp: pair_group_def pair_services_def blank_service_def)

lemma recovery_event:
  assumes "\<not> sg_mu sg" "sg_mode sg = ActivePassive" "sg_active sg = None" "sg_lastActive sg = Some a"
    "svc_isHealthy (heap w a)"
  shows "OnServiceHealthChange heap cb a True sg w =
    bind (cb \<lparr>pe_Service = sg_Name sg, pe_NewActive = Some a, pe_OldActive = Some a\<rparr> w)
      (\<lambda>w'. Ok (sg\<lparr>sg_lastActive := None, sg_active := Some a\<rparr>, w'))"
  using assms
  by (cases sg) (simp add: OnServiceHealthChange_def sg_lock_def sg_unlock_def triggerPromotion_def Let_def)

text \<open>
  After an outage of a whole active-passive group, the member that was active last recovers
  first: the event it sends names it as both the old and the new active member.
\<close>

theorem recovery_event_names_same_member:
  assumes "\<not> sg_mu sg" "sg_mode sg = ActivePassive" "sg_active sg = None" "sg_lastActive sg = Some a"
    "svc_isHealthy (heap w a)"
  shows "OnServiceHealthChange heap cb a True sg w =
    bind (cb \<lparr>pe_Service = sg_Name sg, pe_NewActive = Some a, pe_OldActive = Some a\<rparr> w)
      (\<lambda>w'. Ok (sg\<lparr>sg_lastActive := None, sg_active := Some a\<rparr>, w'))"
  using assms by (rule recovery_event)

theorem recovery_event_names_same_member_witness:
  "OnServiceHealthChange fst record_event 0 True (pair_group\<lparr>sg_active := None, sg_lastActive := Some 0\<rparr>)
     (pair_services, []) =
   Ok (pair_group\<lparr>sg_lastActive := None, sg_active := Some 0\<rparr>, pair_services,
       [\<lparr>pe_Service = ''g'', pe_NewActive = Some 0, pe_OldActive = Some 0\<rparr>])"
  by (subst recovery_event_names_same_member) (simp_all add: pair_group_def pair_services_def record_event_def)

text \<open>
  \<^verbatim>\<open>Update\<close> reorders the members by priority, chooses the mode, and sends an event exactly
  when the active member changes and the group has more than one member: when the active one of
  two members leaves, the survivor becomes active without any event.
\<close>

theorem sole_survivor_promoted_silently:
  assumes "group_inv (heap w) sg" "sg_Members sg = [a, b]" "svc_isHealthy (heap w b)"
  shows "\<exists>sg'. group_RemoveService heap cb (svc_id (heap w a)) sg w = Ok (False, sg', w) \<and>
    sg_active sg' = Some b \<and> sg_Members sg' = [b]"
proof -
  note inv = group_invD[OF assms(1)]
  have sort: "sort_members (heap w) [b] = [b]" by (simp add: sort_members_def SortFunc_def)
  have "group_Update heap cb (sg\<lparr>sg_Members := [b]\<rparr>) w = Ok (updated_group (heap w) (sg\<lparr>sg_Members := [b]\<rparr>), w)"
    using inv(1,5) by (subst group_Update_eq) (auto simp: update_event_def fire_def)
  then show ?thesis
    using assms(2,3) group_RemoveService_eq[OF inv(1), of heap cb "svc_id (heap w a)" w]
    by (auto simp: updated_group_def sort first_healthy_def Let_def)
qed

theorem sole_survivor_promoted_silently_witness:
  "\<exists>sg'. group_RemoveService fst record_event ''a'' pair_group (pair_services, []) =
     Ok (False, sg', pair_services, []) \<and> sg_active sg' = Some 1"
  using sole_survivor_promoted_silently[of fst "(pair_services, [])" pair_group 0 1 record_event]
    pair_group_inv
  by (auto simp: pair_group_def pair_services_def)

text \<open>
  \<^verbatim>\<open>Update\<close> on a group of several members: they are afterwards sorted by priority, the mode is
  active-active exactly when all priorities agree, the first healthy member in that order is active,
  and one event is sent exactly when that changes the active member, with the old and the new one.
\<close>

theorem Update_effect:
  assumes "\<not> sg_mu sg" "sg_mode sg \<noteq> ActiveActiveRoundTrip" "1 < length (sg_Members sg)"
  shows "\<exists>sg' evs'. group_Update fst record_event sg (h, evs) = Ok (sg', h, evs @ evs') \<and>
    mset (sg_Members sg') = mset (sg_Members sg) \<and>
    sorted (map (\<lambda>r. svc_priority (h r)) (sg_Members sg')) \<and>
    (sg_mode sg' = ActiveActive \<longleftrightarrow> same_priority h (sg_Members sg)) \<and>
    sg_active sg' = find (\<lambda>r. svc_isHealthy (h r)) (sg_Members sg') \<and>
    evs' = (if sg_active sg' = sg_active sg then []
            else [\<lparr>pe_Service = sg_Name sg, pe_NewActive = sg_active sg', pe_OldActive = sg_active sg\<rparr>])"
proof -
  have ne: "sg_Members sg \<noteq> []" using assms(3) by auto
  have "same_priority h (sort_members h (sg_Members sg)) = same_priority h (sg_Members sg)"
    by (rule same_priority_set) simp
  then show ?thesis
    using assms(3) sort_members_priority[of h "sg_Members sg"]
    by (simp add: group_Update_eq[OF assms(1,2) ne] updated_group_def update_event_def fire_def
        record_event_def mode_for_def first_healthy_def Let_def)
qed

theorem Update_effect_witness:
  "\<exists>sg' evs'. group_Update fst record_event (pair_group\<lparr>sg_active := Some 1\<rparr>) (pair_services, []) =
     Ok (sg', pair_services, evs') \<and> sorted (map (\<lambda>r. svc_priority (pair_services r)) (sg_Members sg'))"
proof -
  let ?sg = "pair_group\<lparr>sg_active := Some 1\<rparr>"
  have "\<not> sg_mu ?sg" "sg_mode ?sg \<noteq> ActiveActiveRoundTrip" "1 < length (sg_Members ?sg)"
    by (simp_all add: pair_group_def)
  from Update_effect[OF this, of pair_services "[]"] show ?thesis by (metis append_Nil)
qed

end
