(* ===== verification/ScheduledServices.thy ===== *)
theory ScheduledServices
  imports ServiceGroup
begin

text \<open>
  \<^verbatim>\<open>internal/manager/scheduled_services.go\<close>: the services of every check interval, each queue
  sorted by id and searched by bisection. The map is an association list whose order is the order in
  which \<^verbatim>\<open>Search\<close> happens to visit the intervals.
\<close>

section \<open>Operations\<close>

type_synonym ScheduledServices = "(Duration, sref list) gomap"

definition by_id :: "services \<Rightarrow> sref \<Rightarrow> sref \<Rightarrow> int" where
  "by_id h a b = Compare (svc_id (h a)) (svc_id (h b))"

definition ss_Add :: "services \<Rightarrow> sref \<Rightarrow> ScheduledServices \<Rightarrow> ScheduledServices" where
  "ss_Add h svc s =
     (let queue = (case mget s (svc_ScheduledInterval (h svc)) of None \<Rightarrow> [] | Some queue \<Rightarrow> queue);
          queue = SortFunc (by_id h) (queue @ [svc])
      in mput (svc_ScheduledInterval (h svc)) queue s)"

definition ss_SearchInterval :: "services \<Rightarrow> string \<Rightarrow> Duration \<Rightarrow> ScheduledServices \<Rightarrow> (nat \<times> sref) option" where
  "ss_SearchInterval h sid interval s =
     (case mget s interval of
        None \<Rightarrow> None
      | Some queue \<Rightarrow>
          (let (idx, found) = BinarySearchFunc (\<lambda>svc target. Compare (svc_id (h svc)) target) queue sid
           in if found then Some (idx, queue ! idx) else None))"

fun search_loop ::
  "services \<Rightarrow> string \<Rightarrow> Duration list \<Rightarrow> ScheduledServices \<Rightarrow> (nat \<times> Duration \<times> sref) option" where
  "search_loop h sid [] s = None"
| "search_loop h sid (interval # intervals) s =
     (case ss_SearchInterval h sid interval s of
        Some (idx, svc) \<Rightarrow> Some (idx, interval, svc)
      | None \<Rightarrow> search_loop h sid intervals s)"

definition ss_Search :: "services \<Rightarrow> string \<Rightarrow> ScheduledServices \<Rightarrow> (nat \<times> Duration \<times> sref) option" where
  "ss_Search h sid s = search_loop h sid (map fst s) s"

definition ss_Delete :: "services \<Rightarrow> string \<Rightarrow> ScheduledServices \<Rightarrow> ScheduledServices" where
  "ss_Delete h sid s =
     (case ss_Search h sid s of
        None \<Rightarrow> s
      | Some (idx, interval, svc) \<Rightarrow>
          mput interval (DeleteFunc (\<lambda>r. svc_id (h r) = svc_id (h svc)) (the (mget s interval))) s)"

text \<open>
  Indexing a Go map with a missing key yields the zero value, here the empty queue.
\<close>

definition ss_get :: "ScheduledServices \<Rightarrow> Duration \<Rightarrow> sref list" where
  "ss_get s interval = (case mget s interval of None \<Rightarrow> [] | Some q \<Rightarrow> q)"

definition ss_MoveToInterval ::
  "sref \<Rightarrow> Duration \<Rightarrow> services \<times> ScheduledServices \<Rightarrow> services \<times> ScheduledServices" where
  "ss_MoveToInterval svc newInterval = (\<lambda>(h, s).
     let svcID = svc_id (h svc) in
     case ss_Search h svcID s of
       None \<Rightarrow> (h, s)
     | Some (idx, interval, svc) \<Rightarrow>
         let s = mput (svc_ScheduledInterval (h svc))
               (DeleteFunc (\<lambda>r. svc_id (h r) = svcID) (ss_get s (svc_ScheduledInterval (h svc)))) s;
             oldInterval = svc_ScheduledInterval (h svc);
             h = h(svc := (h svc)\<lparr>svc_ScheduledInterval := newInterval\<rparr>);
             s = ss_Add h svc s
         in (h, if ss_get s oldInterval = [] then mdel oldInterval s else s))"

definition ss_IntervalExists :: "Duration \<Rightarrow> ScheduledServices \<Rightarrow> bool" where
  "ss_IntervalExists interval s \<longleftrightarrow> mget s interval \<noteq> None"

section \<open>Invariant\<close>

text \<open>
  Every queue is sorted by id, a service is filed under its scheduled interval, and no id occurs
  twice.
\<close>

definition scheduled :: "ScheduledServices \<Rightarrow> sref set" where
  "scheduled s = {r. \<exists>iv q. mget s iv = Some q \<and> r \<in> set q}"

definition ss_inv :: "services \<Rightarrow> ScheduledServices \<Rightarrow> bool" where
  "ss_inv h s \<longleftrightarrow> keys_ok s \<and>
     (\<forall>iv q. mget s iv = Some q \<longrightarrow> sorted (map (\<lambda>r. svc_id (h r)) q) \<and>
        distinct (map (\<lambda>r. svc_id (h r)) q) \<and> (\<forall>r \<in> set q. svc_ScheduledInterval (h r) = iv)) \<and>
     inj_on (\<lambda>r. svc_id (h r)) (scheduled s)"

interpretation id_order: strict_weak_cmp "by_id h" for h
  by unfold_locales (auto simp: by_id_def)

lemma sorted_SortFunc_by_id: "sorted (map (\<lambda>r. svc_id (h r)) (SortFunc (by_id h) q))"
proof -
  have "by_id h = (\<lambda>a b. Compare (svc_id (h a)) (svc_id (h b)))"
    by (simp add: by_id_def fun_eq_iff)
  then show ?thesis
    using id_order.SortFunc_ordered[of h q] by (simp add: ordered_by_Compare)
qed

lemma ss_invD:
  assumes "ss_inv h s" "mget s iv = Some q"
  shows "sorted (map (\<lambda>r. svc_id (h r)) q)" "distinct (map (\<lambda>r. svc_id (h r)) q)"
    "\<And>r. r \<in> set q \<Longrightarrow> svc_ScheduledInterval (h r) = iv"
  using assms by (auto simp: ss_inv_def)

lemma ss_inv_same:
  "ss_inv h s \<Longrightarrow> a \<in> scheduled s \<Longrightarrow> b \<in> scheduled s \<Longrightarrow> svc_id (h a) = svc_id (h b) \<Longrightarrow> a = b"
  by (auto simp: ss_inv_def inj_on_def)

text \<open>The search of one interval, and of all of them.\<close>

lemma SearchInterval_Some:
  assumes "ss_inv h s" "ss_SearchInterval h sid iv s = Some (i, r)"
  shows "\<exists>q. mget s iv = Some q \<and> i < length q \<and> q ! i = r \<and> svc_id (h r) = sid"
  using assms BinarySearchFunc_found[of "\<lambda>r. svc_id (h r)" _ sid i]
  by (auto simp: ss_SearchInterval_def Let_def split: option.splits prod.splits if_splits dest: ss_invD(1))

lemma SearchInterval_complete:
  assumes "ss_inv h s" "mget s iv = Some q" "r \<in> set q" "svc_id (h r) = sid"
  shows "\<exists>i. ss_SearchInterval h sid iv s = Some (i, r)"
proof -
  obtain i where i: "BinarySearchFunc (\<lambda>x t. Compare (svc_id (h x)) t) q sid = (i, True)"
    using BinarySearchFunc_complete[OF ss_invD(1)[OF assms(1,2)] assms(3), of sid] assms(4) by blast
  have "i < length q \<and> svc_id (h (q ! i)) = sid"
    using BinarySearchFunc_found[OF ss_invD(1)[OF assms(1,2)] i] .
  then have "q ! i = r"
    using distinct_nth_unique[OF ss_invD(2)[OF assms(1,2)], of i r] assms(3,4) by auto
  then show ?thesis using assms(2) i by (simp add: ss_SearchInterval_def)
qed

lemma search_loop_Some:
  "search_loop h sid ivs s = Some (i, iv, r) \<Longrightarrow> iv \<in> set ivs \<and> ss_SearchInterval h sid iv s = Some (i, r)"
  by (induction ivs) (auto split: option.splits)

lemma search_loop_None:
  "search_loop h sid ivs s = None \<Longrightarrow> iv \<in> set ivs \<Longrightarrow> ss_SearchInterval h sid iv s = None"
  by (induction ivs) (auto split: option.splits)

lemma Search_Some:
  assumes "ss_inv h s" "ss_Search h sid s = Some (i, iv, r)"
  shows "\<exists>q. mget s iv = Some q \<and> i < length q \<and> q ! i = r \<and> svc_id (h r) = sid"
  using SearchInterval_Some[OF assms(1)] search_loop_Some assms(2) unfolding ss_Search_def by blast

lemma scheduledI: "mget s iv = Some q \<Longrightarrow> r \<in> set q \<Longrightarrow> r \<in> scheduled s"
  by (auto simp: scheduled_def)

lemma Search_complete:
  assumes "ss_inv h s" "mget s iv = Some q" "r \<in> set q" "svc_id (h r) = sid"
  shows "\<exists>i. ss_Search h sid s = Some (i, iv, r) \<and> q ! i = r"
proof -
  have "iv \<in> set (map fst s)" using assms(2) by (force dest: map_of_SomeD)
  then obtain i iv' r' where f: "ss_Search h sid s = Some (i, iv', r')"
    using SearchInterval_complete[OF assms] search_loop_None[of h sid "map fst s" s iv]
    unfolding ss_Search_def by (cases "search_loop h sid (map fst s) s") auto
  then obtain q' where q': "mget s iv' = Some q'" "i < length q'" "q' ! i = r'" "svc_id (h r') = sid"
    using Search_Some[OF assms(1)] by blast
  then have r': "r' \<in> set q'" by auto
  have "r' = r"
    using ss_inv_same[OF assms(1) scheduledI[OF q'(1) r'] scheduledI[OF assms(2,3)]] q'(4) assms(4) by simp
  then have "iv' = iv"
    using ss_invD(3)[OF assms(1,2) assms(3)] ss_invD(3)[OF assms(1) q'(1) r'] by simp
  then show ?thesis using f q' assms(2) \<open>r' = r\<close> by auto
qed

text \<open>The effect of the updates on the contents of each interval.\<close>

lemma ss_get_Add:
  "ss_get (ss_Add h r s) iv =
     (if iv = svc_ScheduledInterval (h r) then SortFunc (by_id h) (ss_get s iv @ [r]) else ss_get s iv)"
  by (simp add: ss_get_def ss_Add_def Let_def mget_mput)

lemma scheduled_ss_get: "scheduled s = {r. \<exists>iv. r \<in> set (ss_get s iv)}"
proof (intro set_eqI iffI)
  fix r
  assume "r \<in> scheduled s"
  then obtain iv q where "mget s iv = Some q" "r \<in> set q" by (auto simp: scheduled_def)
  then have "r \<in> set (ss_get s iv)" by (simp add: ss_get_def)
  then show "r \<in> {r. \<exists>iv. r \<in> set (ss_get s iv)}" by blast
next
  fix r
  assume "r \<in> {r. \<exists>iv. r \<in> set (ss_get s iv)}"
  then obtain iv where "r \<in> set (ss_get s iv)" by blast
  then show "r \<in> scheduled s" by (cases "mget s iv") (auto simp: scheduled_def ss_get_def)
qed

lemma ss_get_mput [simp]: "ss_get (mput k q s) iv = (if iv = k then q else ss_get s iv)"
  by (simp add: ss_get_def mget_mput)

lemma ss_get_mdel [simp]: "ss_get (mdel k s) iv = (if iv = k then [] else ss_get s iv)"
  by (simp add: ss_get_def mget_mdel)

lemma ss_inv_get: "ss_inv h s \<longleftrightarrow> keys_ok s \<and>
    (\<forall>iv. sorted (map (\<lambda>r. svc_id (h r)) (ss_get s iv)) \<and> distinct (map (\<lambda>r. svc_id (h r)) (ss_get s iv)) \<and>
      (\<forall>r \<in> set (ss_get s iv). svc_ScheduledInterval (h r) = iv)) \<and>
    inj_on (\<lambda>r. svc_id (h r)) (scheduled s)"
proof -
  have "(\<forall>q. mget s iv = Some q \<longrightarrow> P q) \<longleftrightarrow> P (ss_get s iv)" if "P []" for iv P
    using that by (cases "mget s iv") (auto simp: ss_get_def)
  then show ?thesis unfolding ss_inv_def by simp
qed

lemma sorted_map_DeleteFunc: "sorted (map f xs) \<Longrightarrow> sorted (map f (DeleteFunc p xs))"
  by (simp add: DeleteFunc_def sorted_filter)

lemma ss_inv_fields:
  assumes "ss_inv h s" "\<And>r. r \<in> scheduled s \<Longrightarrow> svc_id (h' r) = svc_id (h r)"
    "\<And>r. r \<in> scheduled s \<Longrightarrow> svc_ScheduledInterval (h' r) = svc_ScheduledInterval (h r)"
  shows "ss_inv h' s"
proof -
  have q: "r \<in> scheduled s" if "r \<in> set (ss_get s iv)" for r iv
    using that by (auto simp: scheduled_ss_get)
  have ids: "map (\<lambda>r. svc_id (h' r)) (ss_get s iv) = map (\<lambda>r. svc_id (h r)) (ss_get s iv)" for iv
    using q assms(2) by (auto intro!: map_cong)
  have "inj_on (\<lambda>r. svc_id (h' r)) (scheduled s) = inj_on (\<lambda>r. svc_id (h r)) (scheduled s)"
    using assms(2) by (intro inj_on_cong) simp
  then show ?thesis using assms(1,3) q unfolding ss_inv_get ids by auto
qed

lemma ss_inv_cong: "ss_inv h s \<Longrightarrow> (\<And>r. r \<in> scheduled s \<Longrightarrow> h r = h' r) \<Longrightarrow> ss_inv h' s"
  by (rule ss_inv_fields[of h s h']) auto

lemma Add_inv:
  assumes "ss_inv h s" "\<forall>x \<in> scheduled s. svc_id (h x) \<noteq> svc_id (h r)"
  shows "ss_inv h (ss_Add h r s)" and "scheduled (ss_Add h r s) = insert r (scheduled s)"
proof -
  let ?iv = "svc_ScheduledInterval (h r)"
  note inv = assms(1)[unfolded ss_inv_get]
  show sch: "scheduled (ss_Add h r s) = insert r (scheduled s)"
  proof (intro set_eqI iffI)
    fix x
    assume "x \<in> scheduled (ss_Add h r s)"
    then show "x \<in> insert r (scheduled s)" by (auto simp: scheduled_ss_get ss_get_Add split: if_splits)
  next
    fix x
    assume "x \<in> insert r (scheduled s)"
    then consider "x = r" | iv where "x \<in> set (ss_get s iv)" by (auto simp: scheduled_ss_get)
    then show "x \<in> scheduled (ss_Add h r s)"
    proof cases
      case 1
      then have "x \<in> set (ss_get (ss_Add h r s) ?iv)" by (simp add: ss_get_Add)
      then show ?thesis by (auto simp: scheduled_ss_get)
    next
      case 2
      then have "x \<in> set (ss_get (ss_Add h r s) iv)" by (auto simp: ss_get_Add)
      then show ?thesis by (auto simp: scheduled_ss_get)
    qed
  qed
  have "svc_id (h r) \<notin> (\<lambda>x. svc_id (h x)) ` set (ss_get s ?iv)"
    using assms(2) by (auto simp: scheduled_ss_get)
  then have "distinct (map (\<lambda>r. svc_id (h r)) (SortFunc (by_id h) (ss_get s ?iv @ [r])))"
    using inv by simp
  moreover have "inj_on (\<lambda>r. svc_id (h r)) (insert r (scheduled s))"
    using inv assms(2) by (auto simp: inj_on_def)
  moreover have "keys_ok (ss_Add h r s)"
    using inv by (simp add: ss_Add_def Let_def distinct_update)
  ultimately show "ss_inv h (ss_Add h r s)"
    using inv sorted_SortFunc_by_id unfolding ss_inv_get sch by (auto simp: ss_get_Add)
qed

lemma Remove_queue_inv:
  assumes "ss_inv h s"
  shows "ss_inv h (mput iv (DeleteFunc p (ss_get s iv)) s)"
    and "scheduled (mput iv (DeleteFunc p (ss_get s iv)) s) \<subseteq> scheduled s"
proof -
  show sub: "scheduled (mput iv (DeleteFunc p (ss_get s iv)) s) \<subseteq> scheduled s"
    unfolding scheduled_ss_get by (auto split: if_splits)
  show "ss_inv h (mput iv (DeleteFunc p (ss_get s iv)) s)"
    using assms inj_on_subset[OF _ sub]
    unfolding ss_inv_get
    by (auto simp: distinct_map_DeleteFunc sorted_map_DeleteFunc distinct_update)
qed

text \<open>The removal leaves exactly the services of other ids.\<close>

lemma remove_id_scheduled:
  assumes "ss_inv h s" "mget s iv = Some q" "r \<in> set q"
  shows "scheduled (mput iv (DeleteFunc (\<lambda>x. svc_id (h x) = svc_id (h r)) (ss_get s iv)) s) =
    scheduled s - {r}"
proof (intro set_eqI iffI)
  fix x
  let ?s = "mput iv (DeleteFunc (\<lambda>x. svc_id (h x) = svc_id (h r)) (ss_get s iv)) s"
  assume "x \<in> scheduled ?s"
  then obtain iv' where x: "x \<in> set (ss_get ?s iv')" by (auto simp: scheduled_ss_get)
  have "x \<noteq> r"
  proof
    assume "x = r"
    then have "iv' \<noteq> iv" "x \<in> set (ss_get s iv')" using x by (auto split: if_splits)
    then show False
      using assms \<open>x = r\<close> ss_invD(3)[OF assms] unfolding ss_inv_get by (metis)
  qed
  moreover have "x \<in> scheduled s" using x by (auto simp: scheduled_ss_get split: if_splits)
  ultimately show "x \<in> scheduled s - {r}" by simp
next
  fix x
  let ?s = "mput iv (DeleteFunc (\<lambda>x. svc_id (h x) = svc_id (h r)) (ss_get s iv)) s"
  assume x: "x \<in> scheduled s - {r}"
  then obtain iv' where iv': "x \<in> set (ss_get s iv')" by (auto simp: scheduled_ss_get)
  have "svc_id (h x) \<noteq> svc_id (h r)"
    using x ss_inv_same[OF assms(1) _ scheduledI[OF assms(2,3)]] by blast
  then have "x \<in> set (ss_get ?s iv')" using iv' by auto
  then show "x \<in> scheduled ?s" unfolding scheduled_ss_get by blast
qed

lemma drop_empty_inv:
  assumes "ss_inv h s"
  shows "ss_inv h (if ss_get s iv = [] then mdel iv s else s)"
    "ss_get (if ss_get s iv = [] then mdel iv s else s) = ss_get s"
    "scheduled (if ss_get s iv = [] then mdel iv s else s) = scheduled s"
proof -
  show eq: "ss_get (if ss_get s iv = [] then mdel iv s else s) = ss_get s" by auto
  then show "scheduled (if ss_get s iv = [] then mdel iv s else s) = scheduled s"
    unfolding scheduled_ss_get by simp
  then show "ss_inv h (if ss_get s iv = [] then mdel iv s else s)"
    using assms unfolding ss_inv_get eq by (auto simp: distinct_delete)
qed

lemma ss_inv_reschedule:
  assumes "ss_inv h s" "r \<notin> scheduled s"
  shows "ss_inv (h(r := (h r)\<lparr>svc_ScheduledInterval := iv\<rparr>)) s"
proof -
  let ?h = "h(r := (h r)\<lparr>svc_ScheduledInterval := iv\<rparr>)"
  have same: "svc_id (?h x) = svc_id (h x)" for x by simp
  have "x \<noteq> r" if "x \<in> set (ss_get s iv')" for x iv'
    using that assms(2) by (auto simp: scheduled_ss_get)
  then show ?thesis using assms(1) unfolding ss_inv_get same by simp
qed

text \<open>Moving a scheduled service.\<close>

lemma Move_correct:
  assumes "ss_inv h s" "r \<in> scheduled s"
    and "ss_MoveToInterval r iv (h, s) = (h', s')"
  shows "ss_inv h' s'" "scheduled s' = scheduled s" "h' = h(r := (h r)\<lparr>svc_ScheduledInterval := iv\<rparr>)"
    "r \<in> set (ss_get s' iv)"
proof -
  let ?old = "svc_ScheduledInterval (h r)"
  let ?rm = "mput ?old (DeleteFunc (\<lambda>x. svc_id (h x) = svc_id (h r)) (ss_get s ?old)) s"
  let ?h = "h(r := (h r)\<lparr>svc_ScheduledInterval := iv\<rparr>)"
  obtain iv0 q where q: "mget s iv0 = Some q" "r \<in> set q" using assms(2) by (auto simp: scheduled_def)
  have iv0: "iv0 = ?old" using ss_invD(3)[OF assms(1) q] by simp
  obtain i where find: "ss_Search h (svc_id (h r)) s = Some (i, ?old, r)"
    using Search_complete[OF assms(1) q refl] iv0 by blast
  have rm: "ss_inv h ?rm" "scheduled ?rm = scheduled s - {r}"
    using Remove_queue_inv(1)[OF assms(1)] remove_id_scheduled[OF assms(1) q[unfolded iv0]] by simp_all
  have "ss_inv ?h ?rm" using rm by (intro ss_inv_reschedule) simp_all
  moreover have "\<forall>x \<in> scheduled ?rm. svc_id (?h x) \<noteq> svc_id (?h r)"
    using rm(2) ss_inv_same[OF assms(1) _ assms(2)] by auto
  ultimately have add: "ss_inv ?h (ss_Add ?h r ?rm)"
    "scheduled (ss_Add ?h r ?rm) = scheduled s"
    using Add_inv[of ?h ?rm r] rm(2) assms(2) by auto
  have res: "h' = ?h" "s' = (if ss_get (ss_Add ?h r ?rm) ?old = [] then mdel ?old (ss_Add ?h r ?rm)
      else ss_Add ?h r ?rm)"
    using assms(3) find unfolding ss_MoveToInterval_def by (auto simp: Let_def)
  show "h' = ?h" by (rule res(1))
  show "ss_inv h' s'" "scheduled s' = scheduled s"
    unfolding res using drop_empty_inv[OF add(1)] add(2) by simp_all
  show "r \<in> set (ss_get s' iv)"
    unfolding res drop_empty_inv(2)[OF add(1)] by (simp add: ss_get_Add)
qed

lemma Move_absent:
  assumes "ss_inv h s" "\<forall>x \<in> scheduled s. svc_id (h x) \<noteq> svc_id (h r)"
  shows "ss_MoveToInterval r iv (h, s) = (h, s)"
proof -
  have "ss_Search h (svc_id (h r)) s = None"
  proof (cases "ss_Search h (svc_id (h r)) s")
    case (Some t)
    then show ?thesis
      using Search_Some[OF assms(1)] assms(2) by (cases t) (metis nth_mem scheduledI)
  qed
  then show ?thesis by (simp add: ss_MoveToInterval_def Let_def)
qed

section \<open>Properties\<close>

definition same_identity :: "services \<Rightarrow> services \<Rightarrow> bool" where
  "same_identity h h' \<longleftrightarrow> (\<forall>r. svc_id (h' r) = svc_id (h r) \<and> svc_MemberOf (h' r) = svc_MemberOf (h r))"

text \<open>Moving finds the service by its id, whichever reference it is given.\<close>

lemma Move_any:
  assumes "ss_inv h s" "ss_MoveToInterval r iv (h, s) = (h', s')"
  shows "ss_inv h' s'" "scheduled s' = scheduled s" "same_identity h h'"
proof -
  have "ss_inv h' s' \<and> scheduled s' = scheduled s \<and> same_identity h h'"
  proof (cases "ss_Search h (svc_id (h r)) s")
    case None
    then show ?thesis using assms by (simp add: ss_MoveToInterval_def same_identity_def)
  next
    case (Some t)
    obtain i iv0 x where t: "t = (i, iv0, x)" by (cases t)
    obtain q where q: "mget s iv0 = Some q" "i < length q" "q ! i = x" "svc_id (h x) = svc_id (h r)"
      using Search_Some[OF assms(1)] Some t by blast
    then have x: "x \<in> scheduled s" using scheduledI[OF q(1)] nth_mem by blast
    have "ss_MoveToInterval x iv (h, s) = (h', s')" using assms(2) q(4) by (simp add: ss_MoveToInterval_def)
    from Move_correct[OF assms(1) x this] show ?thesis by (simp add: same_identity_def)
  qed
  then show "ss_inv h' s'" "scheduled s' = scheduled s" "same_identity h h'" by simp_all
qed

definition two_queues :: ScheduledServices where
  "two_queues = [(5 * Second, [0]), (15 * Second, [1])]"

definition queue_services :: services where
  "queue_services r = blank_service\<lparr>svc_id := (if r = 0 then ''a'' else ''b''),
     svc_ScheduledInterval := (if r = 0 then 5 * Second else 15 * Second)\<rparr>"

lemma two_queues_inv: "ss_inv queue_services two_queues"
  unfolding ss_inv_def
proof (intro conjI)
  show "inj_on (\<lambda>r. svc_id (queue_services r)) (scheduled two_queues)"
    by (auto simp: inj_on_def scheduled_def two_queues_def queue_services_def split: if_splits)
qed (auto simp: two_queues_def queue_services_def split: if_splits)

lemma two_queues_scheduled: "1 \<in> scheduled two_queues"
  unfolding scheduled_def two_queues_def by (intro CollectI exI[of _ "15 * Second"] exI[of _ "[1]"]) simp

lemma Search_cases:
  assumes "ss_inv h s"
  shows "(case ss_Search h sid s of
       None \<Rightarrow> \<forall>r \<in> scheduled s. svc_id (h r) \<noteq> sid
     | Some (i, iv, r) \<Rightarrow> r \<in> scheduled s \<and> svc_id (h r) = sid \<and> svc_ScheduledInterval (h r) = iv \<and>
         i < length (ss_get s iv) \<and> ss_get s iv ! i = r)"
proof (cases "ss_Search h sid s")
  case None
  then show ?thesis
    using Search_complete[OF assms] by (fastforce simp: scheduled_def)
next
  case (Some t)
  obtain i iv r where t: "t = (i, iv, r)" by (cases t)
  then obtain q where q: "mget s iv = Some q" "i < length q" "q ! i = r" "svc_id (h r) = sid"
    using Search_Some[OF assms] Some by blast
  then have "r \<in> set q" by auto
  then show ?thesis
    using Some t q ss_invD(3)[OF assms q(1)] scheduledI[OF q(1)] by (simp add: ss_get_def)
qed

text \<open>
  \<^verbatim>\<open>Search\<close> by bisection in every queue finds a scheduled service by its id, at its own
  interval and position, whatever the order in which the map is visited, and nothing for an id that
  is not scheduled.
\<close>

theorem Search_finds_iff_scheduled:
  assumes "ss_inv h s"
  shows "(case ss_Search h sid s of
       None \<Rightarrow> \<forall>r \<in> scheduled s. svc_id (h r) \<noteq> sid
     | Some (i, iv, r) \<Rightarrow> r \<in> scheduled s \<and> svc_id (h r) = sid \<and> svc_ScheduledInterval (h r) = iv \<and>
         i < length (ss_get s iv) \<and> ss_get s iv ! i = r)"
  using assms by (rule Search_cases)

theorem Search_finds_iff_scheduled_witness:
  "(case ss_Search queue_services ''b'' two_queues of
       None \<Rightarrow> \<forall>r \<in> scheduled two_queues. svc_id (queue_services r) \<noteq> ''b''
     | Some (i, iv, r) \<Rightarrow> r \<in> scheduled two_queues \<and> svc_id (queue_services r) = ''b'' \<and>
         svc_ScheduledInterval (queue_services r) = iv \<and>
         i < length (ss_get two_queues iv) \<and> ss_get two_queues iv ! i = r)"
  by (rule Search_finds_iff_scheduled[OF two_queues_inv])

text \<open>
  Moving a scheduled service to another interval files it there and nowhere else, changes no
  other service, and keeps every queue sorted and free of duplicates.
\<close>

theorem MoveToInterval_refiles:
  assumes "ss_inv h s" "r \<in> scheduled s"
  shows "case ss_MoveToInterval r iv (h, s) of (h', s') \<Rightarrow>
    h' = h(r := (h r)\<lparr>svc_ScheduledInterval := iv\<rparr>) \<and> ss_inv h' s' \<and> scheduled s' = scheduled s \<and>
    (\<exists>i. ss_Search h' (svc_id (h r)) s' = Some (i, iv, r))"
proof -
  obtain h' s' where eq: "ss_MoveToInterval r iv (h, s) = (h', s')" by fastforce
  note move = Move_correct[OF assms eq]
  have "\<exists>q. mget s' iv = Some q \<and> r \<in> set q"
    using move(4) by (cases "mget s' iv") (simp_all add: ss_get_def)
  then obtain i where "ss_Search h' (svc_id (h' r)) s' = Some (i, iv, r)"
    using Search_complete[OF move(1) _ _ refl] by blast
  then show ?thesis using move eq by auto
qed

theorem MoveToInterval_refiles_witness:
  "ss_inv (fst (ss_MoveToInterval 1 (5 * Second) (queue_services, two_queues)))
     (snd (ss_MoveToInterval 1 (5 * Second) (queue_services, two_queues)))"
  using MoveToInterval_refiles[OF two_queues_inv two_queues_scheduled, of "5 * Second"]
  by (cases "ss_MoveToInterval 1 (5 * Second) (queue_services, two_queues)") auto

lemma Delete_keeps:
  assumes "ss_inv h s"
  shows "ss_inv h (ss_Delete h sid s) \<and>
    scheduled (ss_Delete h sid s) = {r \<in> scheduled s. svc_id (h r) \<noteq> sid}"
proof (cases "ss_Search h sid s")
  case None
  then show ?thesis using Search_cases[OF assms, of sid] assms by (auto simp: ss_Delete_def)
next
  case (Some t)
  obtain i iv r where t: "t = (i, iv, r)" by (cases t)
  then obtain q where q: "mget s iv = Some q" "i < length q" "q ! i = r" "svc_id (h r) = sid"
    using Search_Some[OF assms] Some by blast
  then have r: "r \<in> set q" "the (mget s iv) = ss_get s iv" by (auto simp: ss_get_def)
  have "{x \<in> scheduled s. svc_id (h x) \<noteq> sid} = scheduled s - {r}"
    using q(4) ss_inv_same[OF assms _ scheduledI[OF q(1) r(1)]] by auto
  then show ?thesis
    using Some t r Remove_queue_inv(1)[OF assms] remove_id_scheduled[OF assms q(1) r(1)]
    by (simp add: ss_Delete_def)
qed

text \<open>
  \<^verbatim>\<open>Delete\<close> removes exactly the service of that id, and registering and deleting keep the
  queues well formed.
\<close>

theorem Delete_removes_exactly:
  assumes "ss_inv h s"
  shows "ss_inv h (ss_Delete h sid s) \<and>
    scheduled (ss_Delete h sid s) = {r \<in> scheduled s. svc_id (h r) \<noteq> sid}"
  by (rule Delete_keeps[OF assms])

theorem Delete_removes_exactly_witness:
  "scheduled (ss_Delete queue_services ''a'' two_queues) = {r \<in> scheduled two_queues. svc_id (queue_services r) \<noteq> ''a''}"
  using Delete_removes_exactly[OF two_queues_inv] by blast

end
