(* ===== verification/GoHeap.thy ===== *)
theory GoHeap
  imports Main "HOL-Library.Multiset"
begin

text \<open>
  Go's \<^verbatim>\<open>container/heap\<close> on a slice, as the scheduler uses it: \<^verbatim>\<open>Less\<close> compares a key of
  the elements. The promise a priority queue makes to its clients is the locale
  \<open>priority_queue\<close>; the binary heap in a slice is an instance of it.
\<close>

section \<open>The algorithm\<close>

definition Swap :: "nat \<Rightarrow> nat \<Rightarrow> 'a list \<Rightarrow> 'a list" where
  "Swap i j xs = xs[i := xs ! j, j := xs ! i]"

definition parent :: "nat \<Rightarrow> nat" where
  "parent i = (i - 1) div 2"

function up :: "('a \<Rightarrow> int) \<Rightarrow> 'a list \<Rightarrow> nat \<Rightarrow> 'a list" where
  "up key xs j =
     (if parent j = j \<or> \<not> key (xs ! j) < key (xs ! parent j) then xs
      else up key (Swap (parent j) j xs) (parent j))"
  by pat_completeness auto
termination
  by (relation "measure (\<lambda>(key, xs, j). j)") (auto simp: parent_def)

text \<open>\<^verbatim>\<open>down\<close> returns whether the element moved.\<close>

function down :: "('a \<Rightarrow> int) \<Rightarrow> 'a list \<Rightarrow> nat \<Rightarrow> nat \<Rightarrow> bool \<Rightarrow> 'a list \<times> bool" where
  "down key xs i n moved =
     (let j1 = 2 * i + 1 in
      if n \<le> j1 then (xs, moved)
      else
        let j = (if j1 + 1 < n \<and> key (xs ! (j1 + 1)) < key (xs ! j1) then j1 + 1 else j1)
        in if \<not> key (xs ! j) < key (xs ! i) then (xs, moved)
           else down key (Swap i j xs) j n True)"
  by pat_completeness auto
termination
  by (relation "measure (\<lambda>(key, xs, i, n, moved). n - i)") (auto split: if_splits)

declare up.simps [simp del] down.simps [simp del]

definition heap_Push :: "('a \<Rightarrow> int) \<Rightarrow> 'a \<Rightarrow> 'a list \<Rightarrow> 'a list" where
  "heap_Push key x xs = up key (xs @ [x]) (length xs)"

definition heap_Pop :: "('a \<Rightarrow> int) \<Rightarrow> 'a list \<Rightarrow> 'a \<times> 'a list" where
  "heap_Pop key xs =
     (let n = length xs - 1; xs = fst (down key (Swap 0 n xs) 0 n False)
      in (xs ! n, take n xs))"

definition heap_Remove :: "('a \<Rightarrow> int) \<Rightarrow> nat \<Rightarrow> 'a list \<Rightarrow> 'a \<times> 'a list" where
  "heap_Remove key i xs =
     (let n = length xs - 1;
          xs = (if n = i then xs
                else let (ys, moved) = down key (Swap i n xs) i n False
                     in if moved then ys else up key ys i)
      in (xs ! n, take n xs))"

section \<open>The heap order\<close>

definition heap_inv :: "('a \<Rightarrow> int) \<Rightarrow> nat \<Rightarrow> 'a list \<Rightarrow> bool" where
  "heap_inv key n xs \<longleftrightarrow> (\<forall>m. 0 < m \<and> m < n \<longrightarrow> key (xs ! parent m) \<le> key (xs ! m))"

text \<open>The order holds except at \<open>j\<close> itself, and across it.\<close>

definition hole :: "('a \<Rightarrow> int) \<Rightarrow> nat \<Rightarrow> nat \<Rightarrow> 'a list \<Rightarrow> bool" where
  "hole key n j xs \<longleftrightarrow>
     (\<forall>m. 0 < m \<and> m < n \<and> m \<noteq> j \<and> parent m \<noteq> j \<longrightarrow> key (xs ! parent m) \<le> key (xs ! m)) \<and>
     (\<forall>m. 0 < j \<and> 0 < m \<and> m < n \<and> parent m = j \<longrightarrow> key (xs ! parent j) \<le> key (xs ! m))"

definition above_ok :: "('a \<Rightarrow> int) \<Rightarrow> nat \<Rightarrow> 'a list \<Rightarrow> bool" where
  "above_ok key j xs \<longleftrightarrow> (0 < j \<longrightarrow> key (xs ! parent j) \<le> key (xs ! j))"

definition below_ok :: "('a \<Rightarrow> int) \<Rightarrow> nat \<Rightarrow> nat \<Rightarrow> 'a list \<Rightarrow> bool" where
  "below_ok key n j xs \<longleftrightarrow> (\<forall>m. 0 < m \<and> m < n \<and> parent m = j \<longrightarrow> key (xs ! j) \<le> key (xs ! m))"

lemma parent_less: "0 < j \<Longrightarrow> parent j < j"
  by (simp add: parent_def)

lemma parent_eq_self [simp]: "parent j = j \<longleftrightarrow> j = 0"
  by (auto simp: parent_def)

lemma child_iff: "0 < m \<and> parent m = i \<longleftrightarrow> m = 2 * i + 1 \<or> m = 2 * i + 2"
  by (auto simp: parent_def)

lemma Swap_props [simp]:
  "length (Swap i j xs) = length xs"
  by (simp add: Swap_def)

lemma Swap_nth:
  "i < length xs \<Longrightarrow> j < length xs \<Longrightarrow> m < length xs \<Longrightarrow>
   Swap i j xs ! m = (if m = i then xs ! j else if m = j then xs ! i else xs ! m)"
  by (auto simp: Swap_def nth_list_update)

lemma mset_Swap: "i < length xs \<Longrightarrow> j < length xs \<Longrightarrow> mset (Swap i j xs) = mset xs"
  by (simp add: Swap_def mset_swap)

lemma heap_inv_hole: "heap_inv key n xs \<longleftrightarrow> hole key n j xs \<and> above_ok key j xs \<and> below_ok key n j xs"
  if "j < n"
proof
  assume inv: "heap_inv key n xs"
  have "key (xs ! parent j) \<le> key (xs ! m)" if "0 < j" "0 < m" "m < n" "parent m = j" for m
  proof -
    have "key (xs ! j) \<le> key (xs ! m)" using inv that(2-4) by (auto simp: heap_inv_def)
    moreover have "key (xs ! parent j) \<le> key (xs ! j)"
      using inv that(1) \<open>j < n\<close> by (auto simp: heap_inv_def)
    ultimately show ?thesis by linarith
  qed
  then show "hole key n j xs \<and> above_ok key j xs \<and> below_ok key n j xs"
    using inv \<open>j < n\<close> by (auto simp: heap_inv_def hole_def above_ok_def below_ok_def)
next
  assume "hole key n j xs \<and> above_ok key j xs \<and> below_ok key n j xs"
  then show "heap_inv key n xs"
    unfolding heap_inv_def hole_def above_ok_def below_ok_def by metis
qed

lemma up_correct:
  assumes "j < n" "n \<le> length xs" "hole key n j xs" "below_ok key n j xs"
  shows "heap_inv key n (up key xs j) \<and> mset (up key xs j) = mset xs \<and>
    (\<forall>m. n \<le> m \<longrightarrow> up key xs j ! m = xs ! m)"
  using assms
proof (induction key xs j rule: up.induct)
  case (1 key xs j)
  let ?p = "parent j"
  show ?case
  proof (cases "j = 0 \<or> \<not> key (xs ! j) < key (xs ! ?p)")
    case True
    then have "up key xs j = xs" by (subst up.simps) auto
    moreover have "above_ok key j xs" using True by (auto simp: above_ok_def)
    ultimately show ?thesis using 1 heap_inv_hole by metis
  next
    case False
    let ?ys = "Swap ?p j xs"
    have j: "0 < j" "?p < j" "?p < length xs" "j < length xs" "key (xs ! j) < key (xs ! ?p)"
      using False "1.prems"(1,2) parent_less[of j] by auto
    have nth: "?ys ! m = (if m = ?p then xs ! j else if m = j then xs ! ?p else xs ! m)"
      if "m < n" for m using Swap_nth j that "1.prems"(2) by (metis order_less_le_trans)
    have ord: "key (xs ! parent m) \<le> key (xs ! m)" if "0 < m" "m < n" "m \<noteq> j" for m
      using "1.prems"(3,4) that unfolding hole_def below_ok_def by metis
    have "hole key n ?p ?ys" unfolding hole_def
    proof (intro conjI allI impI)
      fix m
      assume m: "0 < m \<and> m < n \<and> m \<noteq> ?p \<and> parent m \<noteq> ?p"
      then have "m \<noteq> j" "parent m < n" using parent_less[of m] by auto
      then show "key (?ys ! parent m) \<le> key (?ys ! m)"
        using m ord[of m] "1.prems"(3) j by (auto simp: nth hole_def)
    next
      fix m
      assume m: "0 < ?p \<and> 0 < m \<and> m < n \<and> parent m = ?p"
      have pp: "parent ?p < n" "parent ?p \<noteq> ?p" "parent ?p \<noteq> j"
        using m j "1.prems"(1) parent_less[of ?p] by auto
      have "key (xs ! parent ?p) \<le> key (xs ! ?p)" using ord[of ?p] m j "1.prems"(1) by simp
      moreover have "key (xs ! ?p) \<le> key (xs ! m)" if "m \<noteq> j" using ord[of m] m that by simp
      moreover have "m \<noteq> ?p" using m parent_less[of m] by auto
      ultimately show "key (?ys ! parent ?p) \<le> key (?ys ! m)"
        using pp m by (auto simp: nth)
    qed
    moreover have "below_ok key n ?p ?ys" unfolding below_ok_def
    proof (intro allI impI)
      fix m
      assume m: "0 < m \<and> m < n \<and> parent m = ?p"
      have "m \<noteq> ?p" using m parent_less[of m] by auto
      then show "key (?ys ! ?p) \<le> key (?ys ! m)"
        using m j ord[of m] "1.prems"(1) by (auto simp: nth)
    qed
    moreover have "up key xs j = up key ?ys ?p" using j by (subst up.simps) auto
    ultimately show ?thesis
      using "1.IH"[of] False "1.prems"(1,2) j mset_Swap[OF j(3,4)]
      by (auto simp: Swap_def)
  qed
qed

definition smaller_child :: "('a \<Rightarrow> int) \<Rightarrow> 'a list \<Rightarrow> nat \<Rightarrow> nat \<Rightarrow> nat" where
  "smaller_child key xs i n =
     (if 2 * i + 2 < n \<and> key (xs ! (2 * i + 2)) < key (xs ! (2 * i + 1)) then 2 * i + 2 else 2 * i + 1)"

lemma down_unfold:
  "down key xs i n moved =
     (if n \<le> 2 * i + 1 \<or> \<not> key (xs ! smaller_child key xs i n) < key (xs ! i) then (xs, moved)
      else down key (Swap i (smaller_child key xs i n) xs) (smaller_child key xs i n) n True)"
  by (subst down.simps) (simp add: Let_def smaller_child_def)

text \<open>
  One step of \<^verbatim>\<open>down\<close>: either the element at \<open>i\<close> is not above its children, or it changes
  places with the smaller one and the hole moves there, with the order above it restored.
\<close>

lemma down_step:
  assumes "hole key n i xs" "n \<le> length xs" "2 * i + 1 < n"
    and j_def: "j = smaller_child key xs i n"
  shows "\<not> key (xs ! j) < key (xs ! i) \<Longrightarrow> below_ok key n i xs"
    and "key (xs ! j) < key (xs ! i) \<Longrightarrow> hole key n j (Swap i j xs) \<and> above_ok key j (Swap i j xs)"
    and "j < n" "i < j" "parent j = i"
proof -
  show jn: "j < n" "i < j" using assms(3) by (auto simp: j_def smaller_child_def)
  show pj: "parent j = i" by (auto simp: j_def smaller_child_def parent_def)
  have least: "key (xs ! j) \<le> key (xs ! m)" if "0 < m" "m < n" "parent m = i" for m
  proof -
    have "m = 2 * i + 1 \<or> m = 2 * i + 2" using child_iff[of m i] that by blast
    then show ?thesis using that(2) by (auto simp: j_def smaller_child_def)
  qed
  show "below_ok key n i xs" if "\<not> key (xs ! j) < key (xs ! i)"
    unfolding below_ok_def
  proof (intro allI impI)
    fix m
    assume "0 < m \<and> m < n \<and> parent m = i"
    then have "key (xs ! j) \<le> key (xs ! m)" using least by blast
    with that show "key (xs ! i) \<le> key (xs ! m)" by simp
  qed
  assume less: "key (xs ! j) < key (xs ! i)"
  let ?ys = "Swap i j xs"
  have nth: "?ys ! m = (if m = i then xs ! j else if m = j then xs ! i else xs ! m)" if "m < n" for m
    using Swap_nth[of i xs j m] jn that assms(2) by auto
  have "above_ok key j ?ys" using less jn pj by (auto simp: above_ok_def nth)
  moreover have "hole key n j ?ys" unfolding hole_def
  proof (intro conjI allI impI)
    fix m
    assume m: "0 < m \<and> m < n \<and> m \<noteq> j \<and> parent m \<noteq> j"
    have pm: "parent m < m" using parent_less m by blast
    consider "m = i" | "m \<noteq> i" "parent m = i" | "m \<noteq> i" "parent m \<noteq> i" by blast
    then show "key (?ys ! parent m) \<le> key (?ys ! m)"
    proof cases
      case 1
      then have "key (xs ! parent i) \<le> key (xs ! j)"
        using assms(1) m jn pj unfolding hole_def by auto
      then show ?thesis using 1 m pm jn by (auto simp: nth)
    next
      case 2
      then show ?thesis using least[of m] m jn by (auto simp: nth)
    next
      case 3
      then have "key (xs ! parent m) \<le> key (xs ! m)" using assms(1) m unfolding hole_def by auto
      then show ?thesis using 3 m pm by (auto simp: nth)
    qed
  next
    fix m
    assume m: "0 < j \<and> 0 < m \<and> m < n \<and> parent m = j"
    have "j < m" using m parent_less[of m] by auto
    then have "key (xs ! j) \<le> key (xs ! m)"
      using assms(1) m jn pj unfolding hole_def by auto
    then show "key (?ys ! parent j) \<le> key (?ys ! m)" using m jn pj \<open>j < m\<close> by (auto simp: nth)
  qed
  ultimately show "hole key n j ?ys \<and> above_ok key j ?ys" by blast
qed

lemma down_no_child:
  assumes "n \<le> 2 * i + 1" shows "below_ok key n i xs"
  unfolding below_ok_def
proof (intro allI impI)
  fix m
  assume "0 < m \<and> m < n \<and> parent m = i"
  then have "2 * i + 1 \<le> m" using child_iff[of m i] by auto
  with assms \<open>0 < m \<and> m < n \<and> parent m = i\<close> show "key (xs ! i) \<le> key (xs ! m)" by simp
qed

lemma down_stays_moved: "snd (down key xs i n True)"
proof (induction "n - i" arbitrary: xs i rule: less_induct)
  case less
  let ?j = "smaller_child key xs i n"
  have "n - ?j < n - i" if "\<not> n \<le> 2 * i + 1" using that by (auto simp: smaller_child_def)
  then show ?case using less[of ?j "Swap i ?j xs"] by (subst down_unfold) simp
qed

lemma down_correct:
  assumes "hole key n i xs" "n \<le> length xs" "i < n" "moved \<Longrightarrow> above_ok key i xs"
  shows "mset (fst (down key xs i n moved)) = mset xs \<and>
    (\<forall>m. n \<le> m \<longrightarrow> fst (down key xs i n moved) ! m = xs ! m) \<and>
    (moved \<or> above_ok key i xs \<or> snd (down key xs i n moved) \<longrightarrow> heap_inv key n (fst (down key xs i n moved))) \<and>
    (\<not> snd (down key xs i n moved) \<longrightarrow> fst (down key xs i n moved) = xs \<and> below_ok key n i xs)"
  using assms
proof (induction "n - i" arbitrary: xs i moved rule: less_induct)
  case less
  define j where "j = smaller_child key xs i n"
  have stop: ?case if "down key xs i n moved = (xs, moved)" "below_ok key n i xs"
    using that less.prems heap_inv_hole[OF less.prems(3)] by auto
  show ?case
  proof (cases "n \<le> 2 * i + 1")
    case True
    have "down key xs i n moved = (xs, moved)" by (subst down_unfold) (use True in simp)
    then show ?thesis using stop down_no_child[OF True] by blast
  next
    case False
    then have child: "2 * i + 1 < n" by simp
    note step = down_step[OF less.prems(1,2) child j_def]
    show ?thesis
    proof (cases "key (xs ! j) < key (xs ! i)")
      case less_child: True
      have eq: "down key xs i n moved = down key (Swap i j xs) j n True"
        by (subst down_unfold) (use False less_child in \<open>simp add: j_def\<close>)
      have len: "i < length xs" "j < length xs" using step(3,4) less.prems(2) by linarith+
      have "n - j < n - i" using step(3,4) by linarith
      note IH = less.hyps[OF this, of "Swap i j xs" True]
      have swapped: "mset (Swap i j xs) = mset xs" "\<forall>m. n \<le> m \<longrightarrow> Swap i j xs ! m = xs ! m"
        using mset_Swap[OF len] step(3,4) by (auto simp: Swap_def)
      show ?thesis unfolding eq
        using IH step(2)[OF less_child] step(3) less.prems(2) swapped down_stays_moved[of key "Swap i j xs" j n]
        by simp
    next
      case not_less: False
      have "down key xs i n moved = (xs, moved)"
        by (subst down_unfold) (use False not_less in \<open>simp add: j_def\<close>)
      then show ?thesis using stop step(1)[OF not_less] by blast
    qed
  qed
qed

lemma hole_swap_out:
  assumes "heap_inv key (Suc n) xs" "i < n" "Suc n = length xs"
  shows "hole key n i (Swap i n xs)"
proof -
  have nth: "Swap i n xs ! m = (if m = i then xs ! n else xs ! m)" if "m < n" for m
    using Swap_nth[of i xs n m] that assms(2,3) by auto
  have ord: "key (xs ! parent m) \<le> key (xs ! m)" if "0 < m" "m < n" for m
    using assms(1) that by (simp add: heap_inv_def)
  show ?thesis unfolding hole_def
  proof (intro conjI allI impI)
    fix m
    assume m: "0 < m \<and> m < n \<and> m \<noteq> i \<and> parent m \<noteq> i"
    then show "key (Swap i n xs ! parent m) \<le> key (Swap i n xs ! m)"
      using ord[of m] parent_less[of m] by (auto simp: nth)
  next
    fix m
    assume m: "0 < i \<and> 0 < m \<and> m < n \<and> parent m = i"
    have "key (xs ! parent i) \<le> key (xs ! i)" "key (xs ! i) \<le> key (xs ! m)"
      using ord[of i] ord[of m] m assms(2) by auto
    moreover have "parent i < i" "i < m" using m parent_less[of i] parent_less[of m] by auto
    ultimately show "key (Swap i n xs ! parent i) \<le> key (Swap i n xs ! m)"
      using m assms(2) by (auto simp: nth)
  qed
qed

lemma heap_inv_take: "heap_inv key n xs \<Longrightarrow> n \<le> length xs \<Longrightarrow> heap_inv key n (take n xs)"
proof -
  have "parent m < n" if "0 < m" "m < n" for m using parent_less[OF that(1)] that(2) by linarith
  then show "heap_inv key n xs \<Longrightarrow> n \<le> length xs \<Longrightarrow> heap_inv key n (take n xs)"
    by (simp add: heap_inv_def)
qed

lemma heap_Push_correct:
  assumes "heap_inv key (length xs) xs"
  shows "heap_inv key (Suc (length xs)) (heap_Push key x xs) \<and> mset (heap_Push key x xs) = add_mset x (mset xs)"
proof -
  let ?n = "length xs"
  have ord: "key ((xs @ [x]) ! parent m) \<le> key ((xs @ [x]) ! m)" if "0 < m" "m < ?n" for m
    using assms that parent_less[of m] by (auto simp: heap_inv_def nth_append)
  have no_child: "parent m \<noteq> ?n" if "0 < m" "m < Suc ?n" for m using parent_less[of m] that by auto
  have "hole key (Suc ?n) ?n (xs @ [x])" using ord no_child unfolding hole_def by (metis less_SucE)
  moreover have "below_ok key (Suc ?n) ?n (xs @ [x])" using no_child unfolding below_ok_def by blast
  ultimately show ?thesis using up_correct[of ?n "Suc ?n" "xs @ [x]" key] by (simp add: heap_Push_def)
qed

lemma mset_take_last: "Suc n = length xs \<Longrightarrow> mset xs = add_mset (xs ! n) (mset (take n xs))"
  by (metis append_Nil2 drop_all take_all_iff take_Suc_conv_app_nth le_refl lessI mset_append
      add_mset_add_single mset.simps)

lemma heap_Pop_correct:
  assumes "heap_inv key (length xs) xs" "xs \<noteq> []"
  shows "mset xs = add_mset (fst (heap_Pop key xs)) (mset (snd (heap_Pop key xs))) \<and>
    fst (heap_Pop key xs) = xs ! 0 \<and>
    heap_inv key (length (snd (heap_Pop key xs))) (snd (heap_Pop key xs))"
proof -
  define n where "n = length xs - 1"
  have n: "Suc n = length xs" using assms(2) by (simp add: n_def)
  let ?ys = "fst (down key (Swap 0 n xs) 0 n False)"
  have rm: "heap_Pop key xs = (?ys ! n, take n ?ys)" by (simp add: heap_Pop_def n_def Let_def)
  have len: "length ?ys = length xs" if "mset ?ys = mset xs" using that by (metis size_mset)
  show ?thesis
  proof (cases "n = 0")
    case True
    then have "?ys = xs" using n by (subst down_unfold) (simp add: Swap_def)
    then show ?thesis using True n mset_take_last[OF n]
      by (simp add: rm heap_inv_def)
  next
    case False
    have "hole key n 0 (Swap 0 n xs)" using hole_swap_out[of key n xs 0] assms(1) n False by simp
    moreover have "mset (Swap 0 n xs) = mset xs" using n by (intro mset_Swap) auto
    ultimately have d: "mset ?ys = mset xs" "?ys ! n = Swap 0 n xs ! n" "heap_inv key n ?ys"
      using down_correct[of key n 0 "Swap 0 n xs" False] n False by (auto simp: above_ok_def)
    have "Swap 0 n xs ! n = xs ! 0" using Swap_nth[of 0 xs n n] n assms(2) by auto
    then show ?thesis
      using d len[OF d(1)] n mset_take_last[of n ?ys] heap_inv_take[OF d(3)]
      by (simp add: rm)
  qed
qed

lemma heap_Remove_correct:
  assumes "heap_inv key (length xs) xs" "i < length xs"
  shows "mset xs = add_mset (fst (heap_Remove key i xs)) (mset (snd (heap_Remove key i xs))) \<and>
    fst (heap_Remove key i xs) = xs ! i \<and>
    heap_inv key (length (snd (heap_Remove key i xs))) (snd (heap_Remove key i xs))"
proof -
  define n where "n = length xs - 1"
  have n: "Suc n = length xs" using assms(2) by (simp add: n_def)
  define ys where "ys = (if n = i then xs else let (ys, moved) = down key (Swap i n xs) i n False
                     in if moved then ys else up key ys i)"
  have rm: "heap_Remove key i xs = (ys ! n, take n ys)"
    by (simp add: heap_Remove_def ys_def n_def Let_def)
  have "mset ys = mset xs \<and> ys ! n = xs ! i \<and> heap_inv key n ys"
  proof (cases "n = i")
    case True
    then show ?thesis using assms(1) n by (auto simp: ys_def heap_inv_def)
  next
    case False
    then have i: "i < n" using assms(2) n by simp
    obtain zs moved where zs: "down key (Swap i n xs) i n False = (zs, moved)" by fastforce
    note h = hole_swap_out[OF assms(1)[folded n] i n]
    note d = down_correct[OF h, of False, unfolded zs]
    have sw: "mset (Swap i n xs) = mset xs" "Swap i n xs ! n = xs ! i"
      using mset_Swap[of i xs n] i n by (auto simp: Swap_nth)
    show ?thesis
    proof (cases moved)
      case True
      then show ?thesis using d zs sw i n False by (simp add: ys_def)
    next
      case not_moved: False
      then have "zs = Swap i n xs" "below_ok key n i (Swap i n xs)" using d i n by auto
      then show ?thesis
        using up_correct[OF i _ h] zs sw i n False not_moved by (simp add: ys_def)
    qed
  qed
  then have ys: "mset ys = mset xs" "ys ! n = xs ! i" "heap_inv key n ys" by blast+
  have len: "Suc n = length ys" using ys(1) n by (metis size_mset)
  then have "heap_inv key n (take n ys)" using heap_inv_take[OF ys(3)] by simp
  moreover have "mset xs = add_mset (ys ! n) (mset (take n ys))"
    unfolding ys(1)[symmetric] by (rule mset_take_last[OF len])
  ultimately show ?thesis using ys(2) len by (simp add: rm)
qed

lemma heap_top_least:
  assumes "heap_inv key (length xs) xs" "x \<in> set xs" shows "key (xs ! 0) \<le> key x"
proof -
  have "key (xs ! 0) \<le> key (xs ! m)" if "m < length xs" for m
    using that
  proof (induction m rule: less_induct)
    case (less m)
    show ?case
    proof (cases "m = 0")
      case False
      then have "key (xs ! 0) \<le> key (xs ! parent m)" "key (xs ! parent m) \<le> key (xs ! m)"
        using less parent_less[of m] assms(1) by (auto simp: heap_inv_def)
      then show ?thesis by linarith
    qed simp
  qed
  then show ?thesis using assms(2) by (auto simp: in_set_conv_nth)
qed

section \<open>The interface of a priority queue\<close>

fun drain :: "('q \<Rightarrow> 'a \<times> 'q) \<Rightarrow> nat \<Rightarrow> 'q \<Rightarrow> 'a list" where
  "drain pop 0 q = []"
| "drain pop (Suc n) q = (let (x, q) = pop q in x # drain pop n q)"

locale priority_queue =
  fixes push :: "'a \<Rightarrow> 'q \<Rightarrow> 'q" and pop :: "'q \<Rightarrow> 'a \<times> 'q" and top :: "'q \<Rightarrow> 'a"
    and elems :: "'q \<Rightarrow> 'a multiset" and inv :: "'q \<Rightarrow> bool" and key :: "'a \<Rightarrow> int"
  assumes push_inv: "inv q \<Longrightarrow> inv (push x q)"
    and push_elems: "inv q \<Longrightarrow> elems (push x q) = add_mset x (elems q)"
    and pop_inv: "inv q \<Longrightarrow> elems q \<noteq> {#} \<Longrightarrow> inv (snd (pop q))"
    and pop_elems: "inv q \<Longrightarrow> elems q \<noteq> {#} \<Longrightarrow> elems q = add_mset (fst (pop q)) (elems (snd (pop q)))"
    and pop_top: "inv q \<Longrightarrow> elems q \<noteq> {#} \<Longrightarrow> fst (pop q) = top q"
    and top_least: "inv q \<Longrightarrow> x \<in># elems q \<Longrightarrow> key (top q) \<le> key x"
begin

text \<open>Pushing a batch and draining the queue gives everything back, in the order of the keys.\<close>

lemma fold_push: "inv q \<Longrightarrow> inv (fold push xs q) \<and> elems (fold push xs q) = elems q + mset xs"
  by (induction xs arbitrary: q) (auto simp: push_inv push_elems)

lemma drain_sorted:
  "inv q \<Longrightarrow> size (elems q) = n \<Longrightarrow>
   mset (drain pop n q) = elems q \<and> sorted (map key (drain pop n q))"
proof (induction n arbitrary: q)
  case 0
  then show ?case by simp
next
  case (Suc n)
  then have ne: "elems q \<noteq> {#}" by auto
  obtain x q' where pop: "pop q = (x, q')" by fastforce
  have q': "inv q'" "elems q = add_mset x (elems q')"
    using pop_inv[OF Suc.prems(1) ne] pop_elems[OF Suc.prems(1) ne] by (simp_all add: pop)
  then have IH: "mset (drain pop n q') = elems q'" "sorted (map key (drain pop n q'))"
    using Suc by auto
  have "key x \<le> key y" if "y \<in> set (drain pop n q')" for y
  proof -
    have "y \<in># elems q" using that IH(1) q'(2) by (metis add_mset_add_single set_mset_mset union_iff)
    then show ?thesis using top_least[OF Suc.prems(1)] pop_top[OF Suc.prems(1) ne] by (simp add: pop)
  qed
  then show ?case using IH q'(2) by (auto simp: pop)
qed

end

interpretation go_heap: priority_queue "heap_Push key" "heap_Pop key" "\<lambda>xs. xs ! 0" mset
    "\<lambda>xs. heap_inv key (length xs) xs" key for key
proof (unfold_locales, goal_cases)
  case (1 q x)
  then show ?case using heap_Push_correct[of key q x] mset_eq_length[of "heap_Push key x q" "x # q"] by simp
next
  case (2 q x)
  then show ?case using heap_Push_correct[of key q x] by simp
next
  case (3 q)
  then show ?case using heap_Pop_correct[of key q] by simp
next
  case (4 q)
  then show ?case using heap_Pop_correct[of key q] by simp
next
  case (5 q)
  then show ?case using heap_Pop_correct[of key q] by simp
next
  case (6 q x)
  then show ?case using heap_top_least[of key q x] by simp
qed

end
