(* ===== verification/Scheduler.thy ===== *)
theory Scheduler
  imports GoHeap ServiceGroup
begin

text \<open>
  \<^verbatim>\<open>internal/manager/scheduler\<close>: one scheduler per check interval keeps its services in a heap
  ordered by the time of their next check, and a loop goroutine hands the service on top to
  \<^verbatim>\<open>OnTick\<close> when its time has come. The clock and the random generator are inputs of the
  operations; the loop and the calls of other goroutines between its steps are the transition
  relation \<open>sched_step\<close>.
\<close>

section \<open>State and operations\<close>

definition OFFSETS_PER_SECOND :: int where
  "OFFSETS_PER_SECOND = 2"

definition OFFSET :: Duration where
  "OFFSET = quot Second OFFSETS_PER_SECOND"

record ScheduledService =
  sd_service :: sref
  sd_nextCheckTime :: int
  sd_shouldReSchedule :: bool

record Scheduler =
  sc_interval :: Duration
  sc_maxOffSets :: int
  sc_nextOffset :: int
  sc_heap :: "ScheduledService list"
  sc_jitterRange :: Duration
  sc_stopped :: bool
  sc_isRunning :: bool

text \<open>\<^verbatim>\<open>Duration.Seconds\<close>, and the remainder of Go, which has the sign of the dividend.\<close>

definition go_rem :: "int \<Rightarrow> int \<Rightarrow> int" where
  "go_rem a b = a - b * quot a b"

definition Seconds :: "Duration \<Rightarrow> f64" where
  "Seconds d = f64_add (f64_of_int (quot d Second)) (f64_div (f64_of_int (go_rem d Second)) (Fin 1000000000))"

definition NewScheduler :: "NetEnv \<Rightarrow> Duration \<Rightarrow> Scheduler" where
  "NewScheduler env interval = \<lparr>sc_interval = interval,
     sc_maxOffSets = to_int64 (f64_overflow env) (f64_mul (Seconds interval) (Fin 2)),
     sc_nextOffset = 0, sc_heap = [],
     sc_jitterRange = to_int64 (f64_overflow env) (f64_mul (f64_of_int interval) (f64_round (1 / 10))),
     sc_stopped = False, sc_isRunning = False\<rparr>"

text \<open>\<open>u\<close> is what \<^verbatim>\<open>rand.Float64\<close> returns, a number from 0 to below 1.\<close>

definition newCheckInterval :: "NetEnv \<Rightarrow> rat \<Rightarrow> Scheduler \<Rightarrow> Duration" where
  "newCheckInterval env u s =
     (let jitter = to_int64 (f64_overflow env)
            (f64_mul (f64_add (f64_mul (Fin u) (Fin 2)) (Fin (- 1))) (f64_of_int (sc_jitterRange s)))
      in Duration_Round (sc_interval s + jitter) (quot Second 10))"

definition startLoop :: "Scheduler \<Rightarrow> Scheduler" where
  "startLoop s = (if sc_isRunning s then s else s\<lparr>sc_isRunning := True\<rparr>)"

definition ScheduleService :: "NetEnv \<Rightarrow> int \<Rightarrow> rat \<Rightarrow> sref \<Rightarrow> Scheduler \<Rightarrow> Scheduler res" where
  "ScheduleService env now u svc s =
     (let offset = OFFSET * sc_nextOffset s;
          scheduled = \<lparr>sd_service = svc, sd_nextCheckTime = now + offset + newCheckInterval env u s,
                       sd_shouldReSchedule = True\<rparr>
      in if sc_maxOffSets s = 0 then Panic DivideByZero
         else
           let s = s\<lparr>sc_nextOffset := go_rem (sc_nextOffset s + 1) (sc_maxOffSets s)\<rparr>;
               s = s\<lparr>sc_heap := heap_Push sd_nextCheckTime scheduled (sc_heap s)\<rparr>
           in Ok (if length (sc_heap s) = 1 then startLoop s else s))"

definition sched_RemoveService :: "services \<Rightarrow> sref \<Rightarrow> Scheduler \<Rightarrow> bool \<times> Scheduler" where
  "sched_RemoveService h svc s =
     (case IndexFunc (\<lambda>x. svc_id (h (sd_service x)) = svc_id (h svc)) (sc_heap s) of
        None \<Rightarrow> (sc_heap s = [], s)
      | Some idx \<Rightarrow>
          if idx = 0 then
            let s = s\<lparr>sc_heap := (sc_heap s)[0 := (sc_heap s ! 0)\<lparr>sd_shouldReSchedule := False\<rparr>]\<rparr>
            in if length (sc_heap s) = 1 then (True, s) else (sc_heap s = [], s)
          else
            let s = s\<lparr>sc_heap := snd (heap_Remove sd_nextCheckTime idx (sc_heap s))\<rparr>
            in (sc_heap s = [], s))"

definition reSchedule :: "NetEnv \<Rightarrow> int \<Rightarrow> rat \<Rightarrow> Scheduler \<Rightarrow> Scheduler res" where
  "reSchedule env now u s =
     (if sc_heap s = [] then Panic IndexOutOfRange
      else
        let (top, rest) = heap_Pop sd_nextCheckTime (sc_heap s); s = s\<lparr>sc_heap := rest\<rparr>
        in if \<not> sd_shouldReSchedule top then Ok s
           else
             let top = top\<lparr>sd_nextCheckTime := now + newCheckInterval env u s\<rparr>;
                 s = s\<lparr>sc_heap := heap_Push sd_nextCheckTime top (sc_heap s)\<rparr>
             in Ok (if sc_heap s = [] then startLoop s else s))"

definition sched_Stop :: "Scheduler \<Rightarrow> Scheduler res" where
  "sched_Stop s = (if sc_stopped s then Panic CloseOfClosed else Ok (s\<lparr>sc_stopped := True\<rparr>))"

section \<open>The loop\<close>

text \<open>
  Where the loop goroutine is: not running; at the top of its \<^verbatim>\<open>for\<close>; with a service peeked and
  the mutex released, waiting for its check time; after \<^verbatim>\<open>OnTick\<close>, before \<^verbatim>\<open>reSchedule\<close>;
  returned, before the deferred function has cleared \<^verbatim>\<open>isRunning\<close>.
\<close>

datatype loop_pc = NotRunning | LoopTop | Peeked ScheduledService | Ticked | Returned

record sched_sys =
  sy_sched :: Scheduler
  sy_pc :: loop_pc
  sy_ticks :: "sref list"

definition spawned :: "Scheduler \<Rightarrow> Scheduler \<Rightarrow> loop_pc \<Rightarrow> loop_pc" where
  "spawned s s' pc = (if \<not> sc_isRunning s \<and> sc_isRunning s' then LoopTop else pc)"

inductive sched_step :: "NetEnv \<Rightarrow> services \<Rightarrow> sched_sys \<Rightarrow> sched_sys \<Rightarrow> bool" for env h where
  schedule: "ScheduleService env now u svc (sy_sched y) = Ok s' \<Longrightarrow>
    sched_step env h y (y\<lparr>sy_sched := s', sy_pc := spawned (sy_sched y) s' (sy_pc y)\<rparr>)"
| remove: "sched_step env h y (y\<lparr>sy_sched := snd (sched_RemoveService h svc (sy_sched y))\<rparr>)"
| stop: "sched_Stop (sy_sched y) = Ok s' \<Longrightarrow> sched_step env h y (y\<lparr>sy_sched := s'\<rparr>)"
| stopped: "sy_pc y \<in> {LoopTop, Ticked} \<or> (\<exists>x. sy_pc y = Peeked x) \<Longrightarrow> sc_stopped (sy_sched y) \<Longrightarrow>
    sched_step env h y (y\<lparr>sy_pc := Returned\<rparr>)"
| empty: "sy_pc y = LoopTop \<Longrightarrow> sc_heap (sy_sched y) = [] \<Longrightarrow> sched_step env h y (y\<lparr>sy_pc := Returned\<rparr>)"
| peek: "sy_pc y = LoopTop \<Longrightarrow> sc_heap (sy_sched y) = x # xs \<Longrightarrow> sched_step env h y (y\<lparr>sy_pc := Peeked x\<rparr>)"
| tick: "sy_pc y = Peeked x \<Longrightarrow>
    sched_step env h y (y\<lparr>sy_pc := Ticked, sy_ticks := sy_ticks y @ [sd_service x]\<rparr>)"
| again: "sy_pc y = Ticked \<Longrightarrow> reSchedule env now u (sy_sched y) = Ok s' \<Longrightarrow>
    sched_step env h y (y\<lparr>sy_sched := s', sy_pc := LoopTop\<rparr>)"
| exit: "sy_pc y = Returned \<Longrightarrow>
    sched_step env h y (y\<lparr>sy_sched := (sy_sched y)\<lparr>sc_isRunning := False\<rparr>, sy_pc := NotRunning\<rparr>)"

inductive_cases sched_stepE: "sched_step env h y y'"

definition sched_start :: "NetEnv \<Rightarrow> Duration \<Rightarrow> sched_sys" where
  "sched_start env interval = \<lparr>sy_sched = NewScheduler env interval, sy_pc = NotRunning, sy_ticks = []\<rparr>"

abbreviation sched_steps :: "NetEnv \<Rightarrow> services \<Rightarrow> sched_sys \<Rightarrow> sched_sys \<Rightarrow> bool" where
  "sched_steps env h \<equiv> (sched_step env h)\<^sup>*\<^sup>*"

section \<open>Invariants\<close>

definition sched_inv :: "sched_sys \<Rightarrow> bool" where
  "sched_inv y \<longleftrightarrow> heap_inv sd_nextCheckTime (length (sc_heap (sy_sched y))) (sc_heap (sy_sched y)) \<and>
     (sc_isRunning (sy_sched y) \<longleftrightarrow> sy_pc y \<noteq> NotRunning) \<and>
     (sy_pc y = Ticked \<or> (\<exists>x. sy_pc y = Peeked x) \<longrightarrow> sc_heap (sy_sched y) \<noteq> [])"

lemma startLoop_simps [simp]:
  "sc_heap (startLoop s) = sc_heap s" "sc_stopped (startLoop s) = sc_stopped s"
  "sc_isRunning (startLoop s)" "sc_interval (startLoop s) = sc_interval s"
  "sc_maxOffSets (startLoop s) = sc_maxOffSets s" "sc_nextOffset (startLoop s) = sc_nextOffset s"
  by (simp_all add: startLoop_def)

lemma heap_Push_not_Nil [simp]: "heap_inv key (length q) q \<Longrightarrow> heap_Push key x q \<noteq> []"
  using go_heap.push_elems[of key q x] by auto

lemma ScheduleService_Ok:
  assumes "ScheduleService env now u svc s = Ok s'"
  shows "sc_heap s' = heap_Push sd_nextCheckTime \<lparr>sd_service = svc,
      sd_nextCheckTime = now + OFFSET * sc_nextOffset s + newCheckInterval env u s,
      sd_shouldReSchedule = True\<rparr> (sc_heap s)"
    "sc_isRunning s' \<longleftrightarrow> sc_isRunning s \<or> length (sc_heap s') = 1"
    "sc_stopped s' = sc_stopped s" "sc_interval s' = sc_interval s" "sc_maxOffSets s' = sc_maxOffSets s"
    "sc_nextOffset s' = go_rem (sc_nextOffset s + 1) (sc_maxOffSets s)"
  using assms by (auto simp: ScheduleService_def Let_def startLoop_def split: if_splits)

lemma RemoveService_heap:
  assumes "heap_inv sd_nextCheckTime (length (sc_heap s)) (sc_heap s)"
  shows "heap_inv sd_nextCheckTime (length (sc_heap (snd (sched_RemoveService h svc s))))
      (sc_heap (snd (sched_RemoveService h svc s)))"
    "sc_isRunning (snd (sched_RemoveService h svc s)) = sc_isRunning s"
    "sc_heap (snd (sched_RemoveService h svc s)) = [] \<longleftrightarrow> sc_heap s = []"
proof -
  let ?s = "snd (sched_RemoveService h svc s)"
  have "heap_inv sd_nextCheckTime (length (sc_heap ?s)) (sc_heap ?s) \<and> sc_isRunning ?s = sc_isRunning s \<and>
    (sc_heap ?s = [] \<longleftrightarrow> sc_heap s = [])"
  proof (cases "IndexFunc (\<lambda>x. svc_id (h (sd_service x)) = svc_id (h svc)) (sc_heap s)")
    case None
    then show ?thesis using assms by (simp add: sched_RemoveService_def)
  next
    case (Some i)
    then have i: "i < length (sc_heap s)" by (simp add: IndexFunc_Some)
    show ?thesis
    proof (cases "i = 0")
      case True
      have "heap_inv sd_nextCheckTime (length (sc_heap s))
          ((sc_heap s)[0 := (sc_heap s ! 0)\<lparr>sd_shouldReSchedule := False\<rparr>])"
        using assms i True unfolding heap_inv_def by (auto simp: nth_list_update)
      then show ?thesis using Some True i by (auto simp: sched_RemoveService_def Let_def)
    next
      case False
      note rm = heap_Remove_correct[OF assms i]
      have "size (mset (sc_heap s)) = Suc (size (mset (snd (heap_Remove sd_nextCheckTime i (sc_heap s)))))"
        using rm by (metis size_add_mset)
      then have "snd (heap_Remove sd_nextCheckTime i (sc_heap s)) \<noteq> []" using i False by auto
      then show ?thesis using rm Some False i by (auto simp: sched_RemoveService_def Let_def)
    qed
  qed
  then show "heap_inv sd_nextCheckTime (length (sc_heap ?s)) (sc_heap ?s)"
    "sc_isRunning ?s = sc_isRunning s" "sc_heap ?s = [] \<longleftrightarrow> sc_heap s = []" by blast+
qed

lemma reSchedule_Ok:
  assumes "heap_inv sd_nextCheckTime (length (sc_heap s)) (sc_heap s)" "reSchedule env now u s = Ok s'"
  shows "heap_inv sd_nextCheckTime (length (sc_heap s')) (sc_heap s')" "sc_isRunning s' = sc_isRunning s"
proof -
  obtain top rest where pop: "heap_Pop sd_nextCheckTime (sc_heap s) = (top, rest)" by fastforce
  have ne: "mset (sc_heap s) \<noteq> {#}" using assms(2) by (auto simp: reSchedule_def)
  have rest: "heap_inv sd_nextCheckTime (length rest) rest"
    using go_heap.pop_inv[OF assms(1) ne] by (simp add: pop)
  show "heap_inv sd_nextCheckTime (length (sc_heap s')) (sc_heap s')" "sc_isRunning s' = sc_isRunning s"
    using assms(2) ne pop rest go_heap.push_inv[OF rest]
    by (auto simp: reSchedule_def Let_def split: if_splits)
qed

lemma sched_step_inv:
  assumes "sched_step env h y y'" "sched_inv y" shows "sched_inv y'"
  using assms
proof (cases rule: sched_step.cases)
  case (schedule now u svc s')
  note ok = ScheduleService_Ok[OF schedule(2)]
  have heap: "heap_inv sd_nextCheckTime (length (sc_heap (sy_sched y))) (sc_heap (sy_sched y))"
    using assms(2) by (simp add: sched_inv_def)
  show ?thesis
    using assms(2) go_heap.push_inv[OF heap] heap_Push_not_Nil[OF heap] ok
    by (auto simp: sched_inv_def schedule(1) spawned_def)
next
  case (remove svc)
  then show ?thesis using assms(2) RemoveService_heap[of "sy_sched y" h svc] by (auto simp: sched_inv_def)
next
  case (stop s')
  then show ?thesis using assms(2) by (auto simp: sched_inv_def sched_Stop_def split: if_splits)
next
  case (again now u s')
  then show ?thesis using assms(2) reSchedule_Ok[of "sy_sched y" env now u s'] by (auto simp: sched_inv_def)
qed (auto simp: sched_inv_def)

lemma sched_start_inv: "sched_inv (sched_start env interval)"
  by (simp add: sched_inv_def sched_start_def NewScheduler_def heap_inv_def)

lemma sched_reach_inv: "sched_steps env h (sched_start env interval) y \<Longrightarrow> sched_inv y"
  by (induction rule: rtranclp_induct) (auto intro: sched_start_inv sched_step_inv)

section \<open>Properties\<close>


definition demo_env :: NetEnv where
  "demo_env = \<lparr>net_ParseIP = Some, net_ResolveTCPAddr = (\<lambda>a. Some \<lparr>ta_IP = a, ta_String = a\<rparr>), f64_overflow = min_int64\<rparr>"


lemma stranded_step:
  assumes "sched_step env h y y'" "sy_pc y = NotRunning" "sc_heap (sy_sched y) \<noteq> []" "sched_inv y"
  shows "sy_pc y' = NotRunning \<and> sc_heap (sy_sched y') \<noteq> [] \<and> sy_ticks y' = sy_ticks y"
  using assms(1)
proof (cases rule: sched_step.cases)
  case (schedule now u svc s')
  have heap: "heap_inv sd_nextCheckTime (length (sc_heap (sy_sched y))) (sc_heap (sy_sched y))"
    using assms(4) by (simp add: sched_inv_def)
  let ?x = "\<lparr>sd_service = svc, sd_nextCheckTime = now + OFFSET * sc_nextOffset (sy_sched y) +
      newCheckInterval env u (sy_sched y), sd_shouldReSchedule = True\<rparr>"
  have "length (heap_Push sd_nextCheckTime ?x (sc_heap (sy_sched y))) = Suc (length (sc_heap (sy_sched y)))"
    using go_heap.push_elems[OF heap, of ?x] mset_eq_length[of _ "?x # sc_heap (sy_sched y)"] by simp
  then have "\<not> length (sc_heap s') = 1" using ScheduleService_Ok(1)[OF schedule(2)] assms(3) by simp
  then show ?thesis
    using ScheduleService_Ok(1,2)[OF schedule(2)] heap_Push_not_Nil[OF heap] assms(2,4)
    by (auto simp: schedule(1) spawned_def sched_inv_def)
next
  case (remove svc)
  then show ?thesis
    using assms(2-4) RemoveService_heap(3)[of "sy_sched y" h svc] by (simp add: sched_inv_def)
qed (use assms(2,3) in \<open>auto simp: sched_Stop_def split: if_splits\<close>)

lemma stranded_steps:
  assumes "sched_steps env h y y'" "sy_pc y = NotRunning" "sc_heap (sy_sched y) \<noteq> []" "sched_inv y"
  shows "sy_pc y' = NotRunning \<and> sc_heap (sy_sched y') \<noteq> [] \<and> sy_ticks y' = sy_ticks y \<and> sched_inv y'"
  using assms(1)
proof (induction rule: rtranclp_induct)
  case base
  then show ?case using assms(2-4) by simp
next
  case (step y1 y2)
  then show ?case using stranded_step[of env h y1 y2] sched_step_inv[of env h y1 y2] by simp
qed

text \<open>
  C30. The lost wake-up. When the loop has found its heap empty and returned, but has not yet cleared
  \<^verbatim>\<open>isRunning\<close>, a service scheduled in between starts no new loop; the loop then ends, and from there
  on no sequence of calls ever checks a service of this scheduler again.
\<close>

theorem lost_wakeup_is_permanent:
  assumes "sched_inv y" "sy_pc y = Returned" "sc_heap (sy_sched y) = []"
    and "ScheduleService env now u svc (sy_sched y) = Ok s'"
  shows "\<exists>y1. sched_steps env h y y1 \<and> sc_heap (sy_sched y1) \<noteq> [] \<and> sy_pc y1 = NotRunning \<and>
    (\<forall>y2. sched_steps env h y1 y2 \<longrightarrow> sy_pc y2 = NotRunning \<and> sy_ticks y2 = sy_ticks y)"
proof -
  let ?y0 = "y\<lparr>sy_sched := s', sy_pc := spawned (sy_sched y) s' (sy_pc y)\<rparr>"
  let ?y1 = "?y0\<lparr>sy_sched := s'\<lparr>sc_isRunning := False\<rparr>, sy_pc := NotRunning\<rparr>"
  have run: "sc_isRunning (sy_sched y)" using assms(1,2) by (simp add: sched_inv_def)
  have s0: "sched_step env h y ?y0" by (rule sched_step.schedule[OF assms(4)])
  have pc: "sy_pc ?y0 = Returned" using run assms(2) by (simp add: spawned_def)
  have s1: "sched_step env h ?y0 ?y1" using sched_step.exit[of ?y0 env h] pc by simp
  have inv: "sched_inv ?y1" using sched_step_inv[OF s1 sched_step_inv[OF s0 assms(1)]] .
  have ne: "sc_heap (sy_sched ?y1) \<noteq> []"
    using ScheduleService_Ok(1)[OF assms(4)] assms(3) by (simp add: heap_Push_def up.simps parent_def)
  have "sched_steps env h y ?y1" using s0 s1 by (meson converse_rtranclp_into_rtranclp r_into_rtranclp)
  moreover have "\<forall>y2. sched_steps env h ?y1 y2 \<longrightarrow> sy_pc y2 = NotRunning \<and> sy_ticks y2 = sy_ticks y"
    using stranded_steps[of env h ?y1] inv ne by auto
  ultimately show ?thesis using ne by (intro exI[of _ ?y1]) simp
qed

definition drained :: sched_sys where
  "drained = \<lparr>sy_sched = \<lparr>sc_interval = 5 * Second, sc_maxOffSets = 10, sc_nextOffset = 1, sc_heap = [],
     sc_jitterRange = Second div 2, sc_stopped = False, sc_isRunning = True\<rparr>, sy_pc = Returned, sy_ticks = [0]\<rparr>"

theorem lost_wakeup_is_permanent_witness:
  "\<exists>y1. sched_steps demo_env (\<lambda>r. blank_service) drained y1 \<and> sc_heap (sy_sched y1) \<noteq> [] \<and>
     (\<forall>y2. sched_steps demo_env (\<lambda>r. blank_service) y1 y2 \<longrightarrow> sy_ticks y2 = [0])"
proof -
  have "\<exists>s'. ScheduleService demo_env 0 0 0 (sy_sched drained) = Ok s'"
    by (simp add: ScheduleService_def drained_def Let_def)
  then obtain s' where "ScheduleService demo_env 0 0 0 (sy_sched drained) = Ok s'" by blast
  moreover have "sched_inv drained" "sy_pc drained = Returned" "sc_heap (sy_sched drained) = []"
    by (simp_all add: drained_def sched_inv_def heap_inv_def)
  moreover have "sy_ticks drained = [0]" by (simp add: drained_def)
  ultimately show ?thesis
    using lost_wakeup_is_permanent[of drained demo_env 0 0 0 s' "\<lambda>r. blank_service"] by auto
qed

subsection \<open>Offsets and jitter\<close>

lemma Seconds_between:
  assumes "0 \<le> i" "i \<le> 2 ^ 52" "i div Second \<le> m" "\<bar>lo\<bar> \<le> 2 ^ 53" "\<bar>hi\<bar> \<le> 2 ^ 53" "t \<le> 1000"
    and "of_int lo / 2 ^ t \<le> (of_int (i mod Second) / 1000000000 :: rat)"
    and "(of_int (i mod Second) / 1000000000 :: rat) \<le> of_int hi / 2 ^ t"
  shows "\<exists>r. f64_div (f64_of_int (go_rem i Second)) (Fin 1000000000) = Fin r \<and>
      of_int lo / 2 ^ t \<le> r \<and> r \<le> of_int hi / 2 ^ t"
proof -
  have rem: "go_rem i Second = i mod Second"
    using assms(1) by (simp add: go_rem_def minus_div_mult_eq_mod mult.commute minus_mult_div_eq_mod)
  have "0 \<le> i mod Second" "i mod Second < Second" by simp_all
  then have "f64_of_int (go_rem i Second) = Fin (of_int (i mod Second))"
    unfolding rem by (intro f64_of_int_exact) simp
  then show ?thesis using f64_round_between[OF assms(7,8,4-6)] by simp
qed

text \<open>\<^verbatim>\<open>maxOffSets\<close> is zero exactly for an interval below half a second.\<close>

lemma maxOffSets_zero_iff:
  assumes "0 \<le> i" "i \<le> 2 ^ 52"
  shows "sc_maxOffSets (NewScheduler env i) = 0 \<longleftrightarrow> i < 500 * Millisecond"
    and "0 \<le> sc_maxOffSets (NewScheduler env i)"
proof -
  let ?ns = "i mod Second" and ?s = "i div Second"
  have ns: "0 \<le> ?ns" "?ns < Second" by simp_all
  have s: "0 \<le> ?s" "?s \<le> 2 ^ 23" using assms(1) zdiv_mono1[OF assms(2), of Second] by simp_all
  have sec: "f64_of_int (quot i Second) = Fin (of_int ?s)"
    using assms(1) s by (simp add: f64_of_int_exact)
  have split: "i = ?s * Second + ?ns" by simp
  have "(sc_maxOffSets (NewScheduler env i) = 0 \<longleftrightarrow> i < 500 * Millisecond) \<and> 0 \<le> sc_maxOffSets (NewScheduler env i)"
  proof (cases "i < 500 * Millisecond")
    case True
    then have s0: "?s = 0" and small: "?ns \<le> 499999999" using assms(1) by simp_all
    have "(of_int ?ns :: rat) \<le> of_int 499999999" using small by (simp only: of_int_le_iff)
    then have "(of_int ?ns / 1000000000 :: rat) \<le> of_int (2 ^ 40 - 1) / 2 ^ 41" by simp
    then obtain r where r: "f64_div (f64_of_int (go_rem i Second)) (Fin 1000000000) = Fin r"
      "0 \<le> r" "r \<le> of_int (2 ^ 40 - 1) / 2 ^ 41"
      using Seconds_between[of i 0 0 "2 ^ 40 - 1" 41] assms ns s0 by auto
    obtain r' where r': "f64_round r = Fin r'" "0 \<le> r'" "r' \<le> of_int (2 ^ 40 - 1) / 2 ^ 41"
      using f64_round_between[of 0 41 r "2 ^ 40 - 1"] r(2,3) by auto
    obtain r'' where r'': "f64_round (r' * 2) = Fin r''" "0 \<le> r''" "r'' \<le> of_int (2 ^ 40 - 1) / 2 ^ 40"
      using f64_round_between[of 0 40 "r' * 2" "2 ^ 40 - 1"] r'(2,3) by auto
    have "\<lfloor>r''\<rfloor> = 0" using r''(2,3) by (intro floor_unique) (simp_all add: divide_le_eq le_less_trans)
    then show ?thesis
      using True r''(1,2) r(1) r'(1) sec s0 by (simp add: NewScheduler_def Seconds_def Let_def)
  next
    case False
    have "(0 :: rat) \<le> of_int ?ns / 1000000000" "of_int ?ns / 1000000000 \<le> (1 :: rat)"
      using ns by (simp_all add: divide_le_eq)
    then obtain r where r: "f64_div (f64_of_int (go_rem i Second)) (Fin 1000000000) = Fin r" "0 \<le> r" "r \<le> 1"
      "?s = 0 \<longrightarrow> 1 / 2 \<le> r"
    proof (cases "?s = 0")
      case True
      then have "500 * Millisecond \<le> ?ns" using False split by linarith
      then have "(1 / 2 :: rat) \<le> of_int ?ns / 1000000000"
        by (simp add: le_divide_eq)
      then show ?thesis
        using that Seconds_between[of i "?s" 1 2 1] assms \<open>of_int ?ns / 1000000000 \<le> (1 :: rat)\<close> by auto
    next
      case False
      then show ?thesis
        using that Seconds_between[of i "?s" 0 1 0] assms \<open>of_int ?ns / 1000000000 \<le> (1 :: rat)\<close>
          \<open>(0 :: rat) \<le> of_int ?ns / 1000000000\<close> by auto
    qed
    define lo where "lo = (if ?s = 0 then 1 else 2 * ?s)"
    have lo: "of_int lo / 2 ^ 1 \<le> of_int ?s + r" "1 \<le> lo" "lo \<le> 2 * (?s + 1)"
      using r s by (auto simp: lo_def)
    have "of_int ?s + r \<le> of_int (2 * (?s + 1)) / 2 ^ 1" using r(3) by simp
    then obtain r' where r': "f64_round (of_int ?s + r) = Fin r'" "of_int lo / 2 ^ 1 \<le> r'"
      "r' \<le> of_int (2 * (?s + 1)) / 2 ^ 1"
      using f64_round_between[OF lo(1), of "2 * (?s + 1)"] lo s by auto
    have "of_int lo \<le> r' * 2" "r' * 2 \<le> of_int (2 * (?s + 1))" using r'(2,3) by simp_all
    then obtain r'' where r'': "f64_round (r' * 2) = Fin r''" "of_int lo \<le> r''" "r'' \<le> of_int (2 * (?s + 1))"
      using f64_round_between_int[of lo "r' * 2" "2 * (?s + 1)"] lo s by auto
    have "lo \<le> to_int64 (f64_overflow env) (Fin r'')"
      using to_int64_between[OF r''(2,3)] lo s by auto
    moreover have "sc_maxOffSets (NewScheduler env i) = to_int64 (f64_overflow env) (Fin r'')"
      using r''(1) r(1) r'(1) sec by (simp add: NewScheduler_def Seconds_def del: to_int64.simps)
    ultimately show ?thesis using lo False by simp
  qed
  then show "sc_maxOffSets (NewScheduler env i) = 0 \<longleftrightarrow> i < 500 * Millisecond"
    "0 \<le> sc_maxOffSets (NewScheduler env i)" by blast+
qed

text \<open>
  A fresh scheduler accepts a service exactly when its interval is at least half a second;
  below that \<^verbatim>\<open>maxOffSets\<close> is zero and \<^verbatim>\<open>ScheduleService\<close> divides by it.
\<close>

theorem ScheduleService_needs_half_a_second:
  assumes "0 \<le> i" "i \<le> 2 ^ 52"
  shows "ScheduleService env now u svc (NewScheduler env i) = Panic DivideByZero \<longleftrightarrow> i < 500 * Millisecond"
  unfolding ScheduleService_def Let_def using maxOffSets_zero_iff(1)[OF assms, of env] by auto

theorem ScheduleService_needs_half_a_second_witness:
  "ScheduleService demo_env 0 0 0 (NewScheduler demo_env (400 * Millisecond)) = Panic DivideByZero"
  using ScheduleService_needs_half_a_second[of "400 * Millisecond" demo_env 0 0 0] by simp

lemma NewScheduler_interval: "sc_interval (NewScheduler env i) = i"
  by (simp add: NewScheduler_def)

lemma f64_tenth:
  "\<exists>q. f64_round (1 / 10) = Fin q \<and> 0 \<le> q \<and> q \<le> of_int 112589990684263 / 2 ^ 50"
  using f64_round_between[of 0 50 "1 / 10" 112589990684263] by simp

lemma jitterRange_bounds:
  assumes "0 \<le> i" "i \<le> 2 ^ 40"
  shows "0 \<le> sc_jitterRange (NewScheduler env i)" "sc_jitterRange (NewScheduler env i) \<le> i div 10 + 1"
proof -
  obtain q where q: "f64_round (1 / 10) = Fin q" "0 \<le> q" "q \<le> of_int 112589990684263 / 2 ^ 50"
    using f64_tenth by blast
  have "10 * (i * 112589990684263) \<le> 10 * ((i div 10 + 1) * 2 ^ 50)"
    using assms pos_mod_bound[of 10 i] mult_div_mod_eq[of 10 i] by simp
  then have N: "of_int (i * 112589990684263) \<le> (of_int ((i div 10 + 1) * 2 ^ 50) :: rat)"
    by (simp only: of_int_le_iff mult_le_cancel_left_pos zero_less_numeral)
  have "of_int i * q \<le> of_int i * (of_int 112589990684263 / 2 ^ 50)"
    using q(3) assms(1) by (intro mult_left_mono) auto
  also have "\<dots> \<le> of_int (i div 10 + 1)" using N by (simp add: field_simps)
  finally have hi: "of_int i * q \<le> of_int (i div 10 + 1)" .
  have lo: "of_int 0 \<le> of_int i * q" using q(2) assms(1) by simp
  have d: "0 \<le> i div 10" "i div 10 \<le> i" using assms(1) by auto
  then obtain r where r: "f64_round (of_int i * q) = Fin r" "of_int 0 \<le> r" "r \<le> of_int (i div 10 + 1)"
    using f64_round_between_int[OF lo hi] assms by auto
  have "sc_jitterRange (NewScheduler env i) = to_int64 (f64_overflow env) (Fin r)"
    using assms q(1) r(1) by (simp add: NewScheduler_def f64_of_int_exact del: to_int64.simps)
  then show "0 \<le> sc_jitterRange (NewScheduler env i)" "sc_jitterRange (NewScheduler env i) \<le> i div 10 + 1"
    using to_int64_between[OF r(2,3)] d assms by auto
qed

lemma Duration_Round_near:
  assumes "0 < m" "0 \<le> d" "d + m \<le> max_int64" shows "\<bar>Duration_Round d m - d\<bar> * 2 \<le> m"
  using assms pos_mod_bound[OF assms(1), of d] pos_mod_sign[OF assms(1), of d] by (auto simp: Duration_Round_def Let_def abs_if)

text \<open>
  The random jitter keeps every check interval within a tenth of the nominal one, up to the
  rounding to the next tenth of a second, for whatever the random generator returns.
\<close>

theorem check_interval_jitter:
  assumes "500 * Millisecond \<le> i" "i \<le> 2 ^ 40" "0 \<le> u" "u \<le> 1"
  shows "\<bar>newCheckInterval env u (NewScheduler env i) - i\<bar> \<le> i div 10 + 1 + 50 * Millisecond"
proof -
  let ?s = "NewScheduler env i"
  define J where "J = sc_jitterRange ?s"
  have J: "0 \<le> J" "J \<le> i div 10 + 1" using jitterRange_bounds[of i env] assms by (simp_all add: J_def)
  have small: "i div 10 + 1 \<le> 2 ^ 41" "i div 10 + 1 \<le> i" using assms by auto
  obtain a where a: "f64_round (u * 2) = Fin a" "of_int 0 \<le> a" "a \<le> of_int 2"
    using f64_round_between_int[of 0 "u * 2" 2] assms(3,4) by auto
  obtain w where w: "f64_round (a - 1) = Fin w" "of_int (- 1) \<le> w" "w \<le> of_int 1"
    using f64_round_between_int[of "- 1" "a - 1" 1] a by auto
  have "w * of_int J \<le> 1 * of_int J" using w J by (intro mult_right_mono) auto
  moreover have "- 1 * of_int J \<le> w * of_int J" using w J by (intro mult_right_mono) auto
  ultimately obtain r where r: "f64_round (w * of_int J) = Fin r" "of_int (- J) \<le> r" "r \<le> of_int J"
    using f64_round_between_int[of "- J" "w * of_int J" J] J small by auto
  define j where "j = to_int64 (f64_overflow env) (Fin r)"
  have j: "- J \<le> j" "j \<le> J" using to_int64_between[OF r(2,3)] J small by (auto simp: j_def simp del: to_int64.simps)
  have "f64_of_int J = Fin (of_int J)" using J small by (intro f64_of_int_exact) simp
  then have eq: "newCheckInterval env u ?s = Duration_Round (i + j) (100 * Millisecond)"
    using a(1) w(1) r(1) by (simp add: newCheckInterval_def J_def[symmetric] j_def NewScheduler_interval del: to_int64.simps)
  have "\<bar>Duration_Round (i + j) (100 * Millisecond) - (i + j)\<bar> * 2 \<le> 100 * Millisecond"
    using j J small assms(1,2) by (intro Duration_Round_near) auto
  then have "\<bar>Duration_Round (i + j) (100 * Millisecond) - (i + j)\<bar> \<le> 50 * Millisecond" by simp
  moreover have "\<bar>j\<bar> \<le> i div 10 + 1" using j J by simp
  ultimately show ?thesis unfolding eq by (simp add: abs_le_iff)
qed

theorem check_interval_jitter_witness:
  "\<bar>newCheckInterval demo_env (1 / 4) (NewScheduler demo_env (5 * Second)) - 5 * Second\<bar> \<le> 550 * Millisecond + 1"
  using check_interval_jitter[of "5 * Second" "1 / 4" demo_env] by simp

fun schedule_all :: "NetEnv \<Rightarrow> (int \<times> rat \<times> sref) list \<Rightarrow> Scheduler \<Rightarrow> Scheduler res" where
  "schedule_all env [] s = Ok s"
| "schedule_all env ((now, u, svc) # xs) s = bind (ScheduleService env now u svc s) (schedule_all env xs)"

lemma go_rem_mod: "0 \<le> a \<Longrightarrow> 0 < b \<Longrightarrow> go_rem a b = a mod b"
  by (simp add: go_rem_def minus_mult_div_eq_mod)

lemma schedule_all_offset:
  assumes "schedule_all env xs s = Ok s'" "0 < sc_maxOffSets s" "0 \<le> sc_nextOffset s"
  shows "sc_nextOffset s' mod sc_maxOffSets s = (sc_nextOffset s + int (length xs)) mod sc_maxOffSets s \<and>
    sc_maxOffSets s' = sc_maxOffSets s \<and> 0 \<le> sc_nextOffset s' \<and>
    (sc_nextOffset s < sc_maxOffSets s \<longrightarrow> sc_nextOffset s' < sc_maxOffSets s)"
  using assms
proof (induction xs arbitrary: s)
  case Nil
  then show ?case by simp
next
  case (Cons x xs)
  obtain now u svc where x: "x = (now, u, svc)" by (cases x)
  then obtain s1 where s1: "ScheduleService env now u svc s = Ok s1" "schedule_all env xs s1 = Ok s'"
    using Cons.prems(1) by (auto simp: bind_eq_Ok)
  note ok = ScheduleService_Ok[OF s1(1)]
  have n: "sc_nextOffset s1 = (sc_nextOffset s + 1) mod sc_maxOffSets s"
    using ok(6) Cons.prems(2,3) by (simp add: go_rem_mod)
  show ?case
    using Cons.IH[OF s1(2)] ok(5) n Cons.prems(2) by (auto simp: mod_simps add.commute add.left_commute)
qed

lemma schedule_all_heap:
  assumes "schedule_all env xs s = Ok s'" "heap_inv sd_nextCheckTime (length (sc_heap s)) (sc_heap s)"
  shows "heap_inv sd_nextCheckTime (length (sc_heap s')) (sc_heap s')"
  using assms
proof (induction xs arbitrary: s)
  case Nil
  then show ?case by simp
next
  case (Cons x xs)
  obtain now u svc where "x = (now, u, svc)" by (cases x)
  then obtain s1 where s1: "ScheduleService env now u svc s = Ok s1" "schedule_all env xs s1 = Ok s'"
    using Cons.prems(1) by (auto simp: bind_eq_Ok)
  show ?case
    by (rule Cons.IH[OF s1(2)])
      (simp only: ScheduleService_Ok(1)[OF s1(1)] go_heap.push_inv[OF Cons.prems(2)])
qed

text \<open>
  Consecutive registrations are spread: the n-th service put on a scheduler starts half a
  second later than the one before it, wrapping around after the last offset that fits the interval.
\<close>

theorem registrations_are_staggered:
  assumes "schedule_all env xs (NewScheduler env i) = Ok s" "500 * Millisecond \<le> i" "i \<le> 2 ^ 52"
    and "ScheduleService env now u svc s = Ok s'"
  shows "\<exists>x. x \<in> set (sc_heap s') \<and> sd_service x = svc \<and>
    sd_nextCheckTime x = now + newCheckInterval env u s +
      500 * Millisecond * (int (length xs) mod sc_maxOffSets (NewScheduler env i))"
proof -
  have max: "0 < sc_maxOffSets (NewScheduler env i)"
    using maxOffSets_zero_iff[of i env] assms(2,3) by force
  note off = schedule_all_offset[OF assms(1) max]
  have "sc_nextOffset s = int (length xs) mod sc_maxOffSets (NewScheduler env i)"
    using off max mod_pos_pos_trivial[of "sc_nextOffset s" "sc_maxOffSets (NewScheduler env i)"]
    by (simp add: NewScheduler_def del: mod_pos_pos_trivial)
  moreover have "heap_inv sd_nextCheckTime (length (sc_heap s)) (sc_heap s)"
  proof -
    have "heap_inv sd_nextCheckTime (length (sc_heap (NewScheduler env i))) (sc_heap (NewScheduler env i))"
      by (simp add: NewScheduler_def heap_inv_def)
    from schedule_all_heap[OF assms(1) this] show ?thesis .
  qed
  moreover define x where "x = \<lparr>sd_service = svc,
      sd_nextCheckTime = now + OFFSET * sc_nextOffset s + newCheckInterval env u s, sd_shouldReSchedule = True\<rparr>"
  ultimately have "mset (sc_heap s') = add_mset x (mset (sc_heap s))"
    using ScheduleService_Ok(1)[OF assms(4)] go_heap.push_elems by simp
  then have "x \<in> set (sc_heap s')" by (metis set_mset_mset union_single_eq_member add_mset_add_single add.commute)
  moreover have "OFFSET = 500 * Millisecond" by (simp add: OFFSET_def OFFSETS_PER_SECOND_def)
  ultimately show ?thesis
    using \<open>sc_nextOffset s = int (length xs) mod sc_maxOffSets (NewScheduler env i)\<close>
    by (intro exI[of _ x]) (simp add: x_def)
qed

theorem registrations_are_staggered_witness:
  "\<exists>s s' x. schedule_all demo_env [(0, 0, 1), (0, 0, 2)] (NewScheduler demo_env (5 * Second)) = Ok s \<and>
     ScheduleService demo_env 0 0 3 s = Ok s' \<and> x \<in> set (sc_heap s') \<and> sd_service x = 3"
proof -
  have m: "sc_maxOffSets (NewScheduler demo_env (5 * Second)) \<noteq> 0"
    using maxOffSets_zero_iff(1)[of "5 * Second" demo_env] by simp
  have step: "\<exists>s'. ScheduleService demo_env now u svc s = Ok s' \<and> sc_maxOffSets s' \<noteq> 0"
    if "sc_maxOffSets s \<noteq> 0" for now u svc s
  proof -
    have "\<exists>s'. ScheduleService demo_env now u svc s = Ok s'" using that by (simp add: ScheduleService_def Let_def)
    then show ?thesis using ScheduleService_Ok(5) that by metis
  qed
  obtain s1 where s1: "ScheduleService demo_env 0 0 1 (NewScheduler demo_env (5 * Second)) = Ok s1" "sc_maxOffSets s1 \<noteq> 0"
    using step[OF m] by blast
  obtain s2 where s2: "ScheduleService demo_env 0 0 2 s1 = Ok s2" "sc_maxOffSets s2 \<noteq> 0"
    using step[OF s1(2)] by blast
  obtain s3 where s3: "ScheduleService demo_env 0 0 3 s2 = Ok s3" using step[OF s2(2)] by blast
  have all: "schedule_all demo_env [(0, 0, 1), (0, 0, 2)] (NewScheduler demo_env (5 * Second)) = Ok s2"
    using s1(1) s2(1) by simp
  show ?thesis using registrations_are_staggered[OF all _ _ s3] all s3 by auto
qed

end
