(* ===== verification/Store.thy ===== *)
theory Store
  imports Prelude
begin

text \<open>
  \<^verbatim>\<open>pkg/persistence\<close>: the \<^verbatim>\<open>Store\<close> interface as a record of operations on a store state,
  its two implementations, and the contract they share as the locale \<open>kv_store\<close>: seen through
  \<open>abs\<close>, a store is a map from keys to values.
\<close>

section \<open>The interface\<close>

datatype store_error = ReadFailed | ParseFailed | WriteFailed

record ('s, 'v) Store =
  st_Save :: "string \<Rightarrow> 'v \<Rightarrow> 's \<Rightarrow> store_error option \<times> 's"
  st_Load :: "string \<Rightarrow> 's \<Rightarrow> (store_error + 'v) \<times> 's"
  st_LoadAll :: "'s \<Rightarrow> (store_error + 'v list) \<times> 's"
  st_Delete :: "string \<Rightarrow> 's \<Rightarrow> store_error option \<times> 's"

locale kv_store =
  fixes ops :: "('s, 'v) Store"
    and zero :: 'v
    and inv :: "'s \<Rightarrow> bool"
    and abs :: "'s \<Rightarrow> string \<Rightarrow> 'v option"
  assumes Save_ok: "inv s \<Longrightarrow> fst (st_Save ops k v s) = None"
    and Save_inv: "inv s \<Longrightarrow> inv (snd (st_Save ops k v s))"
    and Save_abs: "inv s \<Longrightarrow> abs (snd (st_Save ops k v s)) = (abs s)(k \<mapsto> v)"
    and Load_ok: "inv s \<Longrightarrow>
      fst (st_Load ops k s) = Inr (case abs s k of None \<Rightarrow> zero | Some v \<Rightarrow> v)"
    and Load_inv: "inv s \<Longrightarrow> inv (snd (st_Load ops k s))"
    and Load_abs: "inv s \<Longrightarrow> abs (snd (st_Load ops k s)) = abs s"
    and LoadAll_ok: "inv s \<Longrightarrow> \<exists>ks. distinct ks \<and> set ks = dom (abs s) \<and>
      fst (st_LoadAll ops s) = Inr (map (\<lambda>k. the (abs s k)) ks)"
    and LoadAll_inv: "inv s \<Longrightarrow> inv (snd (st_LoadAll ops s))"
    and LoadAll_abs: "inv s \<Longrightarrow> abs (snd (st_LoadAll ops s)) = abs s"
    and Delete_ok: "inv s \<Longrightarrow> fst (st_Delete ops k s) = None"
    and Delete_inv: "inv s \<Longrightarrow> inv (snd (st_Delete ops k s))"
    and Delete_abs: "inv s \<Longrightarrow> abs (snd (st_Delete ops k s)) = (abs s)(k := None)"
begin

lemmas store_laws = Save_ok Save_inv Save_abs Load_ok Load_inv Load_abs LoadAll_inv LoadAll_abs
  Delete_ok Delete_inv Delete_abs

text \<open>
  The state transformations of a store, and how a sequence of them acts on the map: the contract
  determines every later read.
\<close>

lemma load_after_save:
  "inv s \<Longrightarrow> fst (st_Load ops k' (snd (st_Save ops k v s))) =
     (if k' = k then Inr v else fst (st_Load ops k' s))"
  by (simp add: store_laws)

lemma load_after_delete:
  "inv s \<Longrightarrow> fst (st_Load ops k' (snd (st_Delete ops k s))) =
     (if k' = k then Inr zero else fst (st_Load ops k' s))"
  by (simp add: store_laws)

lemma save_case: "inv s \<Longrightarrow> st_Save ops k v s = (None, snd (st_Save ops k v s))"
  by (metis Save_ok prod.collapse)

lemma load_case:
  "inv s \<Longrightarrow> st_Load ops k s =
     (Inr (case abs s k of None \<Rightarrow> zero | Some v \<Rightarrow> v), snd (st_Load ops k s))"
  by (metis Load_ok prod.collapse)

lemma delete_case: "inv s \<Longrightarrow> st_Delete ops k s = (None, snd (st_Delete ops k s))"
  by (metis Delete_ok prod.collapse)

end

section \<open>The memory store\<close>

type_synonym 'v MemStore = "(string, 'v) gomap"

definition mem_NewStore :: "'v MemStore" where
  "mem_NewStore = []"

definition mem_Save :: "string \<Rightarrow> 'v \<Rightarrow> 'v MemStore \<Rightarrow> store_error option \<times> 'v MemStore" where
  "mem_Save key data s = (None, mput key data s)"

definition mem_Load :: "'v \<Rightarrow> string \<Rightarrow> 'v MemStore \<Rightarrow> (store_error + 'v) \<times> 'v MemStore" where
  "mem_Load zero key s = (Inr (case mget s key of None \<Rightarrow> zero | Some val \<Rightarrow> val), s)"

definition mem_LoadAll :: "'v MemStore \<Rightarrow> (store_error + 'v list) \<times> 'v MemStore" where
  "mem_LoadAll s = (Inr (map snd s), s)"

definition mem_Delete :: "string \<Rightarrow> 'v MemStore \<Rightarrow> store_error option \<times> 'v MemStore" where
  "mem_Delete key s = (None, mdel key s)"

definition mem_ops :: "'v \<Rightarrow> ('v MemStore, 'v) Store" where
  "mem_ops zero = \<lparr>st_Save = mem_Save, st_Load = mem_Load zero, st_LoadAll = mem_LoadAll,
     st_Delete = mem_Delete\<rparr>"

lemmas mem_defs = mem_ops_def mem_Save_def mem_Load_def mem_LoadAll_def mem_Delete_def

lemma map_snd_lookup: "keys_ok m \<Longrightarrow> map snd m = map (\<lambda>k. the (mget m k)) (map fst m)"
  by (auto simp: map_of_is_SomeI)

interpretation mstore: kv_store "mem_ops zero" zero keys_ok map_of for zero
proof (unfold_locales, goal_cases)
  case (7 s)
  then show ?case
    by (intro exI[of _ "map fst s"]) (simp add: mem_defs dom_map_of_conv_image_fst map_snd_lookup)
qed (auto simp: mem_defs update_conv' delete_conv' intro: distinct_update distinct_delete)

section \<open>The file store\<close>

text \<open>
  The file is kept as what \<^verbatim>\<open>json.Unmarshal\<close> makes of it: empty, an object of entries, or
  not parseable; \<^verbatim>\<open>json.Marshal\<close> followed by \<^verbatim>\<open>json.Unmarshal\<close> gives back the entries.
  Whether the operating system lets the file be read and written is part of the state.
\<close>

datatype 'v file_content = EmptyFile | Json "(string, 'v) gomap" | Garbage

record 'v FileStore =
  fs_cache :: "(string, 'v) gomap"
  fs_content :: "'v file_content"
  fs_readable :: bool
  fs_writable :: bool

fun entries :: "'v file_content \<Rightarrow> (string, 'v) gomap option" where
  "entries EmptyFile = Some []"
| "entries (Json m) = Some m"
| "entries Garbage = None"

definition write_file :: "(string, 'v) gomap \<Rightarrow> 'v FileStore \<Rightarrow> store_error option \<times> 'v FileStore" where
  "write_file m s = (if fs_writable s then (None, s\<lparr>fs_content := Json m\<rparr>) else (Some WriteFailed, s))"

definition file_Save :: "string \<Rightarrow> 'v \<Rightarrow> 'v FileStore \<Rightarrow> store_error option \<times> 'v FileStore" where
  "file_Save key data s =
     (let s = s\<lparr>fs_cache := mput key data (fs_cache s)\<rparr>
      in if \<not> fs_readable s then (Some ReadFailed, s)
         else case entries (fs_content s) of
                None \<Rightarrow> (Some ParseFailed, s)
              | Some store \<Rightarrow> write_file (mput key data store) s)"

text \<open>Unmarshalling into an existing map adds the entries of the file to it.\<close>

definition mmerge :: "(string, 'v) gomap \<Rightarrow> (string, 'v) gomap \<Rightarrow> (string, 'v) gomap" where
  "mmerge file cache = fold (\<lambda>(k, v). mput k v) file cache"

definition file_Load :: "'v \<Rightarrow> string \<Rightarrow> 'v FileStore \<Rightarrow> (store_error + 'v) \<times> 'v FileStore" where
  "file_Load zero key s =
     (case mget (fs_cache s) key of
        Some data \<Rightarrow> (Inr data, s)
      | None \<Rightarrow>
        if \<not> fs_readable s then (Inl ReadFailed, s)
        else case fs_content s of
               EmptyFile \<Rightarrow> (Inr zero, s)
             | Garbage \<Rightarrow> (Inl ParseFailed, s)
             | Json m \<Rightarrow>
                 (let cache = mmerge m (fs_cache s)
                  in (Inr (case mget cache key of None \<Rightarrow> zero | Some v \<Rightarrow> v), s\<lparr>fs_cache := cache\<rparr>)))"

definition file_LoadAll :: "'v FileStore \<Rightarrow> (store_error + 'v list) \<times> 'v FileStore" where
  "file_LoadAll s =
     (if \<not> fs_readable s then (Inl ReadFailed, s)
      else case fs_content s of
             EmptyFile \<Rightarrow> (Inr [], s)
           | Garbage \<Rightarrow> (Inl ParseFailed, s)
           | Json m \<Rightarrow> (Inr (map snd m), s\<lparr>fs_cache := mmerge m (fs_cache s)\<rparr>))"

definition file_Delete :: "string \<Rightarrow> 'v FileStore \<Rightarrow> store_error option \<times> 'v FileStore" where
  "file_Delete key s =
     (let s = s\<lparr>fs_cache := mdel key (fs_cache s)\<rparr>
      in if \<not> fs_readable s then (Some ReadFailed, s)
         else case entries (fs_content s) of
                None \<Rightarrow> (Some ParseFailed, s)
              | Some store \<Rightarrow> write_file (mdel key store) s)"

definition file_ops :: "'v \<Rightarrow> ('v FileStore, 'v) Store" where
  "file_ops zero = \<lparr>st_Save = file_Save, st_Load = file_Load zero, st_LoadAll = file_LoadAll,
     st_Delete = file_Delete\<rparr>"

definition file_NewStore :: "'v file_content \<Rightarrow> 'v FileStore" where
  "file_NewStore content = \<lparr>fs_cache = [], fs_content = content, fs_readable = True, fs_writable = True\<rparr>"

text \<open>
  The store is usable while the file can be read, parsed and written, and then the cache never
  disagrees with the file.
\<close>

definition file_map :: "'v FileStore \<Rightarrow> string \<Rightarrow> 'v option" where
  "file_map s = (case entries (fs_content s) of None \<Rightarrow> Map.empty | Some m \<Rightarrow> mget m)"

definition file_inv :: "'v FileStore \<Rightarrow> bool" where
  "file_inv s \<longleftrightarrow> fs_readable s \<and> fs_writable s \<and>
     (\<exists>m. entries (fs_content s) = Some m \<and> keys_ok m) \<and>
     (\<forall>(k, v) \<in> set (fs_cache s). file_map s k = Some v) \<and> keys_ok (fs_cache s)"

lemmas file_defs = file_ops_def file_Save_def file_Load_def file_LoadAll_def file_Delete_def
  write_file_def Let_def

lemma mget_mmerge: "keys_ok m \<Longrightarrow> mget (mmerge m c) = mget c ++ mget m"
proof (induction m arbitrary: c)
  case Nil
  then show ?case by (simp add: mmerge_def)
next
  case (Cons kv m)
  obtain k v where kv: "kv = (k, v)" by fastforce
  then have "k \<notin> fst ` set m" using Cons.prems by simp
  then have "mget m k = None" by (simp add: map_of_eq_None_iff)
  moreover have "mget (mmerge m (mput k v c)) = mget (mput k v c) ++ mget m"
    using Cons by simp
  ultimately show ?case by (auto simp: mmerge_def kv update_conv' fun_eq_iff map_add_def split: option.splits)
qed

lemma keys_ok_mmerge: "keys_ok c \<Longrightarrow> keys_ok (mmerge m c)"
  by (induction m arbitrary: c) (auto simp: mmerge_def intro: distinct_update)

lemma file_inv_cache: "file_inv s \<Longrightarrow> mget (fs_cache s) k = Some v \<Longrightarrow> file_map s k = Some v"
  by (auto simp: file_inv_def dest: map_of_SomeD)

lemma file_invI:
  assumes "fs_readable s" "fs_writable s" "entries (fs_content s) = Some m" "keys_ok m"
    "keys_ok (fs_cache s)" "\<forall>k v. mget (fs_cache s) k = Some v \<longrightarrow> mget m k = Some v"
  shows "file_inv s"
  using assms by (auto simp: file_inv_def file_map_def)

lemma file_inv_new: "content \<noteq> Garbage \<Longrightarrow> (\<forall>m. content = Json m \<longrightarrow> keys_ok m) \<Longrightarrow>
    file_inv (file_NewStore content)"
  by (cases content) (auto simp: file_inv_def file_NewStore_def)

lemma file_invE:
  assumes "file_inv s"
  obtains m where "fs_readable s" "fs_writable s" "entries (fs_content s) = Some m" "keys_ok m"
    "keys_ok (fs_cache s)" "file_map s = mget m"
    "\<forall>k v. mget (fs_cache s) k = Some v \<longrightarrow> mget m k = Some v"
  using assms file_inv_cache[OF assms] by (auto simp: file_inv_def file_map_def)

lemma entries_cases:
  "entries c = Some m \<Longrightarrow> (c = EmptyFile \<and> m = []) \<or> c = Json m"
  by (cases c) auto

lemma file_merge_inv:
  assumes "file_inv s" "fs_content s = Json m"
  shows "file_inv (s\<lparr>fs_cache := mmerge m (fs_cache s)\<rparr>)"
    and "mget (mmerge m (fs_cache s)) = mget m"
proof -
  from assms(1) obtain m' where m': "fs_readable s" "fs_writable s"
    "entries (fs_content s) = Some m'" "keys_ok m'" "keys_ok (fs_cache s)" "file_map s = mget m'"
    "\<forall>k v. mget (fs_cache s) k = Some v \<longrightarrow> mget m' k = Some v"
    by (rule file_invE)
  then have [simp]: "m' = m" using assms(2) by simp
  show eq: "mget (mmerge m (fs_cache s)) = mget m"
  proof
    fix k
    show "mget (mmerge m (fs_cache s)) k = mget m k"
      using m'(7) mget_mmerge[OF m'(4)[unfolded \<open>m' = m\<close>], of "fs_cache s"]
      by (cases "mget m k"; cases "mget (fs_cache s) k") (simp_all add: map_add_def)
  qed
  show "file_inv (s\<lparr>fs_cache := mmerge m (fs_cache s)\<rparr>)"
    using m' assms(2) by (intro file_invI[of _ m]) (auto simp: eq keys_ok_mmerge)
qed

lemma file_Save_laws:
  assumes "file_inv s"
  shows "fst (file_Save k v s) = None" "file_inv (snd (file_Save k v s))"
    "file_map (snd (file_Save k v s)) = (file_map s)(k \<mapsto> v)"
proof -
  from assms obtain m where m: "fs_readable s" "fs_writable s" "entries (fs_content s) = Some m"
    "keys_ok m" "keys_ok (fs_cache s)" "file_map s = mget m"
    "\<forall>k v. mget (fs_cache s) k = Some v \<longrightarrow> mget m k = Some v"
    by (rule file_invE)
  then show "fst (file_Save k v s) = None" by (simp add: file_defs)
  show "file_map (snd (file_Save k v s)) = (file_map s)(k \<mapsto> v)"
    using m by (simp add: file_defs file_map_def update_conv')
  show "file_inv (snd (file_Save k v s))"
    using m by (intro file_invI[of _ "mput k v m"])
      (auto simp: file_defs mget_mput intro: distinct_update)
qed

lemma file_Delete_laws:
  assumes "file_inv s"
  shows "fst (file_Delete k s) = None" "file_inv (snd (file_Delete k s))"
    "file_map (snd (file_Delete k s)) = (file_map s)(k := None)"
proof -
  from assms obtain m where m: "fs_readable s" "fs_writable s" "entries (fs_content s) = Some m"
    "keys_ok m" "keys_ok (fs_cache s)" "file_map s = mget m"
    "\<forall>k v. mget (fs_cache s) k = Some v \<longrightarrow> mget m k = Some v"
    by (rule file_invE)
  then show "fst (file_Delete k s) = None" by (simp add: file_defs)
  show "file_map (snd (file_Delete k s)) = (file_map s)(k := None)"
    using m by (simp add: file_defs file_map_def delete_conv')
  show "file_inv (snd (file_Delete k s))"
    using m by (intro file_invI[of _ "mdel k m"])
      (auto simp: file_defs mget_mdel intro: distinct_delete)
qed

lemma file_Load_laws:
  assumes "file_inv s"
  shows "fst (file_Load zero k s) = Inr (case file_map s k of None \<Rightarrow> zero | Some v \<Rightarrow> v)"
    "file_inv (snd (file_Load zero k s))" "file_map (snd (file_Load zero k s)) = file_map s"
proof -
  from assms obtain m where m: "fs_readable s" "fs_writable s" "entries (fs_content s) = Some m"
    "keys_ok m" "keys_ok (fs_cache s)" "file_map s = mget m" "\<forall>k v. mget (fs_cache s) k = Some v \<longrightarrow> mget m k = Some v"
    by (rule file_invE)
  from entries_cases[OF m(3)]
  have "fst (file_Load zero k s) = Inr (case file_map s k of None \<Rightarrow> zero | Some v \<Rightarrow> v) \<and>
    file_inv (snd (file_Load zero k s)) \<and> file_map (snd (file_Load zero k s)) = file_map s"
  proof
    assume "fs_content s = EmptyFile \<and> m = []"
    then show ?thesis using m assms by (auto simp: file_Load_def split: option.splits)
  next
    assume j: "fs_content s = Json m"
    show ?thesis
      using m(1,6,7) assms file_merge_inv[OF assms j] j
      by (cases "mget (fs_cache s) k") (simp_all add: file_Load_def file_map_def Let_def)
  qed
  then show "fst (file_Load zero k s) = Inr (case file_map s k of None \<Rightarrow> zero | Some v \<Rightarrow> v)"
    "file_inv (snd (file_Load zero k s))" "file_map (snd (file_Load zero k s)) = file_map s"
    by blast+
qed

lemma file_LoadAll_laws:
  assumes "file_inv s"
  shows "\<exists>ks. distinct ks \<and> set ks = dom (file_map s) \<and>
      fst (file_LoadAll s) = Inr (map (\<lambda>k. the (file_map s k)) ks)"
    "file_inv (snd (file_LoadAll s))" "file_map (snd (file_LoadAll s)) = file_map s"
proof -
  from assms obtain m where m: "fs_readable s" "fs_writable s" "entries (fs_content s) = Some m"
    "keys_ok m" "keys_ok (fs_cache s)" "file_map s = mget m"
    "\<forall>k v. mget (fs_cache s) k = Some v \<longrightarrow> mget m k = Some v"
    by (rule file_invE)
  have "fst (file_LoadAll s) = Inr (map snd m)"
    using m entries_cases[OF m(3)] by (auto simp: file_LoadAll_def)
  then show "\<exists>ks. distinct ks \<and> set ks = dom (file_map s) \<and>
      fst (file_LoadAll s) = Inr (map (\<lambda>k. the (file_map s k)) ks)"
    using m by (intro exI[of _ "map fst m"]) (simp add: dom_map_of_conv_image_fst map_snd_lookup)
  show "file_inv (snd (file_LoadAll s))"
    using m entries_cases[OF m(3)] assms file_merge_inv(1)[OF assms, of m]
    by (auto simp: file_LoadAll_def)
  show "file_map (snd (file_LoadAll s)) = file_map s"
    using m entries_cases[OF m(3)] by (auto simp: file_LoadAll_def file_map_def)
qed

interpretation fstore: kv_store "file_ops zero" zero file_inv file_map for zero
  by unfold_locales
    (simp_all add: file_ops_def file_Save_laws file_Load_laws file_LoadAll_laws file_Delete_laws)

text \<open>
  The two stores implement the same interface: on a readable, parseable and writable file the
  file store answers every load after any save exactly as a map does.
\<close>

theorem file_store_is_a_map:
  assumes "file_inv s"
  shows "fst (file_Load zero k' (snd (file_Save k v s))) =
           (if k' = k then Inr v else fst (file_Load zero k' s)) \<and>
         fst (file_Load zero k' (snd (file_Delete k s))) =
           (if k' = k then Inr zero else fst (file_Load zero k' s))"
  using fstore.load_after_save[OF assms, of zero k' k v] fstore.load_after_delete[OF assms, of zero k' k]
  by (simp add: file_ops_def)

theorem file_store_is_a_map_witness:
  "fst (file_Load [] ''g'' (snd (file_Save ''g'' [1::nat] (file_NewStore EmptyFile)))) = Inr [1]"
  using file_store_is_a_map[of "file_NewStore EmptyFile" "[]" "''g''" "''g''" "[1::nat]"]
  by (simp add: file_inv_new)

end
