(* ===== verification/ServiceRepo.thy ===== *)
theory ServiceRepo
  imports Service Store
begin

text \<open>
  \<^verbatim>\<open>internal/repositories/service\<close>: the stored state of the service groups. Every operation
  works on any store that implements the interface (\<open>ops\<close>), passing the store's state along; an
  error return is the left value of a sum. The lemmas are proved once for every store that keeps
  the contract \<open>kv_store\<close> (locale \<open>group_store\<close>) and hold of both implementations.
\<close>

section \<open>Operations\<close>

datatype repo_error = StoreError store_error | ErrServiceWithMemberOfNotFound
  | ErrServiceInGroupNotFound | ErrGroupDoesNotExist

type_synonym ('s, 'a) repo = "'s \<Rightarrow> (repo_error + 'a) \<times> 's"

definition rbind :: "('s, 'a) repo \<Rightarrow> ('a \<Rightarrow> ('s, 'b) repo) \<Rightarrow> ('s, 'b) repo" where
  "rbind m f = (\<lambda>s. case m s of (Inl e, s') \<Rightarrow> (Inl e, s') | (Inr x, s') \<Rightarrow> f x s')"

definition rreturn :: "'a \<Rightarrow> ('s, 'a) repo" where
  "rreturn x = (\<lambda>s. (Inr x, s))"

definition rfail :: "repo_error \<Rightarrow> ('s, 'a) repo" where
  "rfail e = (\<lambda>s. (Inl e, s))"

definition rstore :: "('s \<Rightarrow> store_error option \<times> 's) \<Rightarrow> ('s, unit) repo" where
  "rstore act = (\<lambda>s. case act s of (None, s') \<Rightarrow> (Inr (), s') | (Some e, s') \<Rightarrow> (Inl (StoreError e), s'))"

definition repo_Read :: "('s, GSLBServiceGroup) Store \<Rightarrow> string \<Rightarrow> ('s, GSLBServiceGroup) repo" where
  "repo_Read ops sid =
     (\<lambda>s. case st_Load ops sid s of (Inl e, s') \<Rightarrow> (Inl (StoreError e), s') | (Inr g, s') \<Rightarrow> (Inr g, s'))"

definition repo_ReadAll :: "('s, GSLBServiceGroup) Store \<Rightarrow> ('s, GSLBServiceGroup list) repo" where
  "repo_ReadAll ops =
     (\<lambda>s. case st_LoadAll ops s of (Inl e, s') \<Rightarrow> (Inl (StoreError e), s') | (Inr g, s') \<Rightarrow> (Inr g, s'))"

definition repo_GetActive :: "('s, GSLBServiceGroup) Store \<Rightarrow> string \<Rightarrow> ('s, GSLBService) repo" where
  "repo_GetActive ops memberOf =
     rbind (repo_Read ops memberOf) (\<lambda>group.
       case find gs_IsActive group of
         Some svc \<Rightarrow> rreturn svc
       | None \<Rightarrow> rfail ErrServiceWithMemberOfNotFound)"

definition repo_HasOverride :: "('s, GSLBServiceGroup) Store \<Rightarrow> string \<Rightarrow> ('s, bool) repo" where
  "repo_HasOverride ops memberOf =
     (\<lambda>s. case repo_GetActive ops memberOf s of
            (Inl e, s') \<Rightarrow> if e = ErrServiceWithMemberOfNotFound then (Inr False, s') else (Inl e, s')
          | (Inr svc, s') \<Rightarrow> (Inr (gs_HasOverride svc), s'))"

definition repo_GetMemberInGroup ::
  "('s, GSLBServiceGroup) Store \<Rightarrow> string \<Rightarrow> string \<Rightarrow> ('s, GSLBService) repo" where
  "repo_GetMemberInGroup ops memberOf memberId =
     rbind (repo_Read ops memberOf) (\<lambda>group.
       case IndexFunc (\<lambda>s. gs_ID s = memberId) group of
         None \<Rightarrow> rfail ErrServiceInGroupNotFound
       | Some idx \<Rightarrow> rreturn (group ! idx))"

definition repo_Update :: "('s, GSLBServiceGroup) Store \<Rightarrow> GSLBService \<Rightarrow> ('s, unit) repo" where
  "repo_Update ops new =
     rbind (repo_HasOverride ops (gs_MemberOf new)) (\<lambda>override.
     rbind (repo_Read ops (gs_MemberOf new)) (\<lambda>group.
       if group = [] then rfail ErrGroupDoesNotExist
       else case IndexFunc (\<lambda>s. gs_ID s = gs_ID new) group of
              None \<Rightarrow> rfail ErrServiceInGroupNotFound
            | Some idx \<Rightarrow>
                let new = (if gs_IsActive (group ! idx) \<and> override
                           then new\<lparr>gs_IP := gs_IP (group ! idx), gs_HasOverride := True\<rparr> else new)
                in rstore (st_Save ops (gs_MemberOf new) (group[idx := new]))))"

text \<open>
  A group that was never stored is the nil slice; it and a stored empty slice are both \<open>[]\<close>, which
  \<^verbatim>\<open>Create\<close> turns into the same one-element group on either branch.
\<close>

definition repo_Create :: "('s, GSLBServiceGroup) Store \<Rightarrow> GSLBService \<Rightarrow> ('s, unit) repo" where
  "repo_Create ops new =
     rbind (repo_HasOverride ops (gs_MemberOf new)) (\<lambda>override.
       if override then rreturn ()
       else rbind (repo_Read ops (gs_MemberOf new)) (\<lambda>group.
         if group = [] then rstore (st_Save ops (gs_MemberOf new) [new])
         else if ContainsFunc (\<lambda>s. gs_ID s = gs_ID new) group then repo_Update ops new
         else rstore (st_Save ops (gs_MemberOf new) (group @ [new]))))"

definition repo_UpdateOverride ::
  "('s, GSLBServiceGroup) Store \<Rightarrow> string \<Rightarrow> GSLBService \<Rightarrow> ('s, unit) repo" where
  "repo_UpdateOverride ops ip service =
     (let service = service\<lparr>gs_IP := ip\<rparr>
      in rbind (repo_Read ops (gs_MemberOf service)) (\<lambda>group.
           if group = [] then rfail ErrGroupDoesNotExist
           else case IndexFunc (\<lambda>s. gs_ID s = gs_ID service) group of
                  None \<Rightarrow> rfail ErrServiceInGroupNotFound
                | Some idx \<Rightarrow> rstore (st_Save ops (gs_MemberOf service) (group[idx := service]))))"

definition repo_RemoveOverrideFlag :: "('s, GSLBServiceGroup) Store \<Rightarrow> string \<Rightarrow> ('s, unit) repo" where
  "repo_RemoveOverrideFlag ops memberOf =
     rbind (repo_Read ops memberOf) (\<lambda>group.
       rstore (st_Save ops memberOf (map (\<lambda>s. s\<lparr>gs_HasOverride := False\<rparr>) group)))"

definition repo_Delete :: "('s, GSLBServiceGroup) Store \<Rightarrow> string \<Rightarrow> string \<Rightarrow> ('s, unit) repo" where
  "repo_Delete ops memberOf sid =
     rbind (repo_Read ops memberOf) (\<lambda>group.
     rbind (repo_HasOverride ops memberOf) (\<lambda>override.
       if override then rreturn ()
       else
         let group = DeleteFunc (\<lambda>s. gs_ID s = sid) group
         in rbind (if group = [] then rstore (st_Delete ops memberOf) else rreturn ()) (\<lambda>_.
              rstore (st_Save ops memberOf group))))"

section \<open>What a group holds\<close>

definition group_in :: "(string \<Rightarrow> GSLBServiceGroup option) \<Rightarrow> string \<Rightarrow> GSLBServiceGroup" where
  "group_in m memberOf = (case m memberOf of None \<Rightarrow> [] | Some g \<Rightarrow> g)"

definition override_in :: "(string \<Rightarrow> GSLBServiceGroup option) \<Rightarrow> string \<Rightarrow> bool" where
  "override_in m memberOf =
     (case find gs_IsActive (group_in m memberOf) of None \<Rightarrow> False | Some svc \<Rightarrow> gs_HasOverride svc)"

definition member_in :: "(string \<Rightarrow> GSLBServiceGroup option) \<Rightarrow> string \<Rightarrow> string \<Rightarrow> GSLBService option" where
  "member_in m memberOf sid = find (\<lambda>s. gs_ID s = sid) (group_in m memberOf)"

text \<open>Every stored service is filed under its own group, and the ids of a group are distinct.\<close>

definition groups_wf :: "(string \<Rightarrow> GSLBServiceGroup option) \<Rightarrow> bool" where
  "groups_wf m \<longleftrightarrow> (\<forall>memberOf. distinct (map gs_ID (group_in m memberOf)) \<and>
     (\<forall>s \<in> set (group_in m memberOf). gs_MemberOf s = memberOf))"

text \<open>The replacement that an update of member \<open>new\<close> performs.\<close>

definition updated_member ::
  "(string \<Rightarrow> GSLBServiceGroup option) \<Rightarrow> GSLBService \<Rightarrow> GSLBService \<Rightarrow> GSLBService" where
  "updated_member m old new =
     (if gs_IsActive old \<and> override_in m (gs_MemberOf new)
      then new\<lparr>gs_IP := gs_IP old, gs_HasOverride := True\<rparr> else new)"

lemma find_IndexFunc:
  "find p xs = (case IndexFunc p xs of None \<Rightarrow> None | Some i \<Rightarrow> Some (xs ! i))"
  by (induction xs) (auto split: option.splits)

lemma find_snoc: "find p xs = None \<Longrightarrow> find p (xs @ [x]) = (if p x then Some x else None)"
  by (induction xs) (auto split: if_splits)

lemma find_None_DeleteFunc [simp]: "find p (DeleteFunc p xs) = None"
  by (simp add: DeleteFunc_def find_None_iff)

lemma group_in_upd [simp]:
  "group_in (m(k \<mapsto> g)) k' = (if k' = k then g else group_in m k')"
  by (simp add: group_in_def)

lemma group_in_del [simp]:
  "group_in (m(k := None)) k' = (if k' = k then [] else group_in m k')"
  by (simp add: group_in_def)

lemma find_update_first:
  assumes "IndexFunc p xs = Some i" "p x"
  shows "find p (xs[i := x]) = Some x"
proof -
  have "IndexFunc p (xs[i := x]) = Some i"
    using assms by (auto simp: IndexFunc_Some)
  moreover have "xs[i := x] ! i = x" using assms(1) by (simp add: IndexFunc_Some)
  ultimately show ?thesis by (simp add: find_IndexFunc)
qed

lemma groups_wf_upd:
  "groups_wf m \<Longrightarrow> distinct (map gs_ID g) \<Longrightarrow> \<forall>s \<in> set g. gs_MemberOf s = k \<Longrightarrow> groups_wf (m(k \<mapsto> g))"
  by (auto simp: groups_wf_def)

lemma groups_wf_replace:
  assumes "groups_wf m" "IndexFunc (\<lambda>s. gs_ID s = gs_ID x) (group_in m k) = Some i" "gs_MemberOf x = k"
  shows "groups_wf (m(k \<mapsto> (group_in m k)[i := x]))"
proof (rule groups_wf_upd[OF assms(1)])
  let ?g = "group_in m k"
  have i: "i < length ?g" "gs_ID (?g ! i) = gs_ID x" using assms(2) by (auto simp: IndexFunc_Some)
  then have "map gs_ID (?g[i := x]) = map gs_ID ?g" by (simp add: map_list_update_same)
  moreover have "distinct (map gs_ID ?g)" using assms(1) by (simp add: groups_wf_def)
  ultimately show "distinct (map gs_ID (?g[i := x]))" by simp
  show "\<forall>s \<in> set (?g[i := x]). gs_MemberOf s = k"
    using assms(1,3) by (auto simp: groups_wf_def dest!: subsetD[OF set_update_subset_insert])
qed

lemma groups_wf_snoc:
  assumes "groups_wf m" "IndexFunc (\<lambda>s. gs_ID s = gs_ID x) (group_in m k) = None" "gs_MemberOf x = k"
  shows "groups_wf (m(k \<mapsto> group_in m k @ [x]))"
proof (rule groups_wf_upd[OF assms(1)])
  have "distinct (map gs_ID (group_in m k))" "\<forall>s \<in> set (group_in m k). gs_MemberOf s = k"
    using assms(1) by (simp_all add: groups_wf_def)
  moreover have "gs_ID x \<notin> gs_ID ` set (group_in m k)"
    using assms(2) by (auto simp: IndexFunc_None)
  ultimately show "distinct (map gs_ID (group_in m k @ [x]))" "\<forall>s \<in> set (group_in m k @ [x]). gs_MemberOf s = k"
    using assms(3) by simp_all
qed

section \<open>The operations over any store\<close>

text \<open>
  \<open>yields ok repr m s x a\<close>: run in state \<open>s\<close>, the operation returns \<open>x\<close>, keeps the store usable
  and leaves it representing the map \<open>a\<close>.
\<close>

definition yields :: "('s \<Rightarrow> bool) \<Rightarrow> ('s \<Rightarrow> 'm) \<Rightarrow> ('s, 'a) repo \<Rightarrow> 's \<Rightarrow> repo_error + 'a \<Rightarrow> 'm \<Rightarrow> bool" where
  "yields ok repr m s x a \<longleftrightarrow> fst (m s) = x \<and> ok (snd (m s)) \<and> repr (snd (m s)) = a"

lemma yields_rbind:
  assumes "yields ok repr m s (Inr x) a"
    and "\<And>s'. ok s' \<Longrightarrow> repr s' = a \<Longrightarrow> yields ok repr (f x) s' y b"
  shows "yields ok repr (rbind m f) s y b"
  using assms by (cases "m s") (auto simp: yields_def rbind_def)

lemma yields_rbind_fail:
  "yields ok repr m s (Inl e) a \<Longrightarrow> yields ok repr (rbind m f) s (Inl e) a"
  by (cases "m s") (auto simp: yields_def rbind_def)

lemma yields_rreturn [simp]: "ok s \<Longrightarrow> repr s = a \<Longrightarrow> yields ok repr (rreturn x) s (Inr x) a"
  by (simp add: yields_def rreturn_def)

lemma yields_rfail [simp]: "ok s \<Longrightarrow> repr s = a \<Longrightarrow> yields ok repr (rfail e) s (Inl e) a"
  by (simp add: yields_def rfail_def)

locale group_store = kv_store ops "[]" inv abs
  for ops :: "('s, GSLBServiceGroup) Store" and inv :: "'s \<Rightarrow> bool"
    and abs :: "'s \<Rightarrow> string \<Rightarrow> GSLBServiceGroup option"
begin

text \<open>Each operation either fails, or succeeds with a known effect on the map.\<close>

lemma Read_yields: "inv s \<Longrightarrow> yields inv abs (repo_Read ops k) s (Inr (group_in (abs s) k)) (abs s)"
  using load_case[of s k] store_laws(5,6)[of s k]
  by (auto simp: yields_def repo_Read_def group_in_def split: option.splits prod.splits)

lemma Save_yields:
  "inv s \<Longrightarrow> abs s = m \<Longrightarrow> yields inv abs (rstore (st_Save ops k g)) s (Inr ()) (m(k \<mapsto> g))"
  using save_case[of s k g] store_laws(2,3)[of s k g]
  by (auto simp: yields_def rstore_def split: option.splits prod.splits)

lemma Remove_yields:
  "inv s \<Longrightarrow> abs s = m \<Longrightarrow> yields inv abs (rstore (st_Delete ops k)) s (Inr ()) (m(k := None))"
  using delete_case[of s k] store_laws(10,11)[of s k]
  by (auto simp: yields_def rstore_def split: option.splits prod.splits)

lemma GetActive_yields:
  assumes "inv s"
  shows "yields inv abs (repo_GetActive ops k) s
    (case find gs_IsActive (group_in (abs s) k) of
       None \<Rightarrow> Inl ErrServiceWithMemberOfNotFound | Some svc \<Rightarrow> Inr svc) (abs s)"
  unfolding repo_GetActive_def
  by (rule yields_rbind[OF Read_yields[OF assms]]) (auto split: option.splits)

lemma HasOverride_yields:
  assumes "inv s"
  shows "yields inv abs (repo_HasOverride ops k) s (Inr (override_in (abs s) k)) (abs s)"
  using GetActive_yields[OF assms, of k]
  by (cases "repo_GetActive ops k s")
    (auto simp: yields_def repo_HasOverride_def override_in_def split: option.splits)

lemma GetMember_yields:
  assumes "inv s"
  shows "yields inv abs (repo_GetMemberInGroup ops k sid) s
    (case member_in (abs s) k sid of None \<Rightarrow> Inl ErrServiceInGroupNotFound | Some svc \<Rightarrow> Inr svc) (abs s)"
  unfolding repo_GetMemberInGroup_def
  by (rule yields_rbind[OF Read_yields[OF assms]])
    (auto simp: member_in_def find_IndexFunc split: option.splits)

lemma Update_yields:
  fixes new :: GSLBService
  assumes "inv s"
  defines "g \<equiv> group_in (abs s) (gs_MemberOf new)"
  shows "yields inv abs (repo_Update ops new) s
    (case IndexFunc (\<lambda>x. gs_ID x = gs_ID new) g of
       None \<Rightarrow> Inl (if g = [] then ErrGroupDoesNotExist else ErrServiceInGroupNotFound)
     | Some i \<Rightarrow> Inr ())
    (case IndexFunc (\<lambda>x. gs_ID x = gs_ID new) g of
       None \<Rightarrow> abs s
     | Some i \<Rightarrow> (abs s)(gs_MemberOf new \<mapsto> g[i := updated_member (abs s) (g ! i) new]))"
  unfolding repo_Update_def
proof (rule yields_rbind[OF HasOverride_yields[OF assms(1)]], rule yields_rbind[OF Read_yields], assumption)
  fix s1 s2
  assume s: "inv s1" "abs s1 = abs s" "inv s2" "abs s2 = abs s1"
  have g: "group_in (abs s1) (gs_MemberOf new) = g" using s by (simp add: g_def)
  show "yields inv abs
    (if group_in (abs s1) (gs_MemberOf new) = [] then rfail ErrGroupDoesNotExist
     else case IndexFunc (\<lambda>x. gs_ID x = gs_ID new) (group_in (abs s1) (gs_MemberOf new)) of
            None \<Rightarrow> rfail ErrServiceInGroupNotFound
          | Some idx \<Rightarrow>
              let x = (if gs_IsActive (group_in (abs s1) (gs_MemberOf new) ! idx) \<and>
                            override_in (abs s) (gs_MemberOf new)
                         then new\<lparr>gs_IP := gs_IP (group_in (abs s1) (gs_MemberOf new) ! idx), gs_HasOverride := True\<rparr>
                         else new)
              in rstore (st_Save ops (gs_MemberOf x) ((group_in (abs s1) (gs_MemberOf new))[idx := x]))) s2
    (case IndexFunc (\<lambda>x. gs_ID x = gs_ID new) g of
       None \<Rightarrow> Inl (if g = [] then ErrGroupDoesNotExist else ErrServiceInGroupNotFound)
     | Some i \<Rightarrow> Inr ())
    (case IndexFunc (\<lambda>x. gs_ID x = gs_ID new) g of
       None \<Rightarrow> abs s
     | Some i \<Rightarrow> (abs s)(gs_MemberOf new \<mapsto> g[i := updated_member (abs s) (g ! i) new]))"
  proof (cases "IndexFunc (\<lambda>x. gs_ID x = gs_ID new) g")
    case None
    then show ?thesis unfolding g using s by simp
  next
    case (Some i)
    moreover from this have "g \<noteq> []" by auto
    ultimately show ?thesis
      unfolding g using Save_yields[OF s(3) s(4)[unfolded s(2)], of "gs_MemberOf new"]
      by (simp add: updated_member_def Let_def if_distrib)
  qed
qed

lemma Create_yields:
  assumes "inv s" "\<not> override_in (abs s) (gs_MemberOf new)"
  defines "g \<equiv> group_in (abs s) (gs_MemberOf new)"
  shows "yields inv abs (repo_Create ops new) s (Inr ())
    ((abs s)(gs_MemberOf new \<mapsto>
      (case IndexFunc (\<lambda>x. gs_ID x = gs_ID new) g of None \<Rightarrow> g @ [new] | Some i \<Rightarrow> g[i := new])))"
  unfolding repo_Create_def
proof (rule yields_rbind[OF HasOverride_yields[OF assms(1)]], simp only: assms(2) if_False,
    rule yields_rbind[OF Read_yields], assumption)
  fix s1 s2
  assume s: "inv s1" "abs s1 = abs s" "inv s2" "abs s2 = abs s1"
  let ?k = "gs_MemberOf new" and ?i = "IndexFunc (\<lambda>x. gs_ID x = gs_ID new) g"
  have s2: "abs s2 = abs s" using s by simp
  have g1: "group_in (abs s1) ?k = g" "group_in (abs s2) ?k = g" using s by (simp_all add: g_def)
  show "yields inv abs (if group_in (abs s1) ?k = [] then rstore (st_Save ops ?k [new])
     else if ContainsFunc (\<lambda>s. gs_ID s = gs_ID new) (group_in (abs s1) ?k) then repo_Update ops new
     else rstore (st_Save ops ?k (group_in (abs s1) ?k @ [new]))) s2 (Inr ())
    ((abs s)(?k \<mapsto> (case ?i of None \<Rightarrow> g @ [new] | Some i \<Rightarrow> g[i := new])))"
  proof (cases ?i)
    case None
    then have "\<forall>x \<in> set g. gs_ID x \<noteq> gs_ID new" by (simp add: IndexFunc_None)
    then show ?thesis
      unfolding g1 using None Save_yields[OF s(3) s2, of ?k "g @ [new]"] by auto
  next
    case (Some i)
    then have "g \<noteq> []" "ContainsFunc (\<lambda>x. gs_ID x = gs_ID new) g"
      by (auto dest!: IndexFunc_SomeD intro!: bexI[of _ "g ! i"])
    then show ?thesis
      using Some assms(2) Update_yields[OF s(3), of new]
      unfolding g1(1) unfolding s2 g_def[symmetric] by (simp add: updated_member_def)
  qed
qed

lemma Create_override:
  assumes "inv s" "override_in (abs s) (gs_MemberOf new)"
  shows "yields inv abs (repo_Create ops new) s (Inr ()) (abs s)"
  unfolding repo_Create_def
  by (rule yields_rbind[OF HasOverride_yields[OF assms(1)]]) (simp add: assms(2))

lemma Delete_yields:
  fixes k sid :: string
  assumes "inv s"
  defines "g \<equiv> DeleteFunc (\<lambda>x. gs_ID x = sid) (group_in (abs s) k)"
  shows "yields inv abs (repo_Delete ops k sid) s (Inr ())
    (if override_in (abs s) k then abs s else (abs s)(k \<mapsto> g))"
  unfolding repo_Delete_def
proof (rule yields_rbind[OF Read_yields[OF assms(1)]], rule yields_rbind[OF HasOverride_yields], assumption)
  fix s1 s2
  assume s: "inv s1" "abs s1 = abs s" "inv s2" "abs s2 = abs s1"
  have s2: "abs s2 = abs s" using s by simp
  have "yields inv abs (rbind (if g = [] then rstore (st_Delete ops k) else rreturn ())
      (\<lambda>_. rstore (st_Save ops k g))) s2 (Inr ()) ((abs s)(k \<mapsto> g))"
  proof (cases "g = []")
    case True
    have "yields inv abs (rbind (rstore (st_Delete ops k)) (\<lambda>_. rstore (st_Save ops k g))) s2 (Inr ())
        ((abs s)(k := None, k \<mapsto> g))"
      by (rule yields_rbind[OF Remove_yields[OF s(3) s2]]) (rule Save_yields)
    then show ?thesis using True by simp
  next
    case False
    show ?thesis
      unfolding if_not_P[OF False]
      by (rule yields_rbind, rule yields_rreturn, rule s(3), rule s2, rule Save_yields)
  qed
  then show "yields inv abs (if override_in (abs s1) k then rreturn ()
      else let group = DeleteFunc (\<lambda>s. gs_ID s = sid) (group_in (abs s) k)
           in rbind (if group = [] then rstore (st_Delete ops k) else rreturn ())
                (\<lambda>_. rstore (st_Save ops k group))) s2 (Inr ())
    (if override_in (abs s) k then abs s else (abs s)(k \<mapsto> g))"
    unfolding g_def[symmetric] using s by (simp add: Let_def)
qed

lemma UpdateOverride_yields:
  assumes "inv s" "IndexFunc (\<lambda>x. gs_ID x = gs_ID svc) (group_in (abs s) (gs_MemberOf svc)) = Some i"
  shows "yields inv abs (repo_UpdateOverride ops ip svc) s (Inr ())
    ((abs s)(gs_MemberOf svc \<mapsto> (group_in (abs s) (gs_MemberOf svc))[i := svc\<lparr>gs_IP := ip\<rparr>]))"
  unfolding repo_UpdateOverride_def Let_def
proof (rule yields_rbind[OF Read_yields[OF assms(1)]])
  fix s1
  assume s: "inv s1" "abs s1 = abs s"
  have "group_in (abs s) (gs_MemberOf svc) \<noteq> []" using assms(2) by auto
  then show "yields inv abs
      (if group_in (abs s) (gs_MemberOf (svc\<lparr>gs_IP := ip\<rparr>)) = [] then rfail ErrGroupDoesNotExist
       else case IndexFunc (\<lambda>s. gs_ID s = gs_ID (svc\<lparr>gs_IP := ip\<rparr>)) (group_in (abs s) (gs_MemberOf (svc\<lparr>gs_IP := ip\<rparr>))) of
              None \<Rightarrow> rfail ErrServiceInGroupNotFound
            | Some idx \<Rightarrow> rstore (st_Save ops (gs_MemberOf (svc\<lparr>gs_IP := ip\<rparr>))
                ((group_in (abs s) (gs_MemberOf (svc\<lparr>gs_IP := ip\<rparr>)))[idx := svc\<lparr>gs_IP := ip\<rparr>]))) s1
      (Inr ()) ((abs s)(gs_MemberOf svc \<mapsto> (group_in (abs s) (gs_MemberOf svc))[i := svc\<lparr>gs_IP := ip\<rparr>]))"
    using assms(2) Save_yields[OF s] by simp
qed

lemma RemoveOverrideFlag_yields:
  assumes "inv s"
  shows "yields inv abs (repo_RemoveOverrideFlag ops k) s (Inr ())
    ((abs s)(k \<mapsto> map (\<lambda>x. x\<lparr>gs_HasOverride := False\<rparr>) (group_in (abs s) k)))"
  unfolding repo_RemoveOverrideFlag_def
  by (rule yields_rbind[OF Read_yields[OF assms]]) (rule Save_yields)

text \<open>Consequences: lookups after an operation, and the well-formedness of the groups.\<close>

lemma member_after_upd:
  assumes "IndexFunc (\<lambda>x. gs_ID x = gs_ID svc) (group_in m k) = Some i"
  shows "member_in (m(k \<mapsto> (group_in m k)[i := svc])) k (gs_ID svc) = Some svc"
  by (simp add: member_in_def find_update_first[OF assms])

lemma Create_then_member:
  assumes "inv s" "\<not> override_in (abs s) (gs_MemberOf new)"
  shows "member_in (abs (snd (repo_Create ops new s))) (gs_MemberOf new) (gs_ID new) = Some new"
proof (cases "IndexFunc (\<lambda>x. gs_ID x = gs_ID new) (group_in (abs s) (gs_MemberOf new))")
  case None
  then have "find (\<lambda>x. gs_ID x = gs_ID new) (group_in (abs s) (gs_MemberOf new)) = None"
    by (simp add: find_IndexFunc)
  then have "find (\<lambda>x. gs_ID x = gs_ID new) (group_in (abs s) (gs_MemberOf new) @ [new]) = Some new"
    by (simp add: find_snoc)
  then show ?thesis using Create_yields[OF assms] None by (simp add: yields_def member_in_def)
next
  case (Some i)
  then show ?thesis
    using Create_yields[OF assms] member_after_upd[of new] by (simp add: yields_def)
qed

lemma Create_wf:
  assumes "inv s" "groups_wf (abs s)"
  shows "groups_wf (abs (snd (repo_Create ops new s)))"
proof (cases "override_in (abs s) (gs_MemberOf new)")
  case True
  then show ?thesis using Create_override[OF assms(1) True] assms(2) by (simp add: yields_def)
next
  case False
  let ?g = "group_in (abs s) (gs_MemberOf new)"
  show ?thesis
  proof (cases "IndexFunc (\<lambda>x. gs_ID x = gs_ID new) ?g")
    case None
    then show ?thesis
      using Create_yields[OF assms(1) False] groups_wf_snoc[OF assms(2) None]
      by (simp add: yields_def)
  next
    case (Some i)
    then show ?thesis
      using Create_yields[OF assms(1) False] groups_wf_replace[OF assms(2) Some]
      by (simp add: yields_def)
  qed
qed

lemma Update_wf:
  assumes "inv s" "groups_wf (abs s)"
  shows "groups_wf (abs (snd (repo_Update ops new s)))"
proof (cases "IndexFunc (\<lambda>x. gs_ID x = gs_ID new) (group_in (abs s) (gs_MemberOf new))")
  case None
  then show ?thesis using Update_yields[OF assms(1), of new] assms(2) by (simp add: yields_def)
next
  case (Some i)
  let ?x = "updated_member (abs s) (group_in (abs s) (gs_MemberOf new) ! i) new"
  have "gs_ID ?x = gs_ID new" "gs_MemberOf ?x = gs_MemberOf new"
    by (auto simp: updated_member_def)
  then show ?thesis
    using Update_yields[OF assms(1), of new] Some groups_wf_replace[OF assms(2), of ?x]
    by (simp add: yields_def)
qed

lemma Delete_wf:
  assumes "inv s" "groups_wf (abs s)"
  shows "groups_wf (abs (snd (repo_Delete ops k sid s)))"
proof -
  have "groups_wf ((abs s)(k \<mapsto> DeleteFunc (\<lambda>x. gs_ID x = sid) (group_in (abs s) k)))"
    using assms(2) by (intro groups_wf_upd) (auto simp: groups_wf_def distinct_map_DeleteFunc)
  then show ?thesis
    using Delete_yields[OF assms(1), of k sid] assms(2) by (simp add: yields_def split: if_splits)
qed

end

interpretation mem_groups: group_store "mem_ops []" keys_ok map_of
  by unfold_locales

interpretation file_groups: group_store "file_ops []" file_inv file_map
  by unfold_locales

end
