(* ===== verification/Manager.thy ===== *)
theory Manager
  imports GroupActive ScheduledServices Scheduler ServiceRepo
begin

text \<open>
  \<^verbatim>\<open>internal/manager/manager.go\<close>: the services manager ties the health checks, the schedulers, the
  service groups and the stored state together. Its operations are state transformations of the
  record \<open>Manager\<close> that end in a panic where the code panics or blocks for ever. The mutex of the
  manager is the flag \<open>m_mutex\<close>; services live in the heap \<open>m_heap\<close>, so that the manager, its
  groups and its schedulers share them by reference. The calls of \<^verbatim>\<open>DNSUpdate\<close> are recorded in
  \<open>m_dns\<close>. The clock and the random generator that \<^verbatim>\<open>ScheduleService\<close> reads are the n-th entry
  of the stream \<open>me_time\<close> at the n-th reading.
\<close>

section \<open>State\<close>

record 's MEnv =
  me_net :: NetEnv
  me_ops :: "('s, GSLBServiceGroup) Store"
  me_time :: "nat \<Rightarrow> int \<times> rat"

record 's Manager =
  m_heap :: services
  m_next :: sref
  m_scheduled :: ScheduledServices
  m_schedulers :: "(Duration, Scheduler) gomap"
  m_groups :: "(string, ServiceGroup) gomap"
  m_store :: 's
  m_mutex :: bool
  m_stopped :: bool
  m_DNSUpdate :: bool
  m_dns :: "(sref \<times> bool) list"
  m_dryrun :: bool
  m_readings :: nat

definition NewManager :: "bool \<Rightarrow> 's \<Rightarrow> 's Manager" where
  "NewManager dryrun repo = \<lparr>m_heap = (\<lambda>r. blank_service\<lparr>svc_MemberOf := []\<rparr>), m_next = 0, m_scheduled = [], m_schedulers = [],
     m_groups = [], m_store = repo, m_mutex = False, m_stopped = False, m_DNSUpdate = False, m_dns = [],
     m_dryrun = dryrun, m_readings = 0\<rparr>"

definition m_lock :: "'s Manager \<Rightarrow> 's Manager res" where
  "m_lock m = (if m_mutex m then Panic Deadlock else Ok (m\<lparr>m_mutex := True\<rparr>))"

definition m_unlock :: "'s Manager \<Rightarrow> 's Manager" where
  "m_unlock m = m\<lparr>m_mutex := False\<rparr>"

definition m_rlock :: "'s Manager \<Rightarrow> unit res" where
  "m_rlock m = (if m_mutex m then Panic Deadlock else Ok ())"

text \<open>A call of the repository.\<close>

definition on_repo :: "('s, 'a) repo \<Rightarrow> 's Manager \<Rightarrow> (repo_error + 'a) \<times> 's Manager" where
  "on_repo r m = (let (x, s) = r (m_store m) in (x, m\<lparr>m_store := s\<rparr>))"

section \<open>Schedulers and intervals\<close>

definition newScheduler :: "'s MEnv \<Rightarrow> Duration \<Rightarrow> 's Manager \<Rightarrow> 's Manager" where
  "newScheduler env interval m =
     (case mget (m_schedulers m) interval of
        Some s \<Rightarrow> m
      | None \<Rightarrow> m\<lparr>m_schedulers := mput interval (NewScheduler (me_net env) interval) (m_schedulers m)\<rparr>)"

definition schedule_on :: "'s MEnv \<Rightarrow> Duration \<Rightarrow> sref \<Rightarrow> 's Manager \<Rightarrow> 's Manager res" where
  "schedule_on env interval svc m =
     bind (deref (mget (m_schedulers m) interval)) (\<lambda>s.
     let (now, u) = me_time env (m_readings m) in
     bind (ScheduleService (me_net env) now u svc s) (\<lambda>s.
     Ok (m\<lparr>m_schedulers := mput interval s (m_schedulers m), m_readings := Suc (m_readings m)\<rparr>)))"

definition unschedule_on :: "Duration \<Rightarrow> sref \<Rightarrow> 's Manager \<Rightarrow> (bool \<times> 's Manager) res" where
  "unschedule_on interval svc m =
     bind (deref (mget (m_schedulers m) interval)) (\<lambda>s.
     let (last, s) = sched_RemoveService (m_heap m) svc s in
     Ok (last, m\<lparr>m_schedulers := mput interval s (m_schedulers m)\<rparr>))"

definition cleanupInterval :: "Duration \<Rightarrow> 's Manager \<Rightarrow> 's Manager res" where
  "cleanupInterval interval m =
     (case mget (m_schedulers m) interval of
        None \<Rightarrow> Ok m
      | Some s \<Rightarrow>
          bind (sched_Stop s) (\<lambda>s. Ok (m\<lparr>m_schedulers := mdel interval (m_schedulers m)\<rparr>)))"

definition moveServiceToInterval :: "'s MEnv \<Rightarrow> sref \<Rightarrow> Duration \<Rightarrow> 's Manager \<Rightarrow> 's Manager res" where
  "moveServiceToInterval env svc newInterval m =
     (let oldInterval = svc_ScheduledInterval (m_heap m svc) in
      if oldInterval = newInterval then Ok m
      else
        let (h, ss) = ss_MoveToInterval svc newInterval (m_heap m, m_scheduled m);
            m = m\<lparr>m_heap := h, m_scheduled := ss\<rparr>
        in bind (unschedule_on oldInterval svc m) (\<lambda>(last, m).
           bind (if last then cleanupInterval oldInterval m else Ok m) (\<lambda>m.
           schedule_on env newInterval svc (newScheduler env newInterval m))))"

section \<open>Promotions\<close>

definition DNSUpdate :: "sref \<Rightarrow> bool \<Rightarrow> 's Manager \<Rightarrow> 's Manager res" where
  "DNSUpdate svc isUp m = (if m_DNSUpdate m then Ok (m\<lparr>m_dns := m_dns m @ [(svc, isUp)]\<rparr>) else Panic NilDeref)"

text \<open>Storing a service with its active flag.\<close>

definition store_active :: "'s MEnv \<Rightarrow> sref \<Rightarrow> bool \<Rightarrow> 's Manager \<Rightarrow> (repo_error + unit) \<times> 's Manager" where
  "store_active env svc active m =
     on_repo (repo_Update (me_ops env) ((toGSLBService (m_heap m svc))\<lparr>gs_IsActive := active\<rparr>)) m"

definition handlePromotion :: "'s MEnv \<Rightarrow> PromotionEvent \<Rightarrow> 's Manager \<Rightarrow> 's Manager res" where
  "handlePromotion env event m =
     bind (m_lock m) (\<lambda>m.
       let newID = (case pe_NewActive event of Some n \<Rightarrow> svc_id (m_heap m n) | None \<Rightarrow> []);
           oldID = (case pe_OldActive event of Some old \<Rightarrow> svc_id (m_heap m old) | None \<Rightarrow> [])
       in if newID = oldID then Ok (m_unlock m)
       else
         let baseInterval = (case pe_OldActive event of
                 Some old \<Rightarrow> GetBaseInterval (me_net env) (m_heap m old) | None \<Rightarrow> 0);
             baseInterval = (case pe_NewActive event of
                 Some n \<Rightarrow> if baseInterval = 0 then GetBaseInterval (me_net env) (m_heap m n) else baseInterval
               | None \<Rightarrow> baseInterval)
         in case (pe_OldActive event, pe_NewActive event) of
              (Some old, Some n) \<Rightarrow>
                let demotedInterval = svc_ScheduledInterval (m_heap m n) in
                (case store_active env old False m of
                   (Inl e, m) \<Rightarrow> Ok (m_unlock m)
                 | (Inr _, m) \<Rightarrow>
                   (case store_active env n True m of
                      (Inl e, m) \<Rightarrow> Ok (m_unlock m)
                    | (Inr _, m) \<Rightarrow>
                        bind (moveServiceToInterval env old demotedInterval m) (\<lambda>m.
                        bind (DNSUpdate old False m) (\<lambda>m.
                        bind (moveServiceToInterval env n baseInterval m) (\<lambda>m.
                        bind (DNSUpdate n True m) (\<lambda>m. Ok (m_unlock m)))))))
            | (None, Some n) \<Rightarrow>
                (case store_active env n True m of
                   (Inl e, m) \<Rightarrow> Ok (m_unlock m)
                 | (Inr _, m) \<Rightarrow>
                     bind (moveServiceToInterval env n baseInterval m) (\<lambda>m.
                     if \<not> m_DNSUpdate m then Panic ProcessExit
                     else bind (DNSUpdate n True m) (\<lambda>m. Ok (m_unlock m))))
            | (Some old, None) \<Rightarrow>
                (case store_active env old False m of
                   (Inl e, m) \<Rightarrow> Ok (m_unlock m)
                 | (Inr _, m) \<Rightarrow> bind (DNSUpdate old False m) (\<lambda>m. Ok (m_unlock m)))
            | (None, None) \<Rightarrow> Ok (m_unlock m))"

section \<open>Groups\<close>

text \<open>
  Calling an operation of a group through the map, with the manager as the world of its callback;
  \<^verbatim>\<open>handlePromotion\<close> does not touch the groups.
\<close>

definition on_group ::
  "string \<Rightarrow> (ServiceGroup \<Rightarrow> 's Manager \<Rightarrow> (ServiceGroup \<times> 's Manager) res) \<Rightarrow> 's Manager \<Rightarrow> 's Manager res" where
  "on_group k f m =
     bind (deref (mget (m_groups m) k)) (\<lambda>g.
     bind (f g m) (\<lambda>(g, m). Ok (m\<lparr>m_groups := mput k g (m_groups m)\<rparr>)))"

definition newServiceGroup :: "string \<Rightarrow> 's Manager \<Rightarrow> 's Manager" where
  "newServiceGroup memberOf m = m\<lparr>m_groups := mput memberOf (NewEmptyServiceGroup memberOf) (m_groups m)\<rparr>"

definition deleteGroup :: "string \<Rightarrow> 's Manager \<Rightarrow> 's Manager res" where
  "deleteGroup memberOf m =
     bind (m_lock m) (\<lambda>m. Ok (m_unlock (m\<lparr>m_groups := mdel memberOf (m_groups m)\<rparr>)))"

definition register_in_group :: "'s MEnv \<Rightarrow> string \<Rightarrow> sref \<Rightarrow> 's Manager \<Rightarrow> 's Manager res" where
  "register_in_group env k svc = on_group k (group_RegisterService m_heap (handlePromotion env) (Some svc))"

definition remove_from_group :: "'s MEnv \<Rightarrow> string \<Rightarrow> string \<Rightarrow> 's Manager \<Rightarrow> (bool \<times> 's Manager) res" where
  "remove_from_group env k sid m =
     bind (deref (mget (m_groups m) k)) (\<lambda>g.
     bind (group_RemoveService m_heap (handlePromotion env) sid g m) (\<lambda>(gone, g, m).
     Ok (gone, m\<lparr>m_groups := mput k g (m_groups m)\<rparr>)))"

text \<open>The health-change callback that \<^verbatim>\<open>RegisterService\<close> installs, and a finished check.\<close>

definition onHealthChange :: "'s MEnv \<Rightarrow> sref \<Rightarrow> bool \<Rightarrow> 's Manager \<Rightarrow> 's Manager res" where
  "onHealthChange env svc healthy m =
     (let m = snd (on_repo (repo_Update (me_ops env) (toGSLBService (m_heap m svc))) m)
      in on_group (svc_MemberOf (m_heap m svc))
           (OnServiceHealthChange m_heap (handlePromotion env) svc healthy) m)"

definition checkDone :: "'s MEnv \<Rightarrow> sref \<Rightarrow> bool \<Rightarrow> 's Manager \<Rightarrow> 's Manager res" where
  "checkDone env svc ok m =
     (let (s, callback) = (if ok then OnSuccess (m_heap m svc) else OnFailure (m_heap m svc));
          m = m\<lparr>m_heap := (m_heap m)(svc := s)\<rparr>
      in case callback of
           None \<Rightarrow> Ok m
         | Some healthy \<Rightarrow> if svc_callbackSet s then onHealthChange env svc healthy m else Panic NilDeref)"

section \<open>Registering, updating and removing services\<close>

datatype manager_error = ErrRegister service_error | ErrCreate repo_error | ErrServiceNotFound
  | ErrDelete repo_error | ErrNoGroup | ErrShutdown repo_error

definition BuildServiceOptions :: "'s MEnv \<Rightarrow> GSLBConfig \<Rightarrow> 's Manager \<Rightarrow> ServiceOption list \<times> 's Manager" where
  "BuildServiceOptions env config m =
     (let opts = [WithDryRunChecks (m_dryrun m)] in
      case on_repo (repo_GetMemberInGroup (me_ops env) (cfg_MemberOf config) (cfg_ServiceID config)) m of
        (Inl e, m) \<Rightarrow> (opts @ [WithFailureCount (cfg_FailureThreshold config)], m)
      | (Inr svc, m) \<Rightarrow>
          let opts = opts @ [WithFailureCount (gs_FailureCount svc)]
          in (if gs_IsHealthy svc then opts @ [WithHealthy] else opts, m))"

text \<open>\<^verbatim>\<open>memberOfChanged\<close> returns with the mutex still locked when the repository fails.\<close>

definition memberOfChanged :: "'s MEnv \<Rightarrow> string \<Rightarrow> string \<Rightarrow> sref \<Rightarrow> 's Manager \<Rightarrow> 's Manager res" where
  "memberOfChanged env oldMemberOf newMemberOf svc m =
     bind (m_lock m) (\<lambda>m.
     case on_repo (repo_Delete (me_ops env) oldMemberOf (svc_id (m_heap m svc))) m of
       (Inl e, m) \<Rightarrow> Ok m
     | (Inr _, m) \<Rightarrow>
       (case on_repo (repo_Create (me_ops env) (toGSLBService (m_heap m svc))) m of
          (Inl e, m) \<Rightarrow> Ok m
        | (Inr _, m) \<Rightarrow>
            let m = (if mget (m_groups m) newMemberOf = None then newServiceGroup newMemberOf m else m);
                oldOk = (mget (m_groups m) oldMemberOf \<noteq> None);
                m = m_unlock m
            in bind (register_in_group env newMemberOf svc m) (\<lambda>m.
               bind (if oldOk then remove_from_group env oldMemberOf (svc_id (m_heap m svc)) m
                     else Ok (False, m)) (\<lambda>(empty, m).
               if empty then deleteGroup oldMemberOf m else Ok m))))"

definition updateService :: "'s MEnv \<Rightarrow> sref \<Rightarrow> sref \<Rightarrow> 's Manager \<Rightarrow> 's Manager res" where
  "updateService env old new m =
     (if old = new then Ok m
      else
        bind (m_lock m) (\<lambda>m.
        if \<not> ConfigChanged (m_heap m old) (m_heap m new) then Ok (m_unlock m)
        else
          let oldDefaultInterval = svc_defaultInterval (m_heap m old);
              newDefaultInterval = svc_defaultInterval (m_heap m new);
              oldMemberOf = svc_MemberOf (m_heap m old);
              newMemberOf = svc_MemberOf (m_heap m new);
              m = m_unlock (m\<lparr>m_heap := (m_heap m)(old := Assign (m_heap m old) (m_heap m new))\<rparr>)
          in bind (if oldMemberOf \<noteq> newMemberOf then memberOfChanged env oldMemberOf newMemberOf old m
                   else bind (m_rlock m) (\<lambda>_.
                     if mget (m_groups m) oldMemberOf \<noteq> None
                     then on_group oldMemberOf (group_Update m_heap (handlePromotion env)) m
                     else deleteGroup oldMemberOf m)) (\<lambda>m.
             bind (m_lock m) (\<lambda>m.
             let m = snd (on_repo (repo_Update (me_ops env) (toGSLBService (m_heap m old))) m)
             in bind (if oldDefaultInterval \<noteq> newDefaultInterval \<and>
                         oldDefaultInterval = svc_ScheduledInterval (m_heap m old)
                      then moveServiceToInterval env old newDefaultInterval m else Ok m) (\<lambda>m.
                Ok (m_unlock m))))))"

definition RegisterService :: "'s MEnv \<Rightarrow> GSLBConfig \<Rightarrow> 's Manager \<Rightarrow> ((manager_error + sref) \<times> 's Manager) res" where
  "RegisterService env serviceCfg m =
     (let (opts, m) = BuildServiceOptions env serviceCfg m in
      case NewServiceFromGSLBConfig (me_net env) serviceCfg opts of
        Inl e \<Rightarrow> Ok (Inl (ErrRegister e), m)
      | Inr s \<Rightarrow>
          let newService = m_next m;
              m = m\<lparr>m_heap := (m_heap m)(newService := s), m_next := Suc (m_next m)\<rparr>
          in bind (m_rlock m) (\<lambda>_.
             case ss_Search (m_heap m) (svc_id s) (m_scheduled m) of
               Some (idx, interval, oldSvc) \<Rightarrow>
                 bind (updateService env oldSvc newService m) (\<lambda>m. Ok (Inr newService, m))
             | None \<Rightarrow>
                 bind (m_lock m) (\<lambda>m.
                 case on_repo (repo_Create (me_ops env) (toGSLBService s)) m of
                   (Inl e, m) \<Rightarrow> Ok (Inl (ErrCreate e), m_unlock m)
                 | (Inr _, m) \<Rightarrow>
                     let s = SetHealthChangeCallback s;
                         m = m\<lparr>m_heap := (m_heap m)(newService := s)\<rparr>;
                         m = newScheduler env (svc_ScheduledInterval s) m
                     in bind (schedule_on env (svc_ScheduledInterval s) newService m) (\<lambda>m.
                        let m = m\<lparr>m_scheduled := ss_Add (m_heap m) newService (m_scheduled m)\<rparr>;
                            memberOf = svc_MemberOf s;
                            m = (if mget (m_groups m) memberOf = None then newServiceGroup memberOf m else m)
                        in bind (register_in_group env memberOf newService m) (\<lambda>m.
                           Ok (Inr newService, m_unlock m))))))"

definition RemoveService :: "'s MEnv \<Rightarrow> string \<Rightarrow> 's Manager \<Rightarrow> (manager_error option \<times> 's Manager) res" where
  "RemoveService env sid m =
     bind (m_rlock m) (\<lambda>_.
     case ss_Search (m_heap m) sid (m_scheduled m) of
       None \<Rightarrow> Ok (Some ErrServiceNotFound, m)
     | Some (idx, interval, svc) \<Rightarrow>
         bind (unschedule_on interval svc m) (\<lambda>(last, m).
         bind (m_rlock m) (\<lambda>_.
         bind (remove_from_group env (svc_MemberOf (m_heap m svc)) (svc_id (m_heap m svc)) m) (\<lambda>(empty, m).
         bind (if empty then deleteGroup (svc_MemberOf (m_heap m svc)) m else Ok m) (\<lambda>m.
         bind (m_lock m) (\<lambda>m.
         let m = m\<lparr>m_scheduled := ss_Delete (m_heap m) sid (m_scheduled m)\<rparr>
         in case on_repo (repo_Delete (me_ops env) (svc_MemberOf (m_heap m svc)) (svc_id (m_heap m svc))) m of
              (Inl e, m) \<Rightarrow> Ok (Some (ErrDelete e), m_unlock m)
            | (Inr _, m) \<Rightarrow> Ok (None, m_unlock m)))))))"

section \<open>Queries and shutdown\<close>

definition GetActiveForMemberOf :: "string \<Rightarrow> 's Manager \<Rightarrow> sref option res" where
  "GetActiveForMemberOf memberOf m =
     bind (m_rlock m) (\<lambda>_.
     case mget (m_groups m) memberOf of
       Some grp \<Rightarrow> GetActive (m_heap m) grp
     | None \<Rightarrow> Ok None)"

definition Failover :: "string \<Rightarrow> string \<Rightarrow> 's Manager \<Rightarrow> manager_error option" where
  "Failover fqdn datacenter m =
     (case mget (m_groups m) fqdn of
        None \<Rightarrow> Some ErrNoGroup
      | Some grp \<Rightarrow> map_option (\<lambda>e. ErrNoGroup) (fst (group_Failover fqdn datacenter grp)))"

fun shutdown_members ::
  "'s MEnv \<Rightarrow> string \<Rightarrow> sref option \<Rightarrow> sref list \<Rightarrow> 's Manager \<Rightarrow> manager_error option \<times> 's Manager" where
  "shutdown_members env memberOf active [] m = (None, m)"
| "shutdown_members env memberOf active (svc # svcs) m =
     (let gslbService = (toGSLBService (m_heap m svc))
            \<lparr>gs_IsActive := (case active of None \<Rightarrow> False | Some a \<Rightarrow> svc_id (m_heap m a) = svc_id (m_heap m svc))\<rparr>
      in case on_repo (repo_HasOverride (me_ops env) memberOf) m of
           (Inl e, m) \<Rightarrow> (Some (ErrShutdown e), m)
         | (Inr override, m) \<Rightarrow>
             (case on_repo (repo_Update (me_ops env) (gslbService\<lparr>gs_HasOverride := override\<rparr>)) m of
                (Inl e, m) \<Rightarrow> (Some (ErrShutdown e), m)
              | (Inr _, m) \<Rightarrow> shutdown_members env memberOf active svcs m))"

fun shutdown_groups ::
  "'s MEnv \<Rightarrow> (string, ServiceGroup) gomap \<Rightarrow> 's Manager \<Rightarrow> (manager_error option \<times> 's Manager) res" where
  "shutdown_groups env [] m = Ok (None, m)"
| "shutdown_groups env ((memberOf, grp) # gs) m =
     bind (GetActive (m_heap m) grp) (\<lambda>active.
     case shutdown_members env memberOf active (sg_Members grp) m of
       (Some e, m) \<Rightarrow> Ok (Some e, m)
     | (None, m) \<Rightarrow> shutdown_groups env gs m)"

definition OnShutdown :: "'s MEnv \<Rightarrow> 's Manager \<Rightarrow> (manager_error option \<times> 's Manager) res" where
  "OnShutdown env m =
     bind (m_lock m) (\<lambda>m.
     bind (shutdown_groups env (m_groups m) m) (\<lambda>(e, m). Ok (e, m_unlock m)))"

fun stop_schedulers :: "(Duration, Scheduler) gomap \<Rightarrow> (Duration, Scheduler) gomap res" where
  "stop_schedulers [] = Ok []"
| "stop_schedulers ((iv, s) # ss) =
     bind (sched_Stop s) (\<lambda>s. bind (stop_schedulers ss) (\<lambda>ss. Ok ((iv, s) # ss)))"

text \<open>\<^verbatim>\<open>Stop\<close> runs once; it waits for the loops and the pool before it stores the services.\<close>

definition manager_Stop :: "'s MEnv \<Rightarrow> 's Manager \<Rightarrow> 's Manager res" where
  "manager_Stop env m =
     (if m_stopped m then Ok m
      else
        bind (stop_schedulers (m_schedulers m)) (\<lambda>ss.
        bind (OnShutdown env (m\<lparr>m_stopped := True, m_schedulers := ss\<rparr>)) (\<lambda>(e, m). Ok m)))"

end
