(* ===== verification/Promotion.thy ===== *)
theory Promotion
  imports Manager
begin

text \<open>
  What the manager does about a promotion event, and what the groups of the manager inherit from it:
  \<^verbatim>\<open>handlePromotion\<close> is an instance of the callback contract of a group, moves the services between
  the intervals, swaps the stored active flags and updates DNS.
\<close>

section \<open>What a step leaves alone\<close>

definition only_intervals :: "services \<Rightarrow> services \<Rightarrow> bool" where
  "only_intervals h h' \<longleftrightarrow> (\<forall>r. h' r = (h r)\<lparr>svc_ScheduledInterval := svc_ScheduledInterval (h' r)\<rparr>)"

definition frame :: "'s Manager \<Rightarrow> 's Manager \<Rightarrow> bool" where
  "frame m m' \<longleftrightarrow> only_intervals (m_heap m) (m_heap m') \<and> m_groups m' = m_groups m \<and>
     m_next m' = m_next m \<and> m_DNSUpdate m' = m_DNSUpdate m \<and> m_dryrun m' = m_dryrun m \<and>
     m_stopped m' = m_stopped m"

lemma only_intervals_refl [simp]: "only_intervals h h"
  by (simp add: only_intervals_def)

lemma only_intervals_trans: "only_intervals h h' \<Longrightarrow> only_intervals h' h'' \<Longrightarrow> only_intervals h h''"
proof -
  assume a: "only_intervals h h'" and b: "only_intervals h' h''"
  have "h'' r = (h r)\<lparr>svc_ScheduledInterval := svc_ScheduledInterval (h'' r)\<rparr>" for r
  proof -
    obtain i j where ij: "h' r = (h r)\<lparr>svc_ScheduledInterval := i\<rparr>" "h'' r = (h' r)\<lparr>svc_ScheduledInterval := j\<rparr>"
      using a b unfolding only_intervals_def by blast
    show ?thesis unfolding ij by simp
  qed
  then show ?thesis by (simp add: only_intervals_def)
qed

lemma only_intervals_eqs:
  assumes "only_intervals h h'"
  shows "svc_id (h' r) = svc_id (h r)" "svc_isHealthy (h' r) = svc_isHealthy (h r)"
    "svc_priority (h' r) = svc_priority (h r)" "svc_Datacenter (h' r) = svc_Datacenter (h r)"
    "svc_checker (h' r) = svc_checker (h r)" "svc_MemberOf (h' r) = svc_MemberOf (h r)"
    "toGSLBService (h' r) = toGSLBService (h r)" "GetBaseInterval env (h' r) = GetBaseInterval env (h r)"
proof -
  from assms have "h' r = (h r)\<lparr>svc_ScheduledInterval := svc_ScheduledInterval (h' r)\<rparr>"
    unfolding only_intervals_def by blast
  then obtain iv where eq: "h' r = (h r)\<lparr>svc_ScheduledInterval := iv\<rparr>" by blast
  show "svc_id (h' r) = svc_id (h r)" "svc_isHealthy (h' r) = svc_isHealthy (h r)"
    "svc_priority (h' r) = svc_priority (h r)" "svc_Datacenter (h' r) = svc_Datacenter (h r)"
    "svc_checker (h' r) = svc_checker (h r)" "svc_MemberOf (h' r) = svc_MemberOf (h r)"
    "toGSLBService (h' r) = toGSLBService (h r)" "GetBaseInterval env (h' r) = GetBaseInterval env (h r)"
    by (simp_all add: eq toGSLBService_def GetIP_def GetBaseInterval_def)
qed

lemma only_intervals_health: "only_intervals h h' \<Longrightarrow> same_health h h'"
  unfolding same_health_def GetAverageRoundtrip_def by (simp add: only_intervals_eqs)

lemma frame_refl [simp]: "frame m m"
  by (simp add: frame_def)

lemma frame_trans: "frame m m' \<Longrightarrow> frame m' m'' \<Longrightarrow> frame m m''"
  unfolding frame_def using only_intervals_trans by metis

lemma frame_updates [simp]:
  "frame m (x\<lparr>m_mutex := b\<rparr>) = frame m x" "frame m (x\<lparr>m_store := s\<rparr>) = frame m x"
  "frame m (x\<lparr>m_schedulers := sc\<rparr>) = frame m x" "frame m (x\<lparr>m_scheduled := ss\<rparr>) = frame m x"
  "frame m (x\<lparr>m_dns := d\<rparr>) = frame m x" "frame m (x\<lparr>m_readings := n\<rparr>) = frame m x"
  "frame m (m_unlock x) = frame m x"
  by (simp_all add: frame_def m_unlock_def)

lemma frame_updates_left [simp]:
  "frame (x\<lparr>m_mutex := b\<rparr>) m = frame x m" "frame (x\<lparr>m_store := s\<rparr>) m = frame x m"
  "frame (x\<lparr>m_dns := d\<rparr>) m = frame x m"
  by (simp_all add: frame_def)

lemma m_lock_Ok: "m_lock m = Ok m' \<longleftrightarrow> \<not> m_mutex m \<and> m' = m\<lparr>m_mutex := True\<rparr>"
  by (auto simp: m_lock_def)

lemma on_repo_eq: "on_repo r m = (fst (r (m_store m)), m\<lparr>m_store := snd (r (m_store m))\<rparr>)"
  by (simp add: on_repo_def split: prod.splits)

lemma store_active_eq:
  "store_active env svc b m =
     (fst (repo_Update (me_ops env) ((toGSLBService (m_heap m svc))\<lparr>gs_IsActive := b\<rparr>) (m_store m)),
      m\<lparr>m_store := snd (repo_Update (me_ops env) ((toGSLBService (m_heap m svc))\<lparr>gs_IsActive := b\<rparr>) (m_store m))\<rparr>)"
  by (simp add: store_active_def on_repo_eq)

lemma schedule_on_frame: "schedule_on env iv r m = Ok m' \<Longrightarrow> frame m m'"
  by (auto simp: schedule_on_def bind_eq_Ok case_prod_beta)

lemma unschedule_on_frame: "unschedule_on iv r m = Ok (b, m') \<Longrightarrow> frame m m'"
  by (auto simp: unschedule_on_def bind_eq_Ok case_prod_beta)

lemma cleanupInterval_frame: "cleanupInterval iv m = Ok m' \<Longrightarrow> frame m m'"
  by (auto simp: cleanupInterval_def bind_eq_Ok split: option.splits)

lemma newScheduler_frame: "frame m (newScheduler env iv m)"
  by (auto simp: newScheduler_def split: option.splits)

lemma MoveToInterval_intervals:
  "ss_MoveToInterval r iv (h, s) = (h', s') \<Longrightarrow> only_intervals h h'"
  by (auto simp: ss_MoveToInterval_def Let_def only_intervals_def split: option.splits)

lemma moveServiceToInterval_frame:
  assumes "moveServiceToInterval env r iv m = Ok m'" shows "frame m m'"
proof (cases "svc_ScheduledInterval (m_heap m r) = iv")
  case True
  then show ?thesis using assms by (simp add: moveServiceToInterval_def)
next
  case False
  obtain h ss where mv: "ss_MoveToInterval r iv (m_heap m, m_scheduled m) = (h, ss)" by fastforce
  let ?m = "m\<lparr>m_heap := h, m_scheduled := ss\<rparr>"
  have f0: "frame m ?m" using MoveToInterval_intervals[OF mv] by (simp add: frame_def)
  obtain b m1 m2 where m1: "unschedule_on (svc_ScheduledInterval (m_heap m r)) r ?m = Ok (b, m1)"
    and m2: "(if b then cleanupInterval (svc_ScheduledInterval (m_heap m r)) m1 else Ok m1) = Ok m2"
    and m': "schedule_on env iv r (newScheduler env iv m2) = Ok m'"
    using assms False mv by (auto simp: moveServiceToInterval_def Let_def bind_eq_Ok)
  have f2: "frame m1 m2" using m2 by (auto intro: cleanupInterval_frame split: if_splits)
  show ?thesis
    using f0 unschedule_on_frame[OF m1] f2 newScheduler_frame[of m2 env iv] schedule_on_frame[OF m']
    by (meson frame_trans)
qed

lemma DNSUpdate_Ok: "DNSUpdate r b m = Ok m' \<longleftrightarrow> m_DNSUpdate m \<and> m' = m\<lparr>m_dns := m_dns m @ [(r, b)]\<rparr>"
  by (auto simp: DNSUpdate_def)

text \<open>The four outcomes of a promotion that return.\<close>

lemma handlePromotion_frame:
  assumes "handlePromotion env ev m = Ok m'" shows "frame m m'"
proof -
  note frames = moveServiceToInterval_frame[where 'a = 'a]
  show ?thesis
    using assms
    by (auto simp: handlePromotion_def bind_eq_Ok m_lock_Ok store_active_eq DNSUpdate_Ok Let_def
        split: option.splits if_splits sum.splits prod.splits
        dest!: frames elim!: frame_trans)
qed

interpretation mgr: promotion_callback m_heap "handlePromotion env" for env
  by unfold_locales (auto dest!: handlePromotion_frame simp: frame_def only_intervals_health)

section \<open>Well-formed managers\<close>

text \<open>
  Every scheduled service has an entry, to be rescheduled, in the heap of the scheduler of its
  interval; schedulers are running and can take services.
\<close>

definition sched_ok :: "Scheduler \<Rightarrow> bool" where
  "sched_ok s \<longleftrightarrow> heap_inv sd_nextCheckTime (length (sc_heap s)) (sc_heap s) \<and> sc_maxOffSets s \<noteq> 0 \<and>
     \<not> sc_stopped s"

definition queued_on :: "'s Manager \<Rightarrow> Duration \<Rightarrow> sref \<Rightarrow> bool" where
  "queued_on m iv r \<longleftrightarrow> (\<exists>s x. mget (m_schedulers m) iv = Some s \<and> x \<in> set (sc_heap s) \<and>
     sd_service x = r \<and> sd_shouldReSchedule x)"

definition m_wf :: "'s Manager \<Rightarrow> bool" where
  "m_wf m \<longleftrightarrow> ss_inv (m_heap m) (m_scheduled m) \<and>
     (\<forall>iv s. mget (m_schedulers m) iv = Some s \<longrightarrow> sched_ok s) \<and>
     (\<forall>iv r. r \<in> set (ss_get (m_scheduled m) iv) \<longrightarrow> queued_on m iv r)"

lemma m_wf_updates [simp]:
  "m_wf (m\<lparr>m_dns := d\<rparr>) = m_wf m" "m_wf (m\<lparr>m_store := s\<rparr>) = m_wf m"
  "m_wf (m\<lparr>m_mutex := b\<rparr>) = m_wf m" "m_wf (m_unlock m) = m_wf m"
  "m_wf (m\<lparr>m_groups := g\<rparr>) = m_wf m"
  by (simp_all add: m_wf_def queued_on_def m_unlock_def)

definition valid_interval :: "Duration \<Rightarrow> bool" where
  "valid_interval iv \<longleftrightarrow> 500 * Millisecond \<le> iv \<and> iv \<le> 2 ^ 52"

lemma NewScheduler_ok: "valid_interval iv \<Longrightarrow> sched_ok (NewScheduler env iv)"
  using maxOffSets_zero_iff(1)[of iv env]
  by (simp add: sched_ok_def valid_interval_def) (simp add: NewScheduler_def heap_inv_def)

lemma ScheduleService_ok:
  assumes "sched_ok s"
  shows "\<exists>s'. ScheduleService env now u r s = Ok s' \<and> sched_ok s' \<and>
    (\<exists>x \<in> set (sc_heap s'). sd_service x = r \<and> sd_shouldReSchedule x) \<and> set (sc_heap s) \<subseteq> set (sc_heap s')"
proof -
  have heap: "heap_inv sd_nextCheckTime (length (sc_heap s)) (sc_heap s)" using assms by (simp add: sched_ok_def)
  obtain s' where s': "ScheduleService env now u r s = Ok s'"
    using assms by (auto simp: ScheduleService_def sched_ok_def Let_def)
  note ok = ScheduleService_Ok[OF s']
  define x where "x = \<lparr>sd_service = r, sd_nextCheckTime = now + OFFSET * sc_nextOffset s + newCheckInterval env u s,
      sd_shouldReSchedule = True\<rparr>"
  have "mset (sc_heap s') = add_mset x (mset (sc_heap s))"
    using ok(1) go_heap.push_elems[OF heap] by (simp add: x_def)
  then have set: "set (sc_heap s') = insert x (set (sc_heap s))" by (metis set_mset_add_mset_insert set_mset_mset)
  have "sched_ok s'"
    using ok(3,5) assms go_heap.push_inv[OF heap] by (simp add: sched_ok_def ok(1))
  then show ?thesis using s' set by (auto simp: x_def)
qed

lemma RemoveService_entries:
  assumes "sched_ok s" "sched_RemoveService h r s = (was_last, s')"
  shows "sched_ok s'"
    and "\<And>x. x \<in> set (sc_heap s) \<Longrightarrow> svc_id (h (sd_service x)) \<noteq> svc_id (h r) \<Longrightarrow> x \<in> set (sc_heap s')"
    and "\<And>x. was_last \<Longrightarrow> x \<in> set (sc_heap s) \<Longrightarrow> svc_id (h (sd_service x)) = svc_id (h r)"
proof -
  have heap: "heap_inv sd_nextCheckTime (length (sc_heap s)) (sc_heap s)" using assms(1) by (simp add: sched_ok_def)
  have frame: "sc_maxOffSets s' = sc_maxOffSets s" "sc_stopped s' = sc_stopped s"
    using assms(2) by (auto simp: sched_RemoveService_def Let_def split: option.splits if_splits)
  show "sched_ok s'"
    using assms frame RemoveService_heap(1)[OF heap, of h r] by (simp add: sched_ok_def)
  let ?p = "\<lambda>x. svc_id (h (sd_service x)) = svc_id (h r)"
  have "(\<forall>x \<in> set (sc_heap s). \<not> ?p x \<longrightarrow> x \<in> set (sc_heap s')) \<and> (was_last \<longrightarrow> (\<forall>x \<in> set (sc_heap s). ?p x))"
  proof (cases "IndexFunc ?p (sc_heap s)")
    case None
    then show ?thesis using assms(2) by (auto simp: sched_RemoveService_def)
  next
    case (Some i)
    then have i: "i < length (sc_heap s)" "?p (sc_heap s ! i)" by (auto simp: IndexFunc_Some)
    show ?thesis
    proof (cases "i = 0")
      case True
      obtain y ys where q: "sc_heap s = y # ys" using i by (cases "sc_heap s") auto
      then show ?thesis
        using assms(2) Some True i by (auto simp: sched_RemoveService_def Let_def split: if_splits)
    next
      case False
      have s': "s' = s\<lparr>sc_heap := snd (heap_Remove sd_nextCheckTime i (sc_heap s))\<rparr>"
        "was_last = (sc_heap s' = [])"
        using assms(2) Some False by (auto simp: sched_RemoveService_def Let_def)
      have ne: "sc_heap s' \<noteq> []"
        using RemoveService_heap(3)[OF heap, of h r] assms(2) i(1) by auto
      have "mset (sc_heap s) = add_mset (sc_heap s ! i) (mset (sc_heap s'))"
        using heap_Remove_correct[OF heap i(1)] s'(1) by simp
      then have "set (sc_heap s) = insert (sc_heap s ! i) (set (sc_heap s'))"
        by (metis set_mset_add_mset_insert set_mset_mset)
      then show ?thesis using i(2) ne s'(2) by auto
    qed
  qed
  then show "\<And>x. x \<in> set (sc_heap s) \<Longrightarrow> \<not> ?p x \<Longrightarrow> x \<in> set (sc_heap s')"
    "\<And>x. was_last \<Longrightarrow> x \<in> set (sc_heap s) \<Longrightarrow> ?p x" by blast+
qed

lemma ss_inv_interval: "ss_inv h s \<Longrightarrow> r \<in> set (ss_get s iv) \<Longrightarrow> svc_ScheduledInterval (h r) = iv"
  by (auto simp: ss_inv_get)

text \<open>Moving a scheduled service returns, and leaves everything but its place as it was.\<close>

definition moved :: "sref \<Rightarrow> Duration \<Rightarrow> 's Manager \<Rightarrow> 's Manager \<Rightarrow> bool" where
  "moved r iv m m' \<longleftrightarrow> m_wf m' \<and> m_heap m' = (m_heap m)(r := (m_heap m r)\<lparr>svc_ScheduledInterval := iv\<rparr>) \<and>
     scheduled (m_scheduled m') = scheduled (m_scheduled m) \<and> m_store m' = m_store m \<and>
     m_dns m' = m_dns m \<and> m_mutex m' = m_mutex m \<and> m_groups m' = m_groups m \<and>
     m_DNSUpdate m' = m_DNSUpdate m"

lemma queued_on_mput:
  "queued_on (m\<lparr>m_schedulers := mput iv s sc\<rparr>) iv' r \<longleftrightarrow>
     (if iv' = iv then \<exists>x \<in> set (sc_heap s). sd_service x = r \<and> sd_shouldReSchedule x
      else queued_on (m\<lparr>m_schedulers := sc\<rparr>) iv' r)"
  by (auto simp: queued_on_def mget_mput)

lemma unschedule_on_ok:
  assumes "m_wf m" "r \<in> scheduled (m_scheduled m)" "iv = svc_ScheduledInterval (m_heap m r)"
  shows "\<exists>b m'. unschedule_on iv r m = Ok (b, m') \<and>
    (\<exists>s. m' = m\<lparr>m_schedulers := mput iv s (m_schedulers m)\<rparr> \<and> sched_ok s) \<and>
    (\<forall>iv' r'. r' \<noteq> r \<and> r' \<in> set (ss_get (m_scheduled m) iv') \<longrightarrow> queued_on m' iv' r' \<and> (b \<longrightarrow> iv' \<noteq> iv))"
proof -
  note inv = assms(1)[unfolded m_wf_def]
  obtain iv0 where r: "r \<in> set (ss_get (m_scheduled m) iv0)" using assms(2) by (auto simp: scheduled_ss_get)
  then have "iv0 = iv" using inv assms(3) by (auto simp: ss_inv_get)
  then have "queued_on m iv r" using inv r by blast
  then obtain s where s1: "mget (m_schedulers m) iv = Some s" by (auto simp: queued_on_def)
  then have s: "mget (m_schedulers m) iv = Some s" "sched_ok s" using inv by blast+
  obtain b s' where rm: "sched_RemoveService (m_heap m) r s = (b, s')" by fastforce
  let ?m = "m\<lparr>m_schedulers := mput iv s' (m_schedulers m)\<rparr>"
  have "queued_on ?m iv' r' \<and> (b \<longrightarrow> iv' \<noteq> iv)" if "r' \<noteq> r" "r' \<in> set (ss_get (m_scheduled m) iv')" for iv' r'
  proof -
    have ids: "svc_id (m_heap m r') \<noteq> svc_id (m_heap m r)"
      using that assms(2) inv ss_inv_same[of "m_heap m" "m_scheduled m" r' r] by (auto simp: scheduled_ss_get)
    have q: "queued_on m iv' r'" using inv that(2) by blast
    show ?thesis
    proof (cases "iv' = iv")
      case False
      then show ?thesis using q by (simp add: queued_on_def mget_mput)
    next
      case True
      then obtain x where x: "x \<in> set (sc_heap s)" "sd_service x = r'" "sd_shouldReSchedule x"
        using q s(1) by (auto simp: queued_on_def)
      have "x \<in> set (sc_heap s')" "\<not> b"
        using RemoveService_entries(2,3)[OF s(2) rm] x ids by auto
      then show ?thesis using x True by (auto simp: queued_on_def mget_mput)
    qed
  qed
  moreover have "unschedule_on iv r m = Ok (b, ?m)"
    using s(1) rm by (simp add: unschedule_on_def deref_def)
  ultimately show ?thesis using RemoveService_entries(1)[OF s(2) rm] by blast
qed

lemma moveServiceToInterval_ok:
  assumes "m_wf m" "r \<in> scheduled (m_scheduled m)" "valid_interval iv"
  shows "\<exists>m'. moveServiceToInterval env r iv m = Ok m' \<and> moved r iv m m'"
proof (cases "svc_ScheduledInterval (m_heap m r) = iv")
  case True
  moreover from this have "m_heap m = (m_heap m)(r := (m_heap m r)\<lparr>svc_ScheduledInterval := iv\<rparr>)"
    by (simp add: fun_upd_idem)
  ultimately show ?thesis using assms(1) by (simp add: moveServiceToInterval_def moved_def)
next
  case False
  let ?old = "svc_ScheduledInterval (m_heap m r)"
  note inv = assms(1)[unfolded m_wf_def]
  obtain b m1 s1 where un: "unschedule_on ?old r m = Ok (b, m1)"
    and m1: "m1 = m\<lparr>m_schedulers := mput ?old s1 (m_schedulers m)\<rparr>" "sched_ok s1"
    and rest: "\<And>iv' r'. r' \<noteq> r \<Longrightarrow> r' \<in> set (ss_get (m_scheduled m) iv') \<Longrightarrow> queued_on m1 iv' r' \<and> (b \<longrightarrow> iv' \<noteq> ?old)"
    using unschedule_on_ok[OF assms(1,2) refl] by metis
  obtain h ss where mv: "ss_MoveToInterval r iv (m_heap m, m_scheduled m) = (h, ss)" by fastforce
  have ssinv: "ss_inv (m_heap m) (m_scheduled m)" using inv by blast
  note move = Move_correct[OF ssinv assms(2) mv]
  let ?upd = "\<lambda>m. m\<lparr>m_heap := h, m_scheduled := ss\<rparr>"
  have un': "unschedule_on ?old r (?upd m) = Ok (b, ?upd m1)"
  proof -
    have ids: "svc_id (h x) = svc_id (m_heap m x)" for x by (simp add: move(3))
    have "sched_RemoveService h r s = sched_RemoveService (m_heap m) r s" for s
      by (simp only: sched_RemoveService_def ids)
    moreover obtain s where s: "mget (m_schedulers m) ?old = Some s"
      "fst (sched_RemoveService (m_heap m) r s) = b"
      and m1': "m1 = m\<lparr>m_schedulers := mput ?old (snd (sched_RemoveService (m_heap m) r s)) (m_schedulers m)\<rparr>"
      using un by (auto simp: unschedule_on_def bind_eq_Ok case_prod_beta deref_def split: option.splits)
    ultimately show ?thesis using s by (simp add: unschedule_on_def deref_def m1' split_def)
  qed
  define sc2 where "sc2 = (if b then mdel ?old (m_schedulers m1) else m_schedulers m1)"
  have clean: "(if b then cleanupInterval ?old (?upd m1) else Ok (?upd m1)) = Ok ((?upd m)\<lparr>m_schedulers := sc2\<rparr>)"
    using m1 by (simp add: cleanupInterval_def sc2_def mget_mput sched_Stop_def sched_ok_def)
  have sc2_ok: "sched_ok s" if "mget sc2 iv' = Some s" for iv' s
    using that inv m1 by (auto simp: sc2_def mget_mput mget_mdel split: if_splits)
  define sc3 where "sc3 = (case mget sc2 iv of Some s \<Rightarrow> sc2 | None \<Rightarrow> mput iv (NewScheduler (me_net env) iv) sc2)"
  have new: "newScheduler env iv ((?upd m)\<lparr>m_schedulers := sc2\<rparr>) = (?upd m)\<lparr>m_schedulers := sc3\<rparr>"
    by (simp add: newScheduler_def sc3_def split: option.splits)
  obtain s3 where s3: "mget sc3 iv = Some s3" "sched_ok s3"
    using sc2_ok NewScheduler_ok[OF assms(3)] by (cases "mget sc2 iv") (auto simp: sc3_def mget_mput)
  obtain now u where t: "me_time env (m_readings m) = (now, u)" by fastforce
  obtain s4 where s4: "ScheduleService (me_net env) now u r s3 = Ok s4" "sched_ok s4"
    "\<exists>x \<in> set (sc_heap s4). sd_service x = r \<and> sd_shouldReSchedule x" "set (sc_heap s3) \<subseteq> set (sc_heap s4)"
    using ScheduleService_ok[OF s3(2)] by blast
  let ?m' = "m\<lparr>m_heap := h, m_scheduled := ss, m_schedulers := mput iv s4 sc3, m_readings := Suc (m_readings m)\<rparr>"
  have run: "moveServiceToInterval env r iv m = Ok ?m'"
    using False mv un' clean new s3(1) s4(1) t
    by (simp add: moveServiceToInterval_def schedule_on_def deref_def)
  have q: "queued_on ?m' iv' r'" if "r' \<in> set (ss_get ss iv')" for iv' r'
  proof (cases "r' = r")
    case True
    then have "iv' = iv" using ss_inv_interval[OF move(1) that] by (simp add: move(3))
    then show ?thesis using s4(3) True by (auto simp: queued_on_def mget_mput)
  next
    case r': False
    then have SI: "svc_ScheduledInterval (m_heap m r') = iv'"
      using ss_inv_interval[OF move(1) that] by (simp add: move(3))
    have "r' \<in> scheduled (m_scheduled m)" using that move(2) by (auto simp: scheduled_ss_get)
    then have "r' \<in> set (ss_get (m_scheduled m) iv')"
      using ssinv SI by (auto simp: scheduled_ss_get ss_inv_get)
    from rest[OF r' this] have q1: "queued_on m1 iv' r'" "b \<longrightarrow> iv' \<noteq> ?old" by auto
    then obtain s x where sx: "mget (m_schedulers m1) iv' = Some s" "x \<in> set (sc_heap s)" "sd_service x = r'"
      "sd_shouldReSchedule x" by (auto simp: queued_on_def)
    then have "mget sc2 iv' = Some s" using q1(2) by (simp add: sc2_def mget_mdel)
    then have sc3s: "mget sc3 iv' = Some s" by (auto simp: sc3_def mget_mput split: option.splits)
    show ?thesis
    proof (cases "iv' = iv")
      case True
      then have "s = s3" using sc3s s3(1) by simp
      then show ?thesis using True s4(4) sx by (auto simp: queued_on_def mget_mput)
    next
      case False
      then show ?thesis using sc3s sx by (auto simp: queued_on_def mget_mput)
    qed
  qed
  have "sched_ok s" if "mget (mput iv s4 sc3) iv' = Some s" for iv' s
    using that s4(2) sc2_ok NewScheduler_ok[OF assms(3)]
    by (auto simp: mget_mput sc3_def split: if_splits option.splits)
  then have "m_wf ?m'" using move(1) q by (simp add: m_wf_def)
  then have "moved r iv m ?m'" using move by (simp add: moved_def)
  then show ?thesis using run by blast
qed

section \<open>A promotion, start to end\<close>

lemma find_update_other:
  "\<not> p (xs ! i) \<Longrightarrow> \<not> p x \<Longrightarrow> find p (xs[i := x]) = find p xs"
proof (induction xs arbitrary: i)
  case Nil
  then show ?case by simp
next
  case (Cons y ys)
  then show ?case by (cases i) simp_all
qed

locale managed_store = group_store "me_ops env" inv abs
  for env :: "'s MEnv" and inv :: "'s \<Rightarrow> bool" and abs :: "'s \<Rightarrow> string \<Rightarrow> GSLBServiceGroup option"
begin

text \<open>Storing the record of a service of an unoverridden group replaces its entry.\<close>

lemma store_active_yields:
  assumes "inv (m_store m)" "svc_MemberOf (m_heap m r) = k"
    "\<forall>x \<in> set (group_in (abs (m_store m)) k). \<not> gs_HasOverride x"
    "IndexFunc (\<lambda>x. gs_ID x = svc_id (m_heap m r)) (group_in (abs (m_store m)) k) = Some i"
  shows "\<exists>s. store_active env r b m = (Inr (), m\<lparr>m_store := s\<rparr>) \<and> inv s \<and>
    abs s = (abs (m_store m))(k \<mapsto> (group_in (abs (m_store m)) k)[i := (toGSLBService (m_heap m r))\<lparr>gs_IsActive := b\<rparr>])"
proof -
  let ?new = "(toGSLBService (m_heap m r))\<lparr>gs_IsActive := b\<rparr>"
  have new: "gs_ID ?new = svc_id (m_heap m r)" "gs_MemberOf ?new = k" "\<not> gs_HasOverride ?new"
    using assms(2) by (simp_all add: toGSLBService_def)
  have "\<not> override_in (abs (m_store m)) k"
    using assms(3) by (auto simp: override_in_def find_Some_iff split: option.splits)
  then have upd: "updated_member (abs (m_store m)) x ?new = ?new" for x
    by (simp add: updated_member_def new(2))
  from Update_yields[OF assms(1), of ?new] show ?thesis
    unfolding new(1,2) assms(4) by (auto simp: yields_def store_active_eq upd)
qed

lemma promotion_swaps:
  assumes wf: "m_wf m" "\<not> m_mutex m" "m_DNSUpdate m" "inv (m_store m)"
    and members: "old \<in> scheduled (m_scheduled m)" "new \<in> scheduled (m_scheduled m)"
      "svc_id (m_heap m old) \<noteq> svc_id (m_heap m new)"
      "svc_MemberOf (m_heap m old) = k" "svc_MemberOf (m_heap m new) = k"
    and stored: "\<forall>x \<in> set (group_in (abs (m_store m)) k). \<not> gs_HasOverride x"
      "svc_id (m_heap m old) \<in> gs_ID ` set (group_in (abs (m_store m)) k)"
      "svc_id (m_heap m new) \<in> gs_ID ` set (group_in (abs (m_store m)) k)"
    and intervals: "GetBaseInterval (me_net env) (m_heap m old) = base" "valid_interval base"
      "valid_interval (svc_ScheduledInterval (m_heap m new))"
  shows "\<exists>m'. handlePromotion env \<lparr>pe_Service = n, pe_NewActive = Some new, pe_OldActive = Some old\<rparr> m = Ok m' \<and>
    m_wf m' \<and> \<not> m_mutex m' \<and> inv (m_store m') \<and>
    m_dns m' = m_dns m @ [(old, False), (new, True)] \<and>
    svc_ScheduledInterval (m_heap m' old) = svc_ScheduledInterval (m_heap m new) \<and>
    svc_ScheduledInterval (m_heap m' new) = base \<and>
    member_in (abs (m_store m')) k (svc_id (m_heap m old)) = Some (toGSLBService (m_heap m old)) \<and>
    member_in (abs (m_store m')) k (svc_id (m_heap m new)) =
      Some ((toGSLBService (m_heap m new))\<lparr>gs_IsActive := True\<rparr>)"
proof -
  have ne: "old \<noteq> new" using members(3) by auto
  have inactive: "(toGSLBService s)\<lparr>gs_IsActive := False\<rparr> = toGSLBService s" for s
    by (simp add: toGSLBService_def)
  let ?g = "group_in (abs (m_store m)) k" and ?a = "toGSLBService (m_heap m old)"
    and ?b = "(toGSLBService (m_heap m new))\<lparr>gs_IsActive := True\<rparr>"
  have ids: "gs_ID ?a = svc_id (m_heap m old)" "gs_ID ?b = svc_id (m_heap m new)" "\<not> gs_HasOverride ?a"
    by (simp_all add: toGSLBService_def)
  obtain i where i: "IndexFunc (\<lambda>x. gs_ID x = svc_id (m_heap m old)) ?g = Some i"
    using stored(2) IndexFunc_None[of "\<lambda>x. gs_ID x = svc_id (m_heap m old)" ?g] by fastforce
  let ?m0 = "m\<lparr>m_mutex := True\<rparr>"
  obtain s1 where s1: "store_active env old False ?m0 = (Inr (), ?m0\<lparr>m_store := s1\<rparr>)" "inv s1"
    "abs s1 = (abs (m_store m))(k \<mapsto> ?g[i := ?a])"
    using store_active_yields[of ?m0 old k i False] wf(4) members(4) stored(1) i by (auto simp: inactive)
  let ?m1 = "?m0\<lparr>m_store := s1\<rparr>"
  have g1: "group_in (abs s1) k = ?g[i := ?a]" by (simp add: s1(3))
  have iD: "i < length ?g" "gs_ID (?g ! i) = svc_id (m_heap m old)" using i by (auto simp: IndexFunc_Some)
  have "map gs_ID (?g[i := ?a]) = map gs_ID ?g" using iD ids(1) by (intro map_list_update_same) simp_all
  then have "svc_id (m_heap m new) \<in> gs_ID ` set (?g[i := ?a])" using stored(3) by (metis list.set_map)
  then obtain j where j: "IndexFunc (\<lambda>x. gs_ID x = svc_id (m_heap m new)) (?g[i := ?a]) = Some j"
    using IndexFunc_None[of "\<lambda>x. gs_ID x = svc_id (m_heap m new)" "?g[i := ?a]"] by fastforce
  have "\<forall>x \<in> set (?g[i := ?a]). \<not> gs_HasOverride x"
    using stored(1) ids(3) by (auto dest!: subsetD[OF set_update_subset_insert])
  then obtain s2 where s2: "store_active env new True ?m1 = (Inr (), ?m1\<lparr>m_store := s2\<rparr>)" "inv s2"
    "abs s2 = (abs s1)(k \<mapsto> ?g[i := ?a, j := ?b])"
    using store_active_yields[of ?m1 new k j True] s1(2) members(5) j by (auto simp: g1)
  let ?m2 = "m\<lparr>m_mutex := True, m_store := s2\<rparr>"
  have "m_wf ?m2" using wf(1) by simp
  then obtain m3 where m3: "moveServiceToInterval env old (svc_ScheduledInterval (m_heap m new)) ?m2 = Ok m3"
    "moved old (svc_ScheduledInterval (m_heap m new)) ?m2 m3"
    using moveServiceToInterval_ok[of ?m2 old _ env] members(1) intervals(3) by auto
  let ?m4 = "m3\<lparr>m_dns := m_dns m3 @ [(old, False)]\<rparr>"
  have dns: "m_DNSUpdate m3" using m3(2) wf(3) by (simp add: moved_def)
  have "m_wf ?m4" "new \<in> scheduled (m_scheduled ?m4)"
    using m3(2) members(2) by (simp_all add: moved_def)
  then obtain m5 where m5: "moveServiceToInterval env new base ?m4 = Ok m5" "moved new base ?m4 m5"
    using moveServiceToInterval_ok[of ?m4 new base env] intervals(2) by auto
  let ?m' = "m_unlock (m5\<lparr>m_dns := m_dns m5 @ [(new, True)]\<rparr>)"
  have dns5: "m_DNSUpdate m5" using m5(2) dns by (simp add: moved_def)
  have base0: "base \<noteq> 0" using intervals(2) by (auto simp: valid_interval_def)
  have run: "handlePromotion env \<lparr>pe_Service = n, pe_NewActive = Some new, pe_OldActive = Some old\<rparr> m = Ok ?m'"
    using wf(2) members(3) s1(1) s2(1) m3(1) m5(1) dns dns5 intervals(1) base0
    by (simp add: handlePromotion_def m_lock_def DNSUpdate_def)
  have jD: "\<not> gs_ID (?g[i := ?a] ! j) = svc_id (m_heap m old)"
    using j members(3) by (auto simp: IndexFunc_Some)
  have find_old: "find (\<lambda>x. gs_ID x = svc_id (m_heap m old)) (?g[i := ?a, j := ?b]) = Some ?a"
    using find_update_other[of "\<lambda>x. gs_ID x = svc_id (m_heap m old)" "?g[i := ?a]" j ?b]
      find_update_first[OF i, of ?a] jD ids members(3) by simp
  have find_new: "find (\<lambda>x. gs_ID x = svc_id (m_heap m new)) (?g[i := ?a, j := ?b]) = Some ?b"
    using find_update_first[OF j, of ?b] ids(2) by simp
  have store: "m_store ?m' = s2" using m3(2) m5(2) by (simp add: m_unlock_def moved_def)
  have "m_wf ?m'" using m5(2) by (simp add: moved_def)
  moreover have "m_dns ?m' = m_dns m @ [(old, False), (new, True)]" "\<not> m_mutex ?m'"
    using m3(2) m5(2) by (simp_all add: m_unlock_def moved_def)
  moreover have "svc_ScheduledInterval (m_heap ?m' old) = svc_ScheduledInterval (m_heap m new)"
    "svc_ScheduledInterval (m_heap ?m' new) = base"
    using m3(2) m5(2) ne by (simp_all add: m_unlock_def moved_def)
  ultimately show ?thesis
    using run s2(2) find_old find_new
    by (intro exI[of _ ?m']) (simp only: store member_in_def s2(3) group_in_upd simp_thms if_True)
qed

end

interpretation mem_mgr: managed_store "env\<lparr>me_ops := mem_ops []\<rparr>" keys_ok map_of for env
  by (simp add: managed_store_def mem_groups.group_store_axioms)

interpretation file_mgr: managed_store "env\<lparr>me_ops := file_ops []\<rparr>" file_inv file_map for env
  by (simp add: managed_store_def file_groups.group_store_axioms)

end
