(* ===== verification/ManagerProps.thy ===== *)
theory ManagerProps
  imports Promotion
begin

text \<open>
  Properties of the manager's operations: what a promotion, a registration, a configuration update
  and a recovery do to the schedule, the stored state and the DNS calls, and where the code blocks
  on its own mutex.
\<close>

section \<open>A manager for the concrete instances\<close>

definition entry_of :: "sref \<Rightarrow> ScheduledService" where
  "entry_of r = \<lparr>sd_service = r, sd_nextCheckTime = 0, sd_shouldReSchedule = True\<rparr>"

definition demo_scheduler :: "Duration \<Rightarrow> sref \<Rightarrow> Scheduler" where
  "demo_scheduler iv r = \<lparr>sc_interval = iv, sc_maxOffSets = 10, sc_nextOffset = 1, sc_heap = [entry_of r],
     sc_jitterRange = 0, sc_stopped = False, sc_isRunning = True\<rparr>"

definition demo_group :: GSLBServiceGroup where
  "demo_group = [(toGSLBService (queue_services 0))\<lparr>gs_IsActive := True\<rparr>, toGSLBService (queue_services 1)]"

definition demo_manager :: "GSLBServiceGroup FileStore Manager" where
  "demo_manager = \<lparr>m_heap = queue_services, m_next = 2, m_scheduled = two_queues,
     m_schedulers = [(5 * Second, demo_scheduler (5 * Second) 0), (15 * Second, demo_scheduler (15 * Second) 1)],
     m_groups = [(''example'', \<lparr>sg_Name = ''example'', sg_mode = ActivePassive, sg_Members = [0, 1],
        sg_active = None, sg_lastActive = Some 0, sg_prioritizedDatacenter = [], sg_mu = False\<rparr>)],
     m_store = file_NewStore (Json [(''example'', demo_group)]), m_mutex = False, m_stopped = False,
     m_DNSUpdate = True, m_dns = [], m_dryrun = False, m_readings = 0\<rparr>"

definition demo_menv :: "GSLBServiceGroup FileStore MEnv" where
  "demo_menv = \<lparr>me_net = demo_env, me_ops = file_ops [], me_time = (\<lambda>n. (0, 0))\<rparr>"

lemma demo_menv_ops [simp]: "demo_menv\<lparr>me_ops := file_ops []\<rparr> = demo_menv"
  by (simp add: demo_menv_def)

lemma demo_wf: "m_wf demo_manager"
  unfolding m_wf_def
proof (intro conjI allI impI)
  show "ss_inv (m_heap demo_manager) (m_scheduled demo_manager)"
    using two_queues_inv by (simp add: demo_manager_def)
next
  fix iv s
  assume "mget (m_schedulers demo_manager) iv = Some s"
  then show "sched_ok s"
    by (auto simp: demo_manager_def demo_scheduler_def sched_ok_def heap_inv_def split: if_splits)
next
  fix iv r
  assume "r \<in> set (ss_get (m_scheduled demo_manager) iv)"
  then have "iv = 5 * Second \<and> r = 0 \<or> iv = 15 * Second \<and> r = 1"
    by (auto simp: demo_manager_def two_queues_def ss_get_def split: if_splits)
  then show "queued_on demo_manager iv r"
    by (auto simp: queued_on_def demo_manager_def demo_scheduler_def entry_of_def)
qed

lemma demo_store: "file_inv (m_store demo_manager)" "group_in (file_map (m_store demo_manager)) ''example'' = demo_group"
  by (simp_all add: demo_manager_def file_inv_new)
    (simp add: file_NewStore_def file_map_def group_in_def)

lemma demo_base: "GetBaseInterval (me_net demo_menv) (m_heap demo_manager 0) = 5 * Second"
proof -
  have "f64_div (f64_of_int (5 * Second)) (multiplier 1) = Fin (of_int (5 * Second))"
    using f64_round_exact[of "5 * Second"] by (simp add: f64_of_int_exact multiplier_exact)
  then show ?thesis
    by (simp add: GetBaseInterval_def demo_manager_def queue_services_def blank_service_def
        Duration_Round_multiple)
qed

section \<open>Promotions\<close>



text \<open>
  C28. When a whole active-passive group was down and the member that was active last recovers first,
  the manager makes it active in the group but makes no DNS call at all: the group stays unannounced.
\<close>

theorem recovery_after_outage_not_announced:
  assumes "\<not> m_mutex m" "mget (m_groups m) (svc_MemberOf (m_heap m a)) = Some g" "svc_isHealthy (m_heap m a)"
    and "\<not> sg_mu g" "sg_mode g = ActivePassive" "sg_active g = None" "sg_lastActive g = Some a"
  shows "\<exists>m'. onHealthChange env a True m = Ok m' \<and> m_dns m' = m_dns m \<and>
    map_option sg_active (mget (m_groups m') (svc_MemberOf (m_heap m a))) = Some (Some a)"
proof -
  let ?s = "snd (repo_Update (me_ops env) (toGSLBService (m_heap m a)) (m_store m))"
  let ?m = "m\<lparr>m_store := ?s\<rparr>"
  have "handlePromotion env \<lparr>pe_Service = sg_Name g, pe_NewActive = Some a, pe_OldActive = Some a\<rparr> ?m = Ok (m_unlock ?m)"
    using assms(1) by (simp add: handlePromotion_def m_lock_def m_unlock_def)
  then have "OnServiceHealthChange m_heap (handlePromotion env) a True g ?m =
      Ok (g\<lparr>sg_lastActive := None, sg_active := Some a\<rparr>, m_unlock ?m)"
    using recovery_event[of g a m_heap ?m "handlePromotion env"] assms(3-7) by simp
  then show ?thesis
    using assms(2) by (simp add: onHealthChange_def on_repo_eq on_group_def deref_def mget_mput m_unlock_def)
qed

theorem recovery_after_outage_not_announced_witness:
  "\<exists>m'. onHealthChange demo_menv 0 True (demo_manager\<lparr>m_heap := set_health 0 True queue_services\<rparr>) = Ok m' \<and> m_dns m' = []"
  using recovery_after_outage_not_announced[of "demo_manager\<lparr>m_heap := set_health 0 True queue_services\<rparr>" 0 _ demo_menv]
  by (auto simp: demo_manager_def queue_services_def blank_service_def set_health_def)

section \<open>Registration\<close>

text \<open>
  Where a registration of a new service gets to its group: the store accepts it, its scheduler takes
  it, and the group's \<^verbatim>\<open>RegisterService\<close> runs with the manager's mutex held.
\<close>

lemma register_in_group_event:
  assumes "m_mutex m" "mget (m_groups m) k = Some g" "group_inv h g" "r \<notin> set (sg_Members g)"
    and "update_event (m_heap m) (g\<lparr>sg_Members := sg_Members g @ [r]\<rparr>) = ev"
  shows "register_in_group env k r m =
    (if ev = None
     then Ok (m\<lparr>m_groups := mput k (updated_group (m_heap m) (g\<lparr>sg_Members := sg_Members g @ [r]\<rparr>)) (m_groups m)\<rparr>)
     else Panic Deadlock)"
proof -
  let ?g = "g\<lparr>sg_Members := sg_Members g @ [r]\<rparr>"
  have mu: "\<not> sg_mu g" "sg_mode g \<noteq> ActiveActiveRoundTrip" using group_invD[OF assms(3)] by auto
  have "group_Update m_heap (handlePromotion env) ?g m =
      bind (fire (handlePromotion env) ev m) (\<lambda>w'. Ok (updated_group (m_heap m) ?g, w'))"
    using group_Update_eq[of ?g m_heap "handlePromotion env" m] mu assms(5) by simp
  moreover have "handlePromotion env e m = Panic Deadlock" for e
    using assms(1) by (simp add: handlePromotion_def m_lock_def)
  ultimately show ?thesis
    using assms(2,4) mu
    by (cases ev) (auto simp: register_in_group_def on_group_def deref_def group_RegisterService_eq fire_def)
qed

lemma schedule_on_ok:
  assumes "\<forall>iv s. mget (m_schedulers m) iv = Some s \<longrightarrow> sched_ok s" "valid_interval iv"
  shows "\<exists>m'. schedule_on env iv r (newScheduler env iv m) = Ok m' \<and>
    (\<exists>sc n. m' = m\<lparr>m_schedulers := sc, m_readings := n\<rparr>) \<and>
    (\<forall>iv s. mget (m_schedulers m') iv = Some s \<longrightarrow> sched_ok s) \<and> queued_on m' iv r \<and>
    (\<forall>iv' r'. queued_on m iv' r' \<longrightarrow> queued_on m' iv' r')"
proof -
  define sc where "sc = (case mget (m_schedulers m) iv of Some s \<Rightarrow> m_schedulers m
      | None \<Rightarrow> mput iv (NewScheduler (me_net env) iv) (m_schedulers m))"
  have new: "newScheduler env iv m = m\<lparr>m_schedulers := sc\<rparr>"
    by (simp add: newScheduler_def sc_def split: option.splits)
  obtain s where s: "mget sc iv = Some s" "sched_ok s"
    using assms(1) NewScheduler_ok[OF assms(2)] by (cases "mget (m_schedulers m) iv") (auto simp: sc_def mget_mput)
  have keep: "mget (m_schedulers m) iv' = Some s' \<Longrightarrow> mget sc iv' = Some s'" for iv' s'
    by (auto simp: sc_def mget_mput split: option.splits)
  have ok: "mget sc iv' = Some s' \<Longrightarrow> sched_ok s'" for iv' s'
    using assms(1) NewScheduler_ok[OF assms(2)] by (auto simp: sc_def mget_mput split: option.splits if_splits)
  obtain now u where t: "me_time env (m_readings m) = (now, u)" by fastforce
  obtain s' where s': "ScheduleService (me_net env) now u r s = Ok s'" "sched_ok s'"
    "\<exists>x \<in> set (sc_heap s'). sd_service x = r \<and> sd_shouldReSchedule x" "set (sc_heap s) \<subseteq> set (sc_heap s')"
    using ScheduleService_ok[OF s(2)] by blast
  let ?m' = "m\<lparr>m_schedulers := mput iv s' sc, m_readings := Suc (m_readings m)\<rparr>"
  have "schedule_on env iv r (newScheduler env iv m) = Ok ?m'"
    using s(1) s'(1) t by (simp add: schedule_on_def deref_def new)
  moreover have "\<forall>iv s. mget (m_schedulers ?m') iv = Some s \<longrightarrow> sched_ok s"
    using ok s'(2) by (auto simp: mget_mput)
  moreover have "queued_on ?m' iv r" using s'(3) by (auto simp: queued_on_def mget_mput)
  moreover have "queued_on ?m' iv' r'" if q: "queued_on m iv' r'" for iv' r'
  proof -
    obtain s0 x where x: "mget sc iv' = Some s0" "x \<in> set (sc_heap s0)" "sd_service x = r'" "sd_shouldReSchedule x"
      using q keep by (auto simp: queued_on_def)
    show ?thesis
    proof (cases "iv' = iv")
      case True
      then show ?thesis using x s(1) s'(4) by (auto simp: queued_on_def mget_mput)
    next
      case False
      then show ?thesis using x by (auto simp: queued_on_def mget_mput)
    qed
  qed
  ultimately show ?thesis by blast
qed

text \<open>A new service joins the schedule.\<close>

lemma Search_fresh: "ss_inv h s \<Longrightarrow> ss_Search h sid s = None \<Longrightarrow> r \<in> scheduled s \<Longrightarrow> svc_id (h r) \<noteq> sid"
  using Search_cases[of h s sid] by auto

text \<open>
  The registration of a service the manager does not know, up to the call of its group. The reference
  is fresh: nothing scheduled and no member of the group uses it.
\<close>

lemma RegisterService_prefix:
  assumes wf: "m_wf m" "\<not> m_mutex m" "file_inv (m_store m)" "m_next m \<notin> scheduled (m_scheduled m)"
    and env: "me_ops env = file_ops []"
    and s: "NewServiceFromGSLBConfig (me_net env) cfg (fst (BuildServiceOptions env cfg m)) = Inr s"
      "valid_interval (svc_ScheduledInterval s)"
    and fresh: "\<forall>r \<in> scheduled (m_scheduled m). svc_id (m_heap m r) \<noteq> svc_id s"
    and no_override: "\<not> override_in (file_map (m_store m)) (svc_MemberOf s)"
  shows "\<exists>m'. RegisterService env cfg m =
      bind (register_in_group env (svc_MemberOf s) (m_next m) m') (\<lambda>m. Ok (Inr (m_next m' - 1), m_unlock m)) \<and>
    m_wf m' \<and> m_mutex m' \<and> m_next m' = Suc (m_next m) \<and> file_inv (m_store m') \<and>
    m_heap m' = (m_heap m)(m_next m := SetHealthChangeCallback s) \<and>
    m_next m \<in> scheduled (m_scheduled m') \<and>
    member_in (file_map (m_store m')) (svc_MemberOf s) (svc_id s) = Some (toGSLBService s) \<and>
    m_groups m' = (if mget (m_groups m) (svc_MemberOf s) = None
      then mput (svc_MemberOf s) (NewEmptyServiceGroup (svc_MemberOf s)) (m_groups m) else m_groups m)"
proof -
  let ?r = "m_next m"
  obtain opts m0 where bo: "BuildServiceOptions env cfg m = (opts, m0)" by fastforce
  define s0 where "s0 = snd (repo_GetMemberInGroup (me_ops env) (cfg_MemberOf cfg) (cfg_ServiceID cfg) (m_store m))"
  have m0: "m0 = m\<lparr>m_store := s0\<rparr>"
    using bo by (auto simp: BuildServiceOptions_def on_repo_eq s0_def Let_def split: sum.splits prod.splits)
  have st0: "file_inv s0" "file_map s0 = file_map (m_store m)"
    using file_groups.GetMember_yields[OF wf(3), of "cfg_MemberOf cfg" "cfg_ServiceID cfg"]
    by (simp_all add: s0_def env yields_def)
  let ?h1 = "(m_heap m)(?r := s)" and ?h = "(m_heap m)(?r := SetHealthChangeCallback s)"
  have same_on: "m_heap m x = ?h x" "m_heap m x = ?h1 x" if "x \<in> scheduled (m_scheduled m)" for x
    using that wf(4) by auto
  have ssinv: "ss_inv (m_heap m) (m_scheduled m)" using wf(1) by (simp add: m_wf_def)
  have ssinv': "ss_inv ?h (m_scheduled m)" "ss_inv ?h1 (m_scheduled m)"
    using ss_inv_cong[OF ssinv] same_on by metis+
  have none: "ss_Search ?h1 (svc_id s) (m_scheduled m) = None"
    using Search_cases[OF ssinv'(2), of "svc_id s"] fresh same_on(2)
    by (cases "ss_Search ?h1 (svc_id s) (m_scheduled m)") (auto split: prod.splits)
  have mo: "gs_MemberOf (toGSLBService s) = svc_MemberOf s" "gs_ID (toGSLBService s) = svc_id s"
    by (simp_all add: toGSLBService_def)
  define s1 where "s1 = snd (repo_Create (me_ops env) (toGSLBService s) s0)"
  have cr: "repo_Create (me_ops env) (toGSLBService s) s0 = (Inr (), s1)" "file_inv s1"
    "member_in (file_map s1) (svc_MemberOf s) (svc_id s) = Some (toGSLBService s)"
    using file_groups.Create_yields[OF st0(1), of "toGSLBService s"]
      file_groups.Create_then_member[OF st0(1), of "toGSLBService s"] no_override
    by (auto simp: yields_def s1_def env st0(2) mo prod_eq_iff)
  let ?m1 = "m\<lparr>m_next := Suc ?r, m_mutex := True, m_store := s1, m_heap := ?h\<rparr>"
  obtain m2 sc n where m2: "schedule_on env (svc_ScheduledInterval s) ?r (newScheduler env (svc_ScheduledInterval s) ?m1) = Ok m2"
    "m2 = ?m1\<lparr>m_schedulers := sc, m_readings := n\<rparr>"
    "\<forall>iv s. mget (m_schedulers m2) iv = Some s \<longrightarrow> sched_ok s" "queued_on m2 (svc_ScheduledInterval s) ?r"
    "\<forall>iv' r'. queued_on ?m1 iv' r' \<longrightarrow> queued_on m2 iv' r'"
    using schedule_on_ok[of ?m1 "svc_ScheduledInterval s" env ?r] s(2) wf(1) by (auto simp: m_wf_def)
  let ?m3 = "m2\<lparr>m_scheduled := ss_Add ?h ?r (m_scheduled m)\<rparr>"
  have "\<forall>x \<in> scheduled (m_scheduled m). svc_id (?h x) \<noteq> svc_id (?h ?r)"
    using fresh same_on(1) by (auto simp: SetHealthChangeCallback_def)
  note add = Add_inv[OF ssinv'(1) this]
  have wf3: "m_wf ?m3"
  proof -
    have "queued_on ?m3 iv r" if "r \<in> set (ss_get (ss_Add ?h ?r (m_scheduled m)) iv)" for iv r
    proof (cases "r = ?r")
      case True
      then have "iv = svc_ScheduledInterval s"
        using ss_inv_interval[OF add(1) that] by (simp add: SetHealthChangeCallback_def)
      then show ?thesis using m2(4) True by (simp add: queued_on_def)
    next
      case False
      then have "r \<in> set (ss_get (m_scheduled m) iv)"
        using that by (auto simp: ss_get_Add split: if_splits)
      then have "queued_on ?m1 iv r" using wf(1) by (simp add: m_wf_def queued_on_def)
      then show ?thesis using m2(5) by (simp add: queued_on_def)
    qed
    then show ?thesis
      unfolding m_wf_def using add(1) m2(2,3) by (simp del: fun_upd_apply)
  qed
  define m4 where "m4 = (if mget (m_groups m) (svc_MemberOf s) = None then newServiceGroup (svc_MemberOf s) ?m3 else ?m3)"
  have run: "RegisterService env cfg m =
      bind (register_in_group env (svc_MemberOf s) ?r m4) (\<lambda>m. Ok (Inr ?r, m_unlock m))"
    using s(1) wf(2) none cr(1) m2(1,2)
    by (simp add: RegisterService_def bo m0 m_rlock_def m_lock_def on_repo_eq m4_def
        SetHealthChangeCallback_def Let_def)
  have "m_wf m4" "m_mutex m4" "m_next m4 = Suc ?r" "m_heap m4 = ?h" "m_store m4 = s1"
    "m_scheduled m4 = ss_Add ?h ?r (m_scheduled m)"
    "m_groups m4 = (if mget (m_groups m) (svc_MemberOf s) = None
      then mput (svc_MemberOf s) (NewEmptyServiceGroup (svc_MemberOf s)) (m_groups m) else m_groups m)"
    using wf3 m2(2) by (simp_all add: m4_def newServiceGroup_def)
  then show ?thesis using run cr add(2) by (intro exI[of _ m4]) (simp del: fun_upd_apply)
qed


definition demo_cfg :: GSLBConfig where
  "demo_cfg = \<lparr>cfg_ServiceID = ''c'', cfg_Fqdn = ''c.example'', cfg_MemberOf = ''example'', cfg_Ip = ''10.0.0.3'',
     cfg_Port = ''80'', cfg_Datacenter = ''DC2'', cfg_Interval = 5 * Second, cfg_Priority = 1,
     cfg_FailureThreshold = 3, cfg_CheckType = ''TCP-FULL'', cfg_Script = []\<rparr>"

definition both_down :: "GSLBServiceGroup FileStore Manager" where
  "both_down = demo_manager\<lparr>m_groups := [(''example'', \<lparr>sg_Name = ''example'', sg_mode = ActiveActive,
     sg_Members = [0, 1], sg_active = None, sg_lastActive = None, sg_prioritizedDatacenter = [], sg_mu = False\<rparr>)]\<rparr>"

lemma demo_interval: "CalculateInterval demo_env 1 (5 * Second) = 5 * Second"
proof -
  have "f64_mul (f64_of_int (5 * Second)) (multiplier 1) = Fin (of_int (5 * Second))"
    using f64_round_exact[of "5 * Second"] by (simp add: f64_of_int_exact multiplier_exact)
  then show ?thesis
    by (simp add: CalculateInterval_def MAX_CHECK_INTERVAL_def)
qed

lemma apply_option_frame [simp]:
  "svc_id (foldl apply_option s opts) = svc_id s"
  "svc_MemberOf (foldl apply_option s opts) = svc_MemberOf s"
  "svc_priority (foldl apply_option s opts) = svc_priority s"
  "svc_ScheduledInterval (foldl apply_option s opts) = svc_ScheduledInterval s"
proof (induction opts arbitrary: s)
  case (Cons opt opts)
  { case 1 show ?case using Cons(1) by (cases opt) simp_all }
  { case 2 show ?case using Cons(2) by (cases opt) simp_all }
  { case 3 show ?case using Cons(3) by (cases opt) simp_all }
  { case 4 show ?case using Cons(4) by (cases opt) simp_all }
qed simp_all

lemma NewService_fields:
  assumes "NewServiceFromGSLBConfig env cfg opts = Inr s"
  shows "svc_id s = cfg_ServiceID cfg" "svc_MemberOf s = cfg_MemberOf cfg" "svc_priority s = cfg_Priority cfg"
    "svc_ScheduledInterval s = CalculateInterval env (cfg_Priority cfg) (cfg_Interval cfg)"
  using assms by (auto simp: NewServiceFromGSLBConfig_def Let_def split: option.splits if_splits)

lemma demo_new_service:
  obtains s where "NewServiceFromGSLBConfig demo_env demo_cfg (fst (BuildServiceOptions demo_menv demo_cfg both_down)) = Inr s"
    "\<not> svc_isHealthy s"
proof -
  have "fst (repo_GetMemberInGroup (file_ops []) ''example'' ''c'' (m_store demo_manager)) = Inl ErrServiceInGroupNotFound"
    using file_groups.GetMember_yields[OF demo_store(1), of "''example''" "''c''"] demo_store(2)
    by (simp add: yields_def member_in_def demo_group_def toGSLBService_def queue_services_def)
  then have "fst (BuildServiceOptions demo_menv demo_cfg both_down) = [WithDryRunChecks False, WithFailureCount 3]"
    by (simp add: BuildServiceOptions_def on_repo_eq demo_menv_def demo_cfg_def both_down_def)
      (simp add: demo_manager_def)
  then have "\<exists>s. NewServiceFromGSLBConfig demo_env demo_cfg (fst (BuildServiceOptions demo_menv demo_cfg both_down)) = Inr s \<and>
      \<not> svc_isHealthy s"
    by (simp add: NewServiceFromGSLBConfig_def demo_cfg_def demo_env_def Let_def)
  then show ?thesis using that by blast
qed


end
