(* ===== verification/ManagerFrame.thy ===== *)
theory ManagerFrame
  imports ManagerProps
begin

text \<open>
  Invariants of the manager as a whole. Every operation of the manager is made of a few elementary
  changes; a predicate that survives those survives every operation, whatever calls the groups
  make back into the manager (locale \<open>manager_frame\<close>). Two predicates are shown to be such invariants:
  which services are scheduled, and what the store holds under a name that no service has.
\<close>

section \<open>Calls of the groups\<close>

text \<open>An operation of a group leaves the world alone or makes one call of its callback.\<close>

lemma group_Update_world: "group_Update heap cb sg w = Ok (sg', w') \<Longrightarrow> w' = w \<or> (\<exists>ev. cb ev w = Ok w')"
  by (auto simp: group_Update_def bind_eq_Ok Let_def split: if_splits)

lemma group_RegisterService_world:
  "group_RegisterService heap cb r sg w = Ok (sg', w') \<Longrightarrow> w' = w \<or> (\<exists>ev. cb ev w = Ok w')"
  by (auto simp: group_RegisterService_def bind_eq_Ok split: option.splits if_splits dest: group_Update_world)

lemma group_RemoveService_world:
  "group_RemoveService heap cb sid sg w = Ok (gone, sg', w') \<Longrightarrow> w' = w \<or> (\<exists>ev. cb ev w = Ok w')"
  by (auto simp: group_RemoveService_def bind_eq_Ok Let_def split: option.splits dest: group_Update_world)

lemma OnServiceHealthChange_world:
  assumes "OnServiceHealthChange heap cb r b sg w = Ok (sg', w')"
  shows "w' = w \<or> (\<exists>ev. cb ev w = Ok w')"
proof (cases "sg_mode sg")
  case ActiveActive
  then show ?thesis
    using assms by (auto simp: OnServiceHealthChange_def bind_eq_Ok Let_def sg_lock_def split: if_splits option.splits)
next
  case ActivePassive
  then show ?thesis
    using assms by (auto simp: OnServiceHealthChange_def bind_eq_Ok Let_def sg_lock_def split: if_splits)
next
  case ActiveActiveRoundTrip
  then show ?thesis
    using assms by (auto simp: OnServiceHealthChange_def bind_eq_Ok Let_def sg_lock_def split: if_splits)
qed

section \<open>Invariants of the manager\<close>

locale manager_frame =
  fixes env :: "'s MEnv" and K :: "string set" and P :: "'s Manager \<Rightarrow> bool"
  assumes memberOf: "P m \<Longrightarrow> svc_MemberOf (m_heap m r) \<in> K"
    and mutex: "P m \<Longrightarrow> P (m\<lparr>m_mutex := b\<rparr>)"
    and groups: "P m \<Longrightarrow> P (m\<lparr>m_groups := gs\<rparr>)"
    and schedulers: "P m \<Longrightarrow> P (m\<lparr>m_schedulers := sc\<rparr>)"
    and readings: "P m \<Longrightarrow> P (m\<lparr>m_readings := n\<rparr>)"
    and dns: "P m \<Longrightarrow> P (m\<lparr>m_dns := d\<rparr>)"
    and updates: "P m \<Longrightarrow> gs_MemberOf x \<in> K \<Longrightarrow> P (m\<lparr>m_store := snd (repo_Update (me_ops env) x (m_store m))\<rparr>)"
    and creates: "P m \<Longrightarrow> gs_MemberOf x \<in> K \<Longrightarrow> P (m\<lparr>m_store := snd (repo_Create (me_ops env) x (m_store m))\<rparr>)"
    and deletes: "P m \<Longrightarrow> k \<in> K \<Longrightarrow> P (m\<lparr>m_store := snd (repo_Delete (me_ops env) k sid (m_store m))\<rparr>)"
    and members: "P m \<Longrightarrow> P (m\<lparr>m_store := snd (repo_GetMemberInGroup (me_ops env) k sid (m_store m))\<rparr>)"
    and moves: "P m \<Longrightarrow> ss_MoveToInterval r iv (m_heap m, m_scheduled m) = (h, ss) \<Longrightarrow>
      P (m\<lparr>m_heap := h, m_scheduled := ss\<rparr>)"
    and assigns: "P m \<Longrightarrow> svc_MemberOf s \<in> K \<Longrightarrow> P (m\<lparr>m_heap := (m_heap m)(r := Assign (m_heap m r) s)\<rparr>)"
    and checks: "P m \<Longrightarrow> svc_id s = svc_id (m_heap m r) \<Longrightarrow> svc_MemberOf s = svc_MemberOf (m_heap m r) \<Longrightarrow>
      svc_ScheduledInterval s = svc_ScheduledInterval (m_heap m r) \<Longrightarrow> P (m\<lparr>m_heap := (m_heap m)(r := s)\<rparr>)"
begin

lemma stored: "P m \<Longrightarrow> gs_MemberOf ((toGSLBService (m_heap m r))\<lparr>gs_IsActive := b\<rparr>) \<in> K"
  "P m \<Longrightarrow> gs_MemberOf (toGSLBService (m_heap m r)) \<in> K"
  by (simp_all add: toGSLBService_def memberOf)

lemma unlock: "P m \<Longrightarrow> P (m_unlock m)"
  by (simp add: m_unlock_def mutex)

lemma lock: "m_lock m = Ok m' \<Longrightarrow> P m \<Longrightarrow> P m'"
  by (simp add: m_lock_Ok mutex)

lemma newScheduler_keeps: "P m \<Longrightarrow> P (newScheduler env' iv m)"
  by (simp add: newScheduler_def schedulers split: option.split)

lemma schedule_on_keeps: "schedule_on env' iv r m = Ok m' \<Longrightarrow> P m \<Longrightarrow> P m'"
  by (auto simp: schedule_on_def bind_eq_Ok case_prod_beta intro!: schedulers readings)

lemma unschedule_on_keeps: "unschedule_on iv r m = Ok (b, m') \<Longrightarrow> P m \<Longrightarrow> P m'"
  by (auto simp: unschedule_on_def bind_eq_Ok case_prod_beta intro!: schedulers)

lemma cleanupInterval_keeps: "cleanupInterval iv m = Ok m' \<Longrightarrow> P m \<Longrightarrow> P m'"
  using schedulers by (auto simp: cleanupInterval_def bind_eq_Ok split: option.splits)

lemma moveServiceToInterval_keeps:
  assumes "moveServiceToInterval env' r iv m = Ok m'" "P m"
  shows "P m'"
proof (cases "svc_ScheduledInterval (m_heap m r) = iv")
  case True
  then show ?thesis using assms by (simp add: moveServiceToInterval_def)
next
  case False
  obtain h ss where mv: "ss_MoveToInterval r iv (m_heap m, m_scheduled m) = (h, ss)" by fastforce
  obtain b m1 m2 where m1: "unschedule_on (svc_ScheduledInterval (m_heap m r)) r (m\<lparr>m_heap := h, m_scheduled := ss\<rparr>) = Ok (b, m1)"
    and m2: "(if b then cleanupInterval (svc_ScheduledInterval (m_heap m r)) m1 else Ok m1) = Ok m2"
    and m': "schedule_on env' iv r (newScheduler env' iv m2) = Ok m'"
    using assms(1) False mv by (auto simp: moveServiceToInterval_def Let_def bind_eq_Ok)
  have "P m1" by (rule unschedule_on_keeps[OF m1 moves[OF assms(2) mv]])
  then have "P m2" using m2 by (auto intro: cleanupInterval_keeps split: if_splits)
  then show ?thesis by (rule schedule_on_keeps[OF m' newScheduler_keeps])
qed

lemma store_active_keeps: "store_active env r b m = (x, m') \<Longrightarrow> P m \<Longrightarrow> P m'"
  using updates stored by (auto simp: store_active_eq)

lemma DNSUpdate_keeps: "DNSUpdate r b m = Ok m' \<Longrightarrow> P m \<Longrightarrow> P m'"
  by (auto simp: DNSUpdate_Ok dns)

lemma handlePromotion_keeps:
  assumes "handlePromotion env ev m = Ok m'" "P m"
  shows "P m'"
proof -
  show ?thesis
    using assms
    by (auto simp: handlePromotion_def bind_eq_Ok Let_def
        split: option.splits if_splits sum.splits prod.splits
        dest!: lock intro!: unlock elim!: store_active_keeps moveServiceToInterval_keeps DNSUpdate_keeps)
qed

text \<open>What a group calls is the handler of promotions, so its operations keep \<open>P\<close> as well.\<close>

lemma world_keeps: "w' = w \<or> (\<exists>ev. handlePromotion env ev w = Ok w') \<Longrightarrow> P w \<Longrightarrow> P w'"
  using handlePromotion_keeps by blast

lemma group_call_keeps1: "group_Update m_heap (handlePromotion env) g m = Ok (g', m') \<Longrightarrow> P m \<Longrightarrow> P m'"
  by (rule world_keeps[OF group_Update_world])

lemma group_call_keeps2: "group_RegisterService m_heap (handlePromotion env) r g m = Ok (g', m') \<Longrightarrow> P m \<Longrightarrow> P m'"
  by (rule world_keeps[OF group_RegisterService_world])

lemma group_call_keeps3: "group_RemoveService m_heap (handlePromotion env) sid g m = Ok (gone, g', m') \<Longrightarrow> P m \<Longrightarrow> P m'"
  by (rule world_keeps[OF group_RemoveService_world])

lemma group_call_keeps4: "OnServiceHealthChange m_heap (handlePromotion env) x b g m = Ok (g', m') \<Longrightarrow> P m \<Longrightarrow> P m'"
  by (rule world_keeps[OF OnServiceHealthChange_world])

lemma on_group_keeps:
  assumes "on_group k f m = Ok m'" "\<And>g g' m1. f g m = Ok (g', m1) \<Longrightarrow> P m1"
  shows "P m'"
  using assms by (auto simp: on_group_def bind_eq_Ok intro!: groups)

lemma register_in_group_keeps: "register_in_group env k r m = Ok m' \<Longrightarrow> P m \<Longrightarrow> P m'"
  unfolding register_in_group_def by (erule on_group_keeps) (rule group_call_keeps2)

lemma remove_from_group_keeps: "remove_from_group env k sid m = Ok (b, m') \<Longrightarrow> P m \<Longrightarrow> P m'"
  by (auto simp: remove_from_group_def bind_eq_Ok intro!: groups elim: group_call_keeps3)

lemma update_group_keeps: "on_group k (group_Update m_heap (handlePromotion env)) m = Ok m' \<Longrightarrow> P m \<Longrightarrow> P m'"
  by (erule on_group_keeps) (rule group_call_keeps1)

lemma health_group_keeps:
  "on_group k (OnServiceHealthChange m_heap (handlePromotion env) r b) m = Ok m' \<Longrightarrow> P m \<Longrightarrow> P m'"
  by (erule on_group_keeps) (rule group_call_keeps4)

lemma newServiceGroup_keeps: "P m \<Longrightarrow> P (newServiceGroup k m)"
  by (simp add: newServiceGroup_def groups)

lemma deleteGroup_keeps: "deleteGroup k m = Ok m' \<Longrightarrow> P m \<Longrightarrow> P m'"
  by (auto simp: deleteGroup_def bind_eq_Ok intro!: unlock groups dest: lock)

lemma BuildServiceOptions_keeps: "BuildServiceOptions env cfg m = (opts, m') \<Longrightarrow> P m \<Longrightarrow> P m'"
  by (auto simp: BuildServiceOptions_def on_repo_eq Let_def members split: sum.splits)

lemma onHealthChange_keeps:
  assumes "onHealthChange env r healthy m = Ok m'" "P m"
  shows "P m'"
  using assms(1) updates[OF assms(2) stored(2)[OF assms(2)]]
  by (auto simp: onHealthChange_def on_repo_eq Let_def elim: health_group_keeps)

lemma checkDone_keeps:
  assumes "checkDone env r ok m = Ok m'" "P m"
  shows "P m'"
proof -
  obtain s c where s: "(if ok then OnSuccess (m_heap m r) else OnFailure (m_heap m r)) = (s, c)" by fastforce
  then have "svc_id s = svc_id (m_heap m r)" "svc_MemberOf s = svc_MemberOf (m_heap m r)"
    "svc_ScheduledInterval s = svc_ScheduledInterval (m_heap m r)"
    by (auto simp: OnSuccess_def OnFailure_def Let_def split: if_splits)
  then have "P (m\<lparr>m_heap := (m_heap m)(r := s)\<rparr>)" by (intro checks assms(2))
  then show ?thesis
    using assms(1) s
    by (auto simp: checkDone_def Let_def simp del: fun_upd_apply split: option.splits if_splits
        elim: onHealthChange_keeps)
qed

lemma memberOfChanged_keeps:
  assumes "memberOfChanged env old_k new_k r m = Ok m'" "P m" "old_k \<in> K"
  shows "P m'"
proof -
  obtain m1 where m1: "m_lock m = Ok m1" "P m1" using assms(1,2) lock by (auto simp: memberOfChanged_def bind_eq_Ok)
  obtain x m2 where m2: "on_repo (repo_Delete (me_ops env) old_k (svc_id (m_heap m1 r))) m1 = (x, m2)" "P m2"
    using deletes[OF m1(2) assms(3)] by (simp add: on_repo_eq)
  obtain y m3 where m3: "on_repo (repo_Create (me_ops env) (toGSLBService (m_heap m2 r))) m2 = (y, m3)" "P m3"
    using creates[OF m2(2) stored(2)[OF m2(2)]] by (simp add: on_repo_eq)
  define m4 where "m4 = (if mget (m_groups m3) new_k = None then newServiceGroup new_k m3 else m3)"
  have m4: "P (m_unlock m4)" using m3(2) by (simp add: m4_def newServiceGroup_keeps unlock)
  show ?thesis
  proof (cases "(\<exists>e. x = Inl e) \<or> (\<exists>e. y = Inl e)")
    case True
    then show ?thesis using assms(1) m1 m2 m3 by (cases x) (auto simp: memberOfChanged_def)
  next
    case False
    then obtain u v where "x = Inr u" "y = Inr v" by (cases x; cases y) auto
    then obtain m5 b m6 where m5: "register_in_group env new_k r (m_unlock m4) = Ok m5"
      and m6: "(if mget (m_groups m4) old_k \<noteq> None then remove_from_group env old_k (svc_id (m_heap m5 r)) m5
        else Ok (False, m5)) = Ok (b, m6)"
      and m': "(if b then deleteGroup old_k m6 else Ok m6) = Ok m'"
      using assms(1) m1(1) m2(1) m3(1) by (auto simp: memberOfChanged_def bind_eq_Ok Let_def m4_def)
    have "P m5" by (rule register_in_group_keeps[OF m5 m4])
    then have "P m6" using m6 by (auto elim: remove_from_group_keeps split: if_splits)
    then show ?thesis using m' by (auto elim: deleteGroup_keeps split: if_splits)
  qed
qed

lemma updateService_keeps:
  assumes "updateService env old new m = Ok m'" "P m" "svc_MemberOf (m_heap m new) \<in> K"
  shows "P m'"
proof (cases "old = new \<or> \<not> ConfigChanged (m_heap m old) (m_heap m new)")
  case True
  then show ?thesis using assms(1,2) by (auto simp: updateService_def bind_eq_Ok m_lock_Ok mutex unlock split: if_splits)
next
  case False
  define m1 where "m1 = m_unlock (m\<lparr>m_mutex := True, m_heap := (m_heap m)(old := Assign (m_heap m old) (m_heap m new))\<rparr>)"
  let ?k = "svc_MemberOf (m_heap m old)" and ?k' = "svc_MemberOf (m_heap m new)"
  have "P (m\<lparr>m_mutex := True, m_heap := (m_heap (m\<lparr>m_mutex := True\<rparr>))(old := Assign (m_heap (m\<lparr>m_mutex := True\<rparr>) old) (m_heap m new))\<rparr>)"
    by (intro assigns mutex assms)
  then have m1: "P m1" unfolding m1_def by (intro unlock) simp
  let ?stored = "\<lambda>m3. snd (on_repo (repo_Update (me_ops env) (toGSLBService (m_heap m3 old))) m3)"
  let ?moved = "\<lambda>m3. if svc_defaultInterval (m_heap m old) \<noteq> svc_defaultInterval (m_heap m new) \<and>
      svc_defaultInterval (m_heap m old) = svc_ScheduledInterval (m_heap (?stored m3) old)
    then moveServiceToInterval env old (svc_defaultInterval (m_heap m new)) (?stored m3) else Ok (?stored m3)"
  let ?notified = "if ?k \<noteq> ?k' then memberOfChanged env ?k ?k' old m1
    else bind (m_rlock m1) (\<lambda>_. if mget (m_groups m1) ?k \<noteq> None then on_group ?k (group_Update m_heap (handlePromotion env)) m1
      else deleteGroup ?k m1)"
  have "m_lock m = Ok (m\<lparr>m_mutex := True\<rparr>)" using assms(1) False by (auto simp: updateService_def bind_eq_Ok m_lock_Ok)
  then have "bind ?notified (\<lambda>m2. bind (m_lock m2) (\<lambda>m3. bind (?moved m3) (\<lambda>m4. Ok (m_unlock m4)))) = Ok m'"
    using assms(1) False unfolding m1_def by (simp add: updateService_def Let_def split del: if_split)
  then obtain m2 m3 m4 where m2: "?notified = Ok m2" and m3: "m_lock m2 = Ok m3"
    and m4: "?moved m3 = Ok m4" "m' = m_unlock m4"
    unfolding bind_eq_Ok by blast
  have "P m2"
    using m2 m1 assms(2)
    by (auto simp: bind_eq_Ok memberOf elim: memberOfChanged_keeps update_group_keeps deleteGroup_keeps split: if_splits)
  then have "P m3" using m3 lock by blast
  then have "P (snd (on_repo (repo_Update (me_ops env) (toGSLBService (m_heap m3 old))) m3))"
    by (simp add: on_repo_eq updates stored)
  then have "P m4" using m4(1) by (auto elim: moveServiceToInterval_keeps split: if_splits)
  then show ?thesis by (simp add: m4(2) unlock)
qed

end

section \<open>Which services are scheduled\<close>

definition schedule_is :: "sref set \<Rightarrow> (sref \<Rightarrow> string) \<Rightarrow> sref \<Rightarrow> 's Manager \<Rightarrow> bool" where
  "schedule_is S ids n m \<longleftrightarrow> ss_inv (m_heap m) (m_scheduled m) \<and> scheduled (m_scheduled m) = S \<and>
     (\<forall>r. svc_id (m_heap m r) = ids r) \<and> m_next m = n"

interpretation sched_frame: manager_frame env UNIV "schedule_is S ids n" for env S ids n
proof
  fix m :: "'a Manager" and r iv h q
  assume "schedule_is S ids n m" "ss_MoveToInterval r iv (m_heap m, m_scheduled m) = (h, q)"
  then show "schedule_is S ids n (m\<lparr>m_heap := h, m_scheduled := q\<rparr>)"
    using Move_any[of "m_heap m" "m_scheduled m" r iv h q] by (simp add: schedule_is_def same_identity_def)
next
  fix m :: "'a Manager" and r and s :: Service
  assume P: "schedule_is S ids n m"
  let ?h = "(m_heap m)(r := Assign (m_heap m r) s)"
  have "ss_inv ?h (m_scheduled m)"
    by (rule ss_inv_fields[of "m_heap m"]) (use P in \<open>simp_all add: schedule_is_def\<close>)
  then show "schedule_is S ids n (m\<lparr>m_heap := ?h\<rparr>)" using P by (simp add: schedule_is_def)
next
  fix m :: "'a Manager" and r and s :: Service
  assume P: "schedule_is S ids n m" and s: "svc_id s = svc_id (m_heap m r)"
    "svc_ScheduledInterval s = svc_ScheduledInterval (m_heap m r)"
  have "ss_inv ((m_heap m)(r := s)) (m_scheduled m)"
    by (rule ss_inv_fields[of "m_heap m"]) (use P s in \<open>simp_all add: schedule_is_def\<close>)
  then show "schedule_is S ids n (m\<lparr>m_heap := (m_heap m)(r := s)\<rparr>)" using P s by (simp add: schedule_is_def)
qed (simp_all add: schedule_is_def)

section \<open>What the store holds under a name\<close>

definition untouched :: "string \<Rightarrow> GSLBServiceGroup option \<Rightarrow> GSLBServiceGroup FileStore Manager \<Rightarrow> bool" where
  "untouched k v m \<longleftrightarrow> (\<forall>r. svc_MemberOf (m_heap m r) \<noteq> k) \<and> file_inv (m_store m) \<and> file_map (m_store m) k = v"

lemma yields_state: "yields ok repr r s x a \<Longrightarrow> ok (snd (r s)) \<and> repr (snd (r s)) = a"
  by (auto simp: yields_def)

lemma Update_elsewhere:
  "file_inv s \<Longrightarrow> gs_MemberOf x \<noteq> k \<Longrightarrow>
    file_inv (snd (repo_Update (file_ops []) x s)) \<and> file_map (snd (repo_Update (file_ops []) x s)) k = file_map s k"
  using yields_state[OF file_groups.Update_yields[of s x]] by (auto split: option.splits)

lemma Create_elsewhere:
  "file_inv s \<Longrightarrow> gs_MemberOf x \<noteq> k \<Longrightarrow>
    file_inv (snd (repo_Create (file_ops []) x s)) \<and> file_map (snd (repo_Create (file_ops []) x s)) k = file_map s k"
  using yields_state[OF file_groups.Create_yields[of s x]] yields_state[OF file_groups.Create_override[of s x]]
  by (cases "override_in (file_map s) (gs_MemberOf x)") (auto split: option.splits)

lemma Delete_elsewhere:
  "file_inv s \<Longrightarrow> k' \<noteq> k \<Longrightarrow>
    file_inv (snd (repo_Delete (file_ops []) k' sid s)) \<and> file_map (snd (repo_Delete (file_ops []) k' sid s)) k = file_map s k"
  using yields_state[OF file_groups.Delete_yields[of s k' sid]] by (auto split: if_splits)

lemma GetMember_elsewhere:
  "file_inv s \<Longrightarrow> file_inv (snd (repo_GetMemberInGroup (file_ops []) k' sid s)) \<and>
    file_map (snd (repo_GetMemberInGroup (file_ops []) k' sid s)) k = file_map s k"
  using yields_state[OF file_groups.GetMember_yields[of s k' sid]] by simp

lemmas repo_elsewhere = Update_elsewhere Create_elsewhere Delete_elsewhere GetMember_elsewhere

interpretation store_frame: manager_frame "env\<lparr>me_ops := file_ops []\<rparr>" "- {k}" "untouched k v" for env k v
proof
  fix m :: "GSLBServiceGroup FileStore Manager" and r iv h q
  assume "untouched k v m" "ss_MoveToInterval r iv (m_heap m, m_scheduled m) = (h, q)"
  then show "untouched k v (m\<lparr>m_heap := h, m_scheduled := q\<rparr>)"
    using only_intervals_eqs(6)[OF MoveToInterval_intervals[of r iv "m_heap m" "m_scheduled m" h q]]
    by (simp add: untouched_def)
qed (simp_all add: untouched_def repo_elsewhere Assign_def)

section \<open>Registering and removing\<close>

lemma RegisterService_cases:
  assumes "RegisterService env cfg m = Ok (res, m')"
  obtains (invalid) e where "res = Inl (ErrRegister e)" "BuildServiceOptions env cfg m = (fst (BuildServiceOptions env cfg m), m')"
  | (known) s m0 i iv old where "NewServiceFromGSLBConfig (me_net env) cfg (fst (BuildServiceOptions env cfg m)) = Inr s"
      "m0 = snd (BuildServiceOptions env cfg m)" "res = Inr (m_next m0)"
      "ss_Search ((m_heap m0)(m_next m0 := s)) (svc_id s) (m_scheduled m0) = Some (i, iv, old)"
      "updateService env old (m_next m0) (m0\<lparr>m_heap := (m_heap m0)(m_next m0 := s), m_next := Suc (m_next m0)\<rparr>) = Ok m'"
  | (refused) s m0 e m2 where "NewServiceFromGSLBConfig (me_net env) cfg (fst (BuildServiceOptions env cfg m)) = Inr s"
      "m0 = snd (BuildServiceOptions env cfg m)" "res = Inl (ErrCreate e)"
      "on_repo (repo_Create (me_ops env) (toGSLBService s))
         (m0\<lparr>m_heap := (m_heap m0)(m_next m0 := s), m_next := Suc (m_next m0), m_mutex := True\<rparr>) = (Inl e, m2)"
      "m' = m_unlock m2"
  | (new) s m0 m2 m3 m4 where "NewServiceFromGSLBConfig (me_net env) cfg (fst (BuildServiceOptions env cfg m)) = Inr s"
      "m0 = snd (BuildServiceOptions env cfg m)" "res = Inr (m_next m0)"
      "ss_Search ((m_heap m0)(m_next m0 := s)) (svc_id s) (m_scheduled m0) = None"
      "on_repo (repo_Create (me_ops env) (toGSLBService s))
         (m0\<lparr>m_heap := (m_heap m0)(m_next m0 := s), m_next := Suc (m_next m0), m_mutex := True\<rparr>) = (Inr (), m2)"
      "schedule_on env (svc_ScheduledInterval s) (m_next m0) (newScheduler env (svc_ScheduledInterval s)
         (m2\<lparr>m_heap := (m_heap m2)(m_next m0 := SetHealthChangeCallback s)\<rparr>)) = Ok m3"
      "register_in_group env (svc_MemberOf s) (m_next m0)
         (if mget (m_groups m3) (svc_MemberOf s) = None
          then newServiceGroup (svc_MemberOf s) (m3\<lparr>m_scheduled := ss_Add (m_heap m3) (m_next m0) (m_scheduled m3)\<rparr>)
          else m3\<lparr>m_scheduled := ss_Add (m_heap m3) (m_next m0) (m_scheduled m3)\<rparr>) = Ok m4"
      "m' = m_unlock m4"
proof -
  obtain opts m0 where b: "BuildServiceOptions env cfg m = (opts, m0)" by fastforce
  have set: "svc_ScheduledInterval (SetHealthChangeCallback s) = svc_ScheduledInterval s"
    "svc_MemberOf (SetHealthChangeCallback s) = svc_MemberOf s" for s by (simp_all add: SetHealthChangeCallback_def)
  show ?thesis
  proof (cases "NewServiceFromGSLBConfig (me_net env) cfg opts")
    case (Inl e)
    then show ?thesis using assms b invalid[of e] by (simp add: RegisterService_def)
  next
    case (Inr s)
    let ?m1 = "m0\<lparr>m_heap := (m_heap m0)(m_next m0 := s), m_next := Suc (m_next m0)\<rparr>"
    have free: "\<not> m_mutex m0"
      using assms b Inr by (auto simp: RegisterService_def Let_def bind_eq_Ok m_rlock_def split: if_splits)
    show ?thesis
    proof (cases "ss_Search ((m_heap m0)(m_next m0 := s)) (svc_id s) (m_scheduled m0)")
      case (Some t)
      obtain i iv old where t: "t = (i, iv, old)" by (cases t)
      have "RegisterService env cfg m = bind (updateService env old (m_next m0) ?m1) (\<lambda>m. Ok (Inr (m_next m0), m))"
        using b Inr Some t free by (simp add: RegisterService_def Let_def m_rlock_def del: fun_upd_apply)
      from trans[OF this[symmetric] assms] have "updateService env old (m_next m0) ?m1 = Ok m'" "res = Inr (m_next m0)"
        by (auto simp: bind_eq_Ok simp del: fun_upd_apply)
      then show ?thesis using b Inr Some t by (intro known[of s m0 i iv old]) simp_all
    next
      case None
      obtain r m2 where cr: "on_repo (repo_Create (me_ops env) (toGSLBService s)) (?m1\<lparr>m_mutex := True\<rparr>) = (r, m2)" by fastforce
      show ?thesis
      proof (cases r)
        case (Inl e)
        have "RegisterService env cfg m = Ok (Inl (ErrCreate e), m_unlock m2)"
          using b \<open>NewServiceFromGSLBConfig (me_net env) cfg opts = Inr s\<close> None free cr Inl
          by (simp add: RegisterService_def Let_def m_rlock_def m_lock_def del: fun_upd_apply)
        from trans[OF this[symmetric] assms] have "res = Inl (ErrCreate e)" "m' = m_unlock m2" by simp_all
        then show ?thesis
          using b \<open>NewServiceFromGSLBConfig (me_net env) cfg opts = Inr s\<close> cr Inl
          by (intro refused[of s m0 e m2]) (simp_all del: fun_upd_apply)
      next
        case (Inr u)
        let ?r = "m_next m0" and ?iv = "svc_ScheduledInterval s" and ?k = "svc_MemberOf s"
        let ?m2 = "m2\<lparr>m_heap := (m_heap m2)(?r := SetHealthChangeCallback s)\<rparr>"
        let ?added = "\<lambda>m. m\<lparr>m_scheduled := ss_Add (m_heap m) ?r (m_scheduled m)\<rparr>"
        have "RegisterService env cfg m = bind (schedule_on env ?iv ?r (newScheduler env ?iv ?m2)) (\<lambda>m.
            bind (register_in_group env ?k ?r (if mget (m_groups m) ?k = None then newServiceGroup ?k (?added m) else ?added m))
              (\<lambda>m. Ok (Inr ?r, m_unlock m)))"
          using b \<open>NewServiceFromGSLBConfig (me_net env) cfg opts = Inr s\<close> None free cr Inr
          by (simp add: RegisterService_def Let_def m_rlock_def m_lock_def set del: fun_upd_apply split del: if_split cong del: if_weak_cong)
        from trans[OF this[symmetric] assms] obtain m3 m4 where "schedule_on env ?iv ?r (newScheduler env ?iv ?m2) = Ok m3"
          "register_in_group env ?k ?r (if mget (m_groups m3) ?k = None then newServiceGroup ?k (?added m3) else ?added m3) = Ok m4"
          "res = Inr ?r" "m' = m_unlock m4"
          unfolding bind_eq_Ok by auto
        then show ?thesis
          using b \<open>NewServiceFromGSLBConfig (me_net env) cfg opts = Inr s\<close> None cr Inr
          by (intro new[of s m0 m2 m3 m4]) (simp_all del: fun_upd_apply split del: if_split)
      qed
    qed
  qed
qed

text \<open>The identifiers of the services that are being checked; references that are not in use yet lie above.\<close>

definition scheduled_ids :: "'s Manager \<Rightarrow> string set" where
  "scheduled_ids m = (\<lambda>r. svc_id (m_heap m r)) ` scheduled (m_scheduled m)"

definition schedule_ok :: "'s Manager \<Rightarrow> bool" where
  "schedule_ok m \<longleftrightarrow> ss_inv (m_heap m) (m_scheduled m) \<and> scheduled (m_scheduled m) \<subseteq> {..<m_next m}"

lemma schedule_is_updates [simp]:
  "schedule_is S ids n (m\<lparr>m_store := st\<rparr>) = schedule_is S ids n m"
  "schedule_is S ids n (m\<lparr>m_mutex := b\<rparr>) = schedule_is S ids n m"
  "schedule_is S ids n (m_unlock m) = schedule_is S ids n m"
  by (simp_all add: schedule_is_def m_unlock_def)

lemma schedule_isI: "schedule_ok m \<Longrightarrow> schedule_is (scheduled (m_scheduled m)) (\<lambda>r. svc_id (m_heap m r)) (m_next m) m"
  by (simp add: schedule_is_def schedule_ok_def)

lemma schedule_is_ids: "schedule_is S ids n m \<Longrightarrow> scheduled_ids m = ids ` S"
  by (auto simp: schedule_is_def scheduled_ids_def)

lemma schedule_is_ok: "schedule_is S ids n m \<Longrightarrow> S \<subseteq> {..<n} \<Longrightarrow> schedule_ok m"
  by (simp add: schedule_is_def schedule_ok_def)

lemma schedule_kept:
  assumes "schedule_ok m" "\<And>S ids n. schedule_is S ids n m \<Longrightarrow> schedule_is S ids n m'"
  shows "schedule_ok m'" "scheduled_ids m' = scheduled_ids m"
proof -
  note s = schedule_isI[OF assms(1)]
  then show "schedule_ok m'" using schedule_is_ok[OF assms(2)] assms(1) by (simp add: schedule_ok_def)
  show "scheduled_ids m' = scheduled_ids m" using schedule_is_ids[OF s] schedule_is_ids[OF assms(2)[OF s]] by simp
qed

lemma NewService_id: "NewServiceFromGSLBConfig env cfg opts = Inr s \<Longrightarrow> svc_id s = cfg_ServiceID cfg \<and> svc_MemberOf s = cfg_MemberOf cfg"
  by (auto simp: NewServiceFromGSLBConfig_def Let_def split: option.splits if_splits)

text \<open>A fresh reference can be written without disturbing the schedule.\<close>

lemma schedule_is_fresh:
  assumes "schedule_is S ids n m" "S \<subseteq> {..<n}" "r = n"
  shows "schedule_is S (ids(r := svc_id s)) n' (m\<lparr>m_heap := (m_heap m)(r := s), m_next := n'\<rparr>)"
proof -
  have "ss_inv ((m_heap m)(r := s)) (m_scheduled m)"
    by (rule ss_inv_fields[of "m_heap m"]) (use assms in \<open>auto simp: schedule_is_def\<close>)
  then show ?thesis using assms by (auto simp: schedule_is_def)
qed

lemma image_fresh: "S \<subseteq> {..<n} \<Longrightarrow> ids(n := x) ` S = ids ` S" for n :: nat
  by (auto simp: image_iff)

lemma RegisterService_schedule:
  assumes "RegisterService env cfg m = Ok (res, m')" "schedule_ok m"
  shows "schedule_ok m' \<and> (case res of
      Inl e \<Rightarrow> scheduled_ids m' = scheduled_ids m
    | Inr r \<Rightarrow> scheduled_ids m' = insert (cfg_ServiceID cfg) (scheduled_ids m) \<and> svc_id (m_heap m' r) = cfg_ServiceID cfg)"
proof -
  define S ids n where "S = scheduled (m_scheduled m)" and "ids = (\<lambda>r. svc_id (m_heap m r))" and "n = m_next m"
  have Sn: "S \<subseteq> {..<n}" using assms(2) by (simp add: S_def n_def schedule_ok_def)
  have is0: "schedule_is S ids n m" using schedule_isI[OF assms(2)] by (simp add: S_def ids_def n_def)
  then have is1: "schedule_is S ids n (snd (BuildServiceOptions env cfg m))"
    by (cases "BuildServiceOptions env cfg m") (simp add: sched_frame.BuildServiceOptions_keeps)
  have ids_m: "scheduled_ids m = ids ` S" by (rule schedule_is_ids[OF is0])
  show ?thesis
    using assms(1)
  proof (cases rule: RegisterService_cases)
    case (invalid e)
    then have m': "schedule_is S ids n m'" using is1 by (metis snd_conv)
    then show ?thesis using invalid(1) schedule_is_ok[OF m' Sn] schedule_is_ids[OF m'] ids_m by simp
  next
    case (known s m0 i iv old)
    have m0: "schedule_is S ids n m0" "m_next m0 = n" using is1 known(2) by (simp_all add: schedule_is_def)
    let ?m1 = "m0\<lparr>m_heap := (m_heap m0)(n := s), m_next := Suc n\<rparr>"
    have m1: "schedule_is S (ids(n := svc_id s)) (Suc n) ?m1" by (rule schedule_is_fresh[OF m0(1) Sn]) simp
    have m': "schedule_is S (ids(n := svc_id s)) (Suc n) m'"
      by (rule sched_frame.updateService_keeps[OF _ m1]) (use known(5) m0(2) in simp_all)
    have "ss_inv (m_heap ?m1) (m_scheduled ?m1)" using m1 by (simp add: schedule_is_def)
    then have old: "old \<in> S" "svc_id (((m_heap m0)(n := s)) old) = svc_id s"
      using Search_cases[of "m_heap ?m1" "m_scheduled ?m1" "svc_id s"] known(4) m0 by (auto simp: schedule_is_def)
    have "old < n" using old(1) Sn by blast
    then have "ids old = svc_id s" using old(2) m0(1) by (simp add: schedule_is_def)
    then have "svc_id s \<in> ids ` S" using old(1) by (metis imageI)
    moreover have "schedule_ok m'" using schedule_is_ok[OF m'] Sn by force
    moreover have "scheduled_ids m' = ids ` S" using schedule_is_ids[OF m'] image_fresh[OF Sn] by simp
    moreover have "svc_id (m_heap m' n) = svc_id s" using m' by (simp add: schedule_is_def)
    ultimately show ?thesis using known(3) m0(2) ids_m NewService_id[OF known(1)] by auto
  next
    case (refused s m0 e m2)
    have m0: "schedule_is S ids n m0" "m_next m0 = n" using is1 refused(2) by (simp_all add: schedule_is_def)
    let ?m1 = "m0\<lparr>m_heap := (m_heap m0)(n := s), m_next := Suc n\<rparr>"
    have "schedule_is S (ids(n := svc_id s)) (Suc n) ?m1" by (rule schedule_is_fresh[OF m0(1) Sn]) simp
    then have m': "schedule_is S (ids(n := svc_id s)) (Suc n) m'"
      using refused(4,5) m0(2) by (auto simp: on_repo_eq simp del: fun_upd_apply)
    then show ?thesis
      using refused(1,3) schedule_is_ok[OF m'] schedule_is_ids[OF m'] Sn image_fresh[OF Sn] ids_m by force
  next
    case (new s m0 m2 m3 m4)
    have m0: "schedule_is S ids n m0" "m_next m0 = n" using is1 new(2) by (simp_all add: schedule_is_def)
    let ?m1 = "m0\<lparr>m_heap := (m_heap m0)(n := s), m_next := Suc n\<rparr>" and ?ids = "ids(n := svc_id s)"
    have m1: "schedule_is S ?ids (Suc n) ?m1" by (rule schedule_is_fresh[OF m0(1) Sn]) simp
    then have m2: "schedule_is S ?ids (Suc n) m2"
      using new(5) m0(2) by (auto simp: on_repo_eq simp del: fun_upd_apply)
    have heap2: "m_heap m2 = (m_heap m0)(n := s)" using new(5) m0(2) by (auto simp: on_repo_eq)
    have "schedule_is S ?ids (Suc n) (m2\<lparr>m_heap := (m_heap m2)(n := SetHealthChangeCallback s)\<rparr>)"
      by (rule sched_frame.checks[OF m2]) (simp_all add: heap2 SetHealthChangeCallback_def)
    then have m3: "schedule_is S ?ids (Suc n) m3"
      using new(6) m0(2) sched_frame.newScheduler_keeps sched_frame.schedule_on_keeps by metis
    have fresh: "svc_id (m_heap m3 x) \<noteq> svc_id (m_heap m3 n)" if "x \<in> S" for x
    proof -
      have "ss_inv (m_heap ?m1) (m_scheduled ?m1)" using m1 by (simp add: schedule_is_def)
      then have "svc_id (((m_heap m0)(n := s)) x) \<noteq> svc_id s"
        using Search_fresh[of "m_heap ?m1" "m_scheduled ?m1"] new(4) m0 that by (simp add: schedule_is_def)
      then show ?thesis using m0(1) m3 Sn that by (auto simp: schedule_is_def)
    qed
    let ?m3 = "m3\<lparr>m_scheduled := ss_Add (m_heap m3) n (m_scheduled m3)\<rparr>"
    have "schedule_is (insert n S) ?ids (Suc n) ?m3"
      using Add_inv[of "m_heap m3" "m_scheduled m3" n] m3 fresh by (simp add: schedule_is_def)
    then have "schedule_is (insert n S) ?ids (Suc n) m4"
      using new(7) m0(2) by (auto elim!: sched_frame.register_in_group_keeps
          intro: sched_frame.newServiceGroup_keeps split: if_splits)
    then have m': "schedule_is (insert n S) ?ids (Suc n) m'" using new(8) by (simp add: sched_frame.unlock)
    have "schedule_ok m'" using schedule_is_ok[OF m'] Sn by force
    moreover have "scheduled_ids m' = insert (svc_id s) (ids ` S)"
      using schedule_is_ids[OF m'] image_fresh[OF Sn, of ids "svc_id s"] unfolding image_insert by simp
    moreover have "svc_id (m_heap m' n) = svc_id s" using m' by (simp add: schedule_is_def)
    ultimately show ?thesis using new(3) m0(2) ids_m NewService_id[OF new(1)] by auto
  qed
qed

lemma RemoveService_cases:
  assumes "RemoveService env sid m = Ok (e, m')"
  obtains (unknown) "ss_Search (m_heap m) sid (m_scheduled m) = None" "m' = m"
  | (known) i iv r b1 m1 b2 m2 m3 m4 where "ss_Search (m_heap m) sid (m_scheduled m) = Some (i, iv, r)"
      "unschedule_on iv r m = Ok (b1, m1)"
      "remove_from_group env (svc_MemberOf (m_heap m1 r)) (svc_id (m_heap m1 r)) m1 = Ok (b2, m2)"
      "(if b2 then deleteGroup (svc_MemberOf (m_heap m2 r)) m2 else Ok m2) = Ok m3"
      "m_lock m3 = Ok m4"
      "m' = m_unlock (snd (on_repo (repo_Delete (me_ops env) (svc_MemberOf (m_heap m4 r)) (svc_id (m_heap m4 r)))
         (m4\<lparr>m_scheduled := ss_Delete (m_heap m4) sid (m_scheduled m4)\<rparr>)))"
proof (cases "ss_Search (m_heap m) sid (m_scheduled m)")
  case None
  have "m_rlock m = Ok ()" using assms by (cases "m_mutex m") (simp_all add: RemoveService_def m_rlock_def)
  then have "RemoveService env sid m = Ok (Some ErrServiceNotFound, m)" using None by (simp add: RemoveService_def)
  from trans[OF this[symmetric] assms] have "m' = m" by simp
  then show ?thesis by (rule unknown[OF None])
next
  case (Some t)
  obtain i iv r where t: "t = (i, iv, r)" by (cases t)
  have "m_rlock m = Ok ()" using assms by (cases "m_mutex m") (simp_all add: RemoveService_def m_rlock_def)
  then have "RemoveService env sid m = bind (unschedule_on iv r m) (\<lambda>(last, m).
         bind (m_rlock m) (\<lambda>_.
         bind (remove_from_group env (svc_MemberOf (m_heap m r)) (svc_id (m_heap m r)) m) (\<lambda>(empty, m).
         bind (if empty then deleteGroup (svc_MemberOf (m_heap m r)) m else Ok m) (\<lambda>m.
         bind (m_lock m) (\<lambda>m.
         let m = m\<lparr>m_scheduled := ss_Delete (m_heap m) sid (m_scheduled m)\<rparr>
         in case on_repo (repo_Delete (me_ops env) (svc_MemberOf (m_heap m r)) (svc_id (m_heap m r))) m of
              (Inl e, m) \<Rightarrow> Ok (Some (ErrDelete e), m_unlock m)
            | (Inr _, m) \<Rightarrow> Ok (None, m_unlock m))))))"
    using Some t by (simp add: RemoveService_def)
  from trans[OF this[symmetric] assms] obtain b1 m1 b2 m2 m3 m4 where *: "unschedule_on iv r m = Ok (b1, m1)"
      "remove_from_group env (svc_MemberOf (m_heap m1 r)) (svc_id (m_heap m1 r)) m1 = Ok (b2, m2)"
      "(if b2 then deleteGroup (svc_MemberOf (m_heap m2 r)) m2 else Ok m2) = Ok m3" "m_lock m3 = Ok m4"
      "(let m = m4\<lparr>m_scheduled := ss_Delete (m_heap m4) sid (m_scheduled m4)\<rparr>
         in case on_repo (repo_Delete (me_ops env) (svc_MemberOf (m_heap m r)) (svc_id (m_heap m r))) m of
              (Inl e, m) \<Rightarrow> Ok (Some (ErrDelete e), m_unlock m)
            | (Inr _, m) \<Rightarrow> Ok (None, m_unlock m)) = Ok (e, m')"
    unfolding bind_eq_Ok split_paired_Ex prod.case by (elim exE conjE) (rule that; assumption)
  from *(5) have "m' = m_unlock (snd (on_repo (repo_Delete (me_ops env) (svc_MemberOf (m_heap m4 r)) (svc_id (m_heap m4 r)))
         (m4\<lparr>m_scheduled := ss_Delete (m_heap m4) sid (m_scheduled m4)\<rparr>)))"
    by (cases "fst (repo_Delete (me_ops env) (svc_MemberOf (m_heap m4 r)) (svc_id (m_heap m4 r)) (m_store m4))")
      (simp_all add: Let_def on_repo_eq)
  then show ?thesis by (intro known[OF _ *(1-4)]) (simp_all add: Some t)
qed

lemma RemoveService_schedule:
  assumes "RemoveService env sid m = Ok (e, m')" "schedule_ok m"
  shows "schedule_ok m' \<and> scheduled_ids m' = scheduled_ids m - {sid}"
  using assms(1)
proof (cases rule: RemoveService_cases)
  case unknown
  then have "sid \<notin> scheduled_ids m"
    using Search_fresh[of "m_heap m" "m_scheduled m" sid] assms(2) by (auto simp: schedule_ok_def scheduled_ids_def)
  then show ?thesis using unknown assms(2) by simp
next
  case (known i iv r b1 m1 b2 m2 m3 m4)
  define S ids n where "S = scheduled (m_scheduled m)" and "ids = (\<lambda>r. svc_id (m_heap m r))" and "n = m_next m"
  have Sn: "S \<subseteq> {..<n}" using assms(2) by (simp add: S_def n_def schedule_ok_def)
  have is0: "schedule_is S ids n m" using schedule_isI[OF assms(2)] by (simp add: S_def ids_def n_def)
  then have "schedule_is S ids n m2"
    using sched_frame.unschedule_on_keeps[OF known(2)] sched_frame.remove_from_group_keeps[OF known(3)] by blast
  then have "schedule_is S ids n m3" using known(4) by (auto elim: sched_frame.deleteGroup_keeps split: if_splits)
  then have m4: "schedule_is S ids n m4" using sched_frame.lock[OF known(5)] by blast
  have "ss_inv (m_heap m4) (m_scheduled m4)" using m4 by (simp add: schedule_is_def)
  from Delete_keeps[OF this, of sid] have del: "ss_inv (m_heap m4) (ss_Delete (m_heap m4) sid (m_scheduled m4))"
    "scheduled (ss_Delete (m_heap m4) sid (m_scheduled m4)) = {r \<in> S. ids r \<noteq> sid}"
    using m4 by (simp_all add: schedule_is_def)
  then have m': "schedule_is {r \<in> S. ids r \<noteq> sid} ids n m'"
    using known(6) m4 by (simp add: schedule_is_def on_repo_eq m_unlock_def)
  have "scheduled_ids m' = scheduled_ids m - {sid}"
    using schedule_is_ids[OF m'] schedule_is_ids[OF is0] by auto
  then show ?thesis using schedule_is_ok[OF m'] Sn by auto
qed

lemma checkDone_schedule:
  "checkDone env r ok m = Ok m' \<Longrightarrow> schedule_ok m \<Longrightarrow> schedule_ok m' \<and> scheduled_ids m' = scheduled_ids m"
  using schedule_kept[of m m'] sched_frame.checkDone_keeps by blast

text \<open>Nothing is written under a name that no service has.\<close>

lemma RegisterService_untouched:
  assumes "RegisterService env cfg m = Ok (res, m')" "me_ops env = file_ops []" "untouched k v m" "cfg_MemberOf cfg \<noteq> k"
  shows "untouched k v m'"
proof -
  have env: "env\<lparr>me_ops := file_ops []\<rparr> = env" using assms(2) by simp
  note sf = store_frame.updateService_keeps[of env, unfolded env] store_frame.register_in_group_keeps[of env, unfolded env]
  have b: "untouched k v (snd (BuildServiceOptions env cfg m))"
    using store_frame.BuildServiceOptions_keeps[of env cfg m, unfolded env] assms(3)
    by (cases "BuildServiceOptions env cfg m") simp
  have stored: "untouched k v (snd (on_repo (repo_Create (me_ops env) (toGSLBService s))
      (m0\<lparr>m_heap := (m_heap m0)(m_next m0 := s), m_next := Suc (m_next m0), m_mutex := True\<rparr>)))"
    if "NewServiceFromGSLBConfig (me_net env) cfg (fst (BuildServiceOptions env cfg m)) = Inr s"
      "m0 = snd (BuildServiceOptions env cfg m)" for s m0
    using b that assms(2,4) NewService_id[OF that(1)] repo_elsewhere(2)[of "m_store m0" "toGSLBService s" k]
    by (simp add: untouched_def on_repo_eq) (simp add: toGSLBService_def)
  show ?thesis
    using assms(1)
  proof (cases rule: RegisterService_cases)
    case (invalid e)
    then show ?thesis using b by (metis snd_conv)
  next
    case (known s m0 i iv old)
    have m1: "untouched k v (m0\<lparr>m_heap := (m_heap m0)(m_next m0 := s), m_next := Suc (m_next m0)\<rparr>)"
      using b known(2) assms(4) NewService_id[OF known(1)] by (simp add: untouched_def)
    show ?thesis
      by (rule sf(1)[OF known(5) m1]) (use assms(4) NewService_id[OF known(1)] in simp)
  next
    case (refused s m0 e m2)
    then show ?thesis using stored[OF refused(1,2)] by (simp add: store_frame.unlock)
  next
    case (new s m0 m2 m3 m4)
    have "untouched k v m2" using stored[OF new(1,2)] new(5) by simp
    then have "untouched k v (m2\<lparr>m_heap := (m_heap m2)(m_next m0 := SetHealthChangeCallback s)\<rparr>)"
      using assms(4) NewService_id[OF new(1)] by (simp add: untouched_def SetHealthChangeCallback_def)
    then have "untouched k v m3"
      using new(6) store_frame.newScheduler_keeps store_frame.schedule_on_keeps by metis
    then have added: "untouched k v (if mget (m_groups m3) (svc_MemberOf s) = None
          then newServiceGroup (svc_MemberOf s) (m3\<lparr>m_scheduled := ss_Add (m_heap m3) (m_next m0) (m_scheduled m3)\<rparr>)
          else m3\<lparr>m_scheduled := ss_Add (m_heap m3) (m_next m0) (m_scheduled m3)\<rparr>)"
      by (simp add: untouched_def newServiceGroup_def)
    have "untouched k v m4" by (rule sf(2)[OF new(7) added])
    then show ?thesis using new(8) by (simp add: store_frame.unlock)
  qed
qed

lemma RemoveService_untouched:
  assumes "RemoveService env sid m = Ok (e, m')" "me_ops env = file_ops []" "untouched k v m"
  shows "untouched k v m'"
  using assms(1)
proof (cases rule: RemoveService_cases)
  case unknown
  then show ?thesis using assms(3) by simp
next
  case (known i iv r b1 m1 b2 m2 m3 m4)
  have env: "env\<lparr>me_ops := file_ops []\<rparr> = env" using assms(2) by simp
  have "untouched k v m2"
    using store_frame.unschedule_on_keeps[OF known(2) assms(3)] known(3)
      store_frame.remove_from_group_keeps[of env, unfolded env] by blast
  then have "untouched k v m3" using known(4) by (auto elim: store_frame.deleteGroup_keeps split: if_splits)
  then have "untouched k v m4" using store_frame.lock[OF known(5)] by blast
  then show ?thesis
    using known(6) repo_elsewhere(3)[of "m_store m4" "svc_MemberOf (m_heap m4 r)" k] assms(2)
    by (simp add: untouched_def on_repo_eq m_unlock_def)
qed

lemma checkDone_untouched:
  assumes "checkDone env r ok m = Ok m'" "me_ops env = file_ops []" "untouched k v m"
  shows "untouched k v m'"
proof -
  have "env\<lparr>me_ops := file_ops []\<rparr> = env" using assms(2) by simp
  then show ?thesis using store_frame.checkDone_keeps[of env r ok m m' k v] assms(1,3) by simp
qed

end
