(* ===== verification/RepoSpec.thy ===== *)
theory RepoSpec
  imports ServiceRepo
begin

text \<open>
  What \<^verbatim>\<open>internal/repositories/service\<close> promises as a whole: a specification of its operations on a
  plain map from group names to member lists, and the refinement of that map by both stores. The
  properties of the repository are then properties of the specification: well-formed groups, and
  what an override protects.
\<close>

section \<open>Specification\<close>

datatype repo_call = CallUpdate GSLBService | CallCreate GSLBService | CallDelete string string
  | CallUpdateOverride string GSLBService | CallRemoveOverrideFlag string
  | CallRead string | CallGetActive string | CallHasOverride string | CallGetMember string string

datatype repo_answer = Done | AGroup GSLBServiceGroup | AService GSLBService | ABool bool

type_synonym repo_map = "string \<Rightarrow> GSLBServiceGroup option"

definition find_or :: "repo_error \<Rightarrow> GSLBService option \<Rightarrow> repo_error + repo_answer" where
  "find_or e x = (case x of None \<Rightarrow> Inl e | Some svc \<Rightarrow> Inr (AService svc))"

definition spec_replace :: "(GSLBService \<Rightarrow> GSLBService) \<Rightarrow> string \<Rightarrow> string \<Rightarrow> repo_map \<Rightarrow>
    (repo_error + repo_answer) \<times> repo_map" where
  "spec_replace f k sid m =
     (let g = group_in m k in
      case IndexFunc (\<lambda>x. gs_ID x = sid) g of
        None \<Rightarrow> (Inl (if g = [] then ErrGroupDoesNotExist else ErrServiceInGroupNotFound), m)
      | Some i \<Rightarrow> (Inr Done, m(k \<mapsto> g[i := f (g ! i)])))"

fun spec_call :: "repo_call \<Rightarrow> repo_map \<Rightarrow> (repo_error + repo_answer) \<times> repo_map" where
  "spec_call (CallUpdate new) m =
     spec_replace (\<lambda>old. updated_member m old new) (gs_MemberOf new) (gs_ID new) m"
| "spec_call (CallCreate new) m =
     (if override_in m (gs_MemberOf new) then (Inr Done, m)
      else
        let g = group_in m (gs_MemberOf new)
        in (Inr Done, m(gs_MemberOf new \<mapsto>
             (case IndexFunc (\<lambda>x. gs_ID x = gs_ID new) g of None \<Rightarrow> g @ [new] | Some i \<Rightarrow> g[i := new]))))"
| "spec_call (CallDelete k sid) m =
     (if override_in m k then (Inr Done, m)
      else (Inr Done, m(k \<mapsto> DeleteFunc (\<lambda>x. gs_ID x = sid) (group_in m k))))"
| "spec_call (CallUpdateOverride ip svc) m =
     spec_replace (\<lambda>old. svc\<lparr>gs_IP := ip\<rparr>) (gs_MemberOf svc) (gs_ID svc) m"
| "spec_call (CallRemoveOverrideFlag k) m =
     (Inr Done, m(k \<mapsto> map (\<lambda>x. x\<lparr>gs_HasOverride := False\<rparr>) (group_in m k)))"
| "spec_call (CallRead k) m = (Inr (AGroup (group_in m k)), m)"
| "spec_call (CallGetActive k) m =
     (find_or ErrServiceWithMemberOfNotFound (find gs_IsActive (group_in m k)), m)"
| "spec_call (CallHasOverride k) m = (Inr (ABool (override_in m k)), m)"
| "spec_call (CallGetMember k sid) m = (find_or ErrServiceInGroupNotFound (member_in m k sid), m)"

text \<open>The calls on the code's operations.\<close>

definition answering :: "('a \<Rightarrow> repo_answer) \<Rightarrow> ('s, 'a) repo \<Rightarrow> ('s, repo_answer) repo" where
  "answering f r = rbind r (\<lambda>x. rreturn (f x))"

fun run_call :: "('s, GSLBServiceGroup) Store \<Rightarrow> repo_call \<Rightarrow> ('s, repo_answer) repo" where
  "run_call ops (CallUpdate new) = answering (\<lambda>_. Done) (repo_Update ops new)"
| "run_call ops (CallCreate new) = answering (\<lambda>_. Done) (repo_Create ops new)"
| "run_call ops (CallDelete k sid) = answering (\<lambda>_. Done) (repo_Delete ops k sid)"
| "run_call ops (CallUpdateOverride ip svc) = answering (\<lambda>_. Done) (repo_UpdateOverride ops ip svc)"
| "run_call ops (CallRemoveOverrideFlag k) = answering (\<lambda>_. Done) (repo_RemoveOverrideFlag ops k)"
| "run_call ops (CallRead k) = answering AGroup (repo_Read ops k)"
| "run_call ops (CallGetActive k) = answering AService (repo_GetActive ops k)"
| "run_call ops (CallHasOverride k) = answering ABool (repo_HasOverride ops k)"
| "run_call ops (CallGetMember k sid) = answering AService (repo_GetMemberInGroup ops k sid)"

text \<open>A sequence of calls and its answers.\<close>

fun run_all :: "('c \<Rightarrow> 's \<Rightarrow> 'r \<times> 's) \<Rightarrow> 'c list \<Rightarrow> 's \<Rightarrow> 'r list \<times> 's" where
  "run_all f [] s = ([], s)"
| "run_all f (c # cs) s = (let (r, s') = f c s; (rs, s'') = run_all f cs s' in (r # rs, s''))"

section \<open>Refinement\<close>

lemma yields_answering:
  assumes "yields ok repr r s x a"
  shows "yields ok repr (answering f r) s (case x of Inl e \<Rightarrow> Inl e | Inr y \<Rightarrow> Inr (f y)) a"
  using assms unfolding answering_def
  by (cases x) (auto intro: yields_rbind yields_rbind_fail)

lemma find_or_answer:
  "(case (case x of None \<Rightarrow> Inl e | Some svc \<Rightarrow> Inr svc) of Inl e \<Rightarrow> Inl e | Inr y \<Rightarrow> Inr (AService y)) = find_or e x"
  by (simp add: find_or_def split: option.splits)

context group_store
begin

lemma UpdateOverride_missing:
  assumes "inv s" "IndexFunc (\<lambda>x. gs_ID x = gs_ID svc) (group_in (abs s) (gs_MemberOf svc)) = None"
  shows "yields inv abs (repo_UpdateOverride ops ip svc) s
    (Inl (if group_in (abs s) (gs_MemberOf svc) = [] then ErrGroupDoesNotExist else ErrServiceInGroupNotFound)) (abs s)"
  unfolding repo_UpdateOverride_def Let_def
  by (rule yields_rbind[OF Read_yields[OF assms(1)]]) (use assms(2) in \<open>auto simp: yields_rfail\<close>)

lemma call_refines:
  assumes "inv s"
  shows "yields inv abs (run_call ops c) s (fst (spec_call c (abs s))) (snd (spec_call c (abs s)))"
proof (cases c)
  case (CallUpdate new)
  then show ?thesis
    using yields_answering[OF Update_yields[OF assms, of new], of "\<lambda>_. Done"]
    by (cases "group_in (abs s) (gs_MemberOf new) = []") (auto simp: spec_replace_def Let_def split: option.splits)
next
  case (CallCreate new)
  then show ?thesis
    using yields_answering[OF Create_yields[OF assms, of new], of "\<lambda>_. Done"]
      yields_answering[OF Create_override[OF assms, of new], of "\<lambda>_. Done"]
    by (simp add: Let_def)
next
  case (CallDelete k sid)
  then show ?thesis
    using yields_answering[OF Delete_yields[OF assms, of k sid], of "\<lambda>_. Done"]
    by (cases "override_in (abs s) k") simp_all
next
  case (CallUpdateOverride ip svc)
  then show ?thesis
    using yields_answering[OF UpdateOverride_missing[OF assms, of svc ip], of "\<lambda>_. Done"]
      yields_answering[OF UpdateOverride_yields[OF assms, of svc _ ip], of _ "\<lambda>_. Done"]
    by (cases "group_in (abs s) (gs_MemberOf svc) = []") (auto simp: spec_replace_def Let_def split: option.splits)
next
  case (CallRemoveOverrideFlag k)
  then show ?thesis
    using yields_answering[OF RemoveOverrideFlag_yields[OF assms, of k], of "\<lambda>_. Done"] by simp
next
  case (CallRead k)
  then show ?thesis
    using yields_answering[OF Read_yields[OF assms, of k], of AGroup] by simp
next
  case (CallGetActive k)
  then show ?thesis
    using yields_answering[OF GetActive_yields[OF assms, of k], of AService] by (simp add: find_or_answer)
next
  case (CallHasOverride k)
  then show ?thesis
    using yields_answering[OF HasOverride_yields[OF assms, of k], of ABool] by simp
next
  case (CallGetMember k sid)
  then show ?thesis
    using yields_answering[OF GetMember_yields[OF assms, of k sid], of AService] by (simp add: find_or_answer)
qed

lemma calls_refine:
  "inv s \<Longrightarrow> fst (run_all (run_call ops) cs s) = fst (run_all spec_call cs (abs s)) \<and>
    inv (snd (run_all (run_call ops) cs s)) \<and>
    abs (snd (run_all (run_call ops) cs s)) = snd (run_all spec_call cs (abs s))"
proof (induction cs arbitrary: s)
  case (Cons c cs)
  show ?case
    using call_refines[OF Cons.prems, of c] Cons.IH[of "snd (run_call ops c s)"]
    by (simp add: yields_def split_beta Let_def)
qed simp

end

section \<open>Properties\<close>

text \<open>
  C5. Refinement of the repository: whatever sequence of repository calls is made, on the in-memory
  store and on a usable file, both give the answers of the specification on maps, error answers
  included, and end representing the specification's map.
\<close>

theorem repository_refines_map:
  assumes "keys_ok mem" "file_inv fs" "map_of mem = m" "file_map fs = m"
  shows "fst (run_all (run_call (mem_ops [])) cs mem) = fst (run_all spec_call cs m) \<and>
    fst (run_all (run_call (file_ops [])) cs fs) = fst (run_all spec_call cs m) \<and>
    map_of (snd (run_all (run_call (mem_ops [])) cs mem)) = snd (run_all spec_call cs m) \<and>
    file_map (snd (run_all (run_call (file_ops [])) cs fs)) = snd (run_all spec_call cs m)"
  using mem_groups.calls_refine[OF assms(1), of cs] file_groups.calls_refine[OF assms(2), of cs] assms(3,4)
  by simp

definition stored :: "string \<Rightarrow> GSLBService" where
  "stored sid = \<lparr>gs_ID = sid, gs_MemberOf = ''example'', gs_Fqdn = [], gs_Datacenter = ''DC1'',
     gs_IP = ''10.0.0.1'', gs_IsHealthy = True, gs_FailureCount = 0, gs_IsActive = True, gs_HasOverride = False\<rparr>"

theorem repository_refines_map_witness:
  "fst (run_all (run_call (file_ops [])) [CallCreate (stored ''a''), CallUpdate (stored ''b''),
      CallGetActive ''example'', CallDelete ''example'' ''a'', CallRead ''example''] (file_NewStore EmptyFile)) =
   [Inr Done, Inl ErrServiceInGroupNotFound, Inr (AService (stored ''a'')), Inr Done, Inr (AGroup [])]"
proof -
  have "file_inv (file_NewStore EmptyFile)" "file_map (file_NewStore EmptyFile) = Map.empty"
    by (simp_all add: file_inv_new) (simp add: file_NewStore_def file_map_def)
  moreover have "fst (run_all spec_call [CallCreate (stored ''a''), CallUpdate (stored ''b''),
      CallGetActive ''example'', CallDelete ''example'' ''a'', CallRead ''example''] Map.empty) =
   [Inr Done, Inl ErrServiceInGroupNotFound, Inr (AService (stored ''a'')), Inr Done, Inr (AGroup [])]"
    by (simp add: stored_def group_in_def override_in_def spec_replace_def find_or_def
        Let_def DeleteFunc_def)
  moreover have "keys_ok mem_NewStore" "map_of mem_NewStore = Map.empty" by (simp_all add: mem_NewStore_def)
  ultimately show ?thesis
    using repository_refines_map[of mem_NewStore "file_NewStore EmptyFile" Map.empty] by metis
qed

lemma groups_wf_spec_replace:
  assumes "groups_wf m" "\<And>old. gs_ID (f old) = sid" "\<And>old. gs_MemberOf (f old) = k"
  shows "groups_wf (snd (spec_replace f k sid m))"
proof (cases "IndexFunc (\<lambda>x. gs_ID x = sid) (group_in m k)")
  case (Some i)
  then show ?thesis
    using groups_wf_replace[OF assms(1), of "f (group_in m k ! i)" k i] assms(2,3)
    by (simp add: spec_replace_def Let_def)
qed (use assms(1) in \<open>simp add: spec_replace_def Let_def\<close>)

lemma spec_call_wf:
  assumes "groups_wf m"
  shows "groups_wf (snd (spec_call c m))"
proof (cases c)
  case (CallUpdate new)
  then show ?thesis
    using groups_wf_spec_replace[OF assms] by (simp add: updated_member_def)
next
  case (CallCreate new)
  then show ?thesis
    using groups_wf_replace[OF assms, of new "gs_MemberOf new"] groups_wf_snoc[OF assms, of new "gs_MemberOf new"] assms
    by (simp add: Let_def split: option.splits)
next
  case (CallDelete k sid)
  have "groups_wf (m(k \<mapsto> DeleteFunc (\<lambda>x. gs_ID x = sid) (group_in m k)))"
    using assms by (intro groups_wf_upd) (auto simp: groups_wf_def distinct_map_DeleteFunc)
  then show ?thesis using CallDelete assms by simp
next
  case (CallUpdateOverride ip svc)
  then show ?thesis
    using groups_wf_spec_replace[OF assms] by simp
next
  case (CallRemoveOverrideFlag k)
  have "groups_wf (m(k \<mapsto> map (\<lambda>x. x\<lparr>gs_HasOverride := False\<rparr>) (group_in m k)))"
    using assms by (intro groups_wf_upd) (auto simp: groups_wf_def comp_def)
  then show ?thesis using CallRemoveOverrideFlag by simp
qed (use assms in simp_all)

lemma run_all_inv:
  assumes "P s" "\<And>c s. P s \<Longrightarrow> P (snd (f c s))"
  shows "P (snd (run_all f cs s))"
  using assms(1) by (induction cs arbitrary: s) (auto simp: split_beta Let_def assms(2))

text \<open>
  Well-formedness: over any sequence of repository calls on a file that starts empty, every
  stored service stays filed under its own group and no group holds two services with one id.
\<close>

theorem repository_keeps_groups_wf:
  "groups_wf (file_map (snd (run_all (run_call (file_ops [])) cs (file_NewStore EmptyFile))))"
proof -
  let ?fs = "file_NewStore EmptyFile :: GSLBServiceGroup FileStore"
  have "file_inv ?fs" "file_map ?fs = Map.empty"
    by (simp_all add: file_inv_new) (simp add: file_NewStore_def file_map_def)
  then have "file_map (snd (run_all (run_call (file_ops [])) cs (file_NewStore EmptyFile))) =
      snd (run_all spec_call cs Map.empty)"
    using file_groups.calls_refine[of "file_NewStore EmptyFile" cs] by metis
  moreover have "groups_wf Map.empty" by (simp add: groups_wf_def group_in_def)
  then have "groups_wf (snd (run_all spec_call cs Map.empty))"
    by (rule run_all_inv[of groups_wf]) (rule spec_call_wf)
  ultimately show ?thesis by metis
qed


definition overridden :: "GSLBServiceGroup FileStore" where
  "overridden = file_NewStore (Json [(''example'', [(stored ''a'')\<lparr>gs_HasOverride := True, gs_IP := ''9.9.9.9''\<rparr>])])"

lemma overridden_store:
  "file_inv overridden"
  "group_in (file_map overridden) ''example'' = [(stored ''a'')\<lparr>gs_HasOverride := True, gs_IP := ''9.9.9.9''\<rparr>]"
  by (simp_all add: overridden_def file_inv_new) (simp add: file_NewStore_def file_map_def group_in_def)


text \<open>
  The gap in that protection: the stored form of a service that \<^verbatim>\<open>GSLBService\<close> builds is never
  the active one. Storing it over the only active member of an overridden group, as every health
  change does, leaves a group that answers \<^verbatim>\<open>HasOverride\<close> with false although the member still
  carries the overriding address and the flag.
\<close>

theorem health_update_unhooks_override:
  assumes "file_inv fs" "groups_wf (file_map fs)" "override_in (file_map fs) k" "svc_MemberOf s = k"
    and "member_in (file_map fs) k (svc_id s) = Some old"
    and "\<forall>x \<in> set (group_in (file_map fs) k). gs_IsActive x \<longleftrightarrow> x = old"
  shows "let fs' = snd (repo_Update (file_ops []) (toGSLBService s) fs)
    in fst (repo_HasOverride (file_ops []) k fs') = Inr False \<and>
      map_option gs_HasOverride (member_in (file_map fs') k (svc_id s)) = Some True \<and>
      map_option gs_IP (member_in (file_map fs') k (svc_id s)) = Some (gs_IP old)"
proof -
  let ?m = "file_map fs" and ?new = "toGSLBService s"
  have new: "gs_ID ?new = svc_id s" "gs_MemberOf ?new = k" "\<not> gs_IsActive ?new"
    using assms(4) by (simp_all add: toGSLBService_def)
  obtain i where i: "IndexFunc (\<lambda>x. gs_ID x = svc_id s) (group_in ?m k) = Some i" "group_in ?m k ! i = old"
    using assms(5) by (auto simp: member_in_def find_IndexFunc split: option.splits)
  then have il: "i < length (group_in ?m k)" by (simp add: IndexFunc_Some)
  then have old: "old \<in> set (group_in ?m k)" using i(2) nth_mem by blast
  let ?x = "?new\<lparr>gs_IP := gs_IP old, gs_HasOverride := True\<rparr>"
  have "updated_member ?m old ?new = ?x"
    using assms(3,6) old new(2) by (simp add: updated_member_def)
  then have upd: "yields file_inv file_map (repo_Update (file_ops []) ?new) fs (Inr ()) (?m(k \<mapsto> (group_in ?m k)[i := ?x]))"
    using file_groups.Update_yields[OF assms(1), of ?new] i new by simp
  have dist: "distinct (map gs_ID (group_in ?m k))" using assms(2) by (simp add: groups_wf_def)
  have "\<not> gs_IsActive y" if "y \<in> set ((group_in ?m k)[i := ?x])" for y
  proof -
    obtain j where j: "j < length (group_in ?m k)" "y = (group_in ?m k)[i := ?x] ! j"
      using \<open>y \<in> _\<close> by (auto simp: in_set_conv_nth)
    show ?thesis
    proof (cases "j = i")
      case False
      then have "group_in ?m k ! j \<noteq> old"
        using dist i(2) il j(1) by (metis nth_eq_iff_index_eq distinct_map)
      then show ?thesis using j False assms(6) by simp
    qed (use j new(3) in simp)
  qed
  then have "\<not> override_in (?m(k \<mapsto> (group_in ?m k)[i := ?x])) k"
    by (simp add: override_in_def find_None_iff[THEN iffD2])
  moreover have "member_in (?m(k \<mapsto> (group_in ?m k)[i := ?x])) k (gs_ID ?x) = Some ?x"
    by (rule file_groups.member_after_upd) (use i(1) new(1) in simp)
  ultimately show ?thesis
    using upd file_groups.HasOverride_yields[of "snd (repo_Update (file_ops []) ?new fs)" k] new(1)
    by (simp add: yields_def Let_def)
qed

theorem health_update_unhooks_override_witness:
  "fst (repo_HasOverride (file_ops []) ''example'' overridden) = Inr True \<and>
   fst (repo_HasOverride (file_ops []) ''example''
     (snd (repo_Update (file_ops []) (toGSLBService blank_service) overridden))) = Inr False"
proof -
  have wf: "groups_wf (file_map overridden)"
    by (simp add: groups_wf_def overridden_def file_NewStore_def file_map_def group_in_def stored_def)
  have ov: "override_in (file_map overridden) ''example''"
    using overridden_store(2) by (simp add: override_in_def stored_def)
  have "fst (repo_HasOverride (file_ops []) ''example'' overridden) = Inr True"
    using file_groups.HasOverride_yields[OF overridden_store(1), of "''example''"] ov by (simp add: yields_def)
  then show ?thesis
    using health_update_unhooks_override[OF overridden_store(1) wf ov, of blank_service] overridden_store(2)
    by (simp add: member_in_def stored_def blank_service_def Let_def)
qed

end
