(* ===== verification/Spoofs.thy ===== *)
theory Spoofs
  imports RepoSpec ManagerProps
begin

text \<open>
  \<^verbatim>\<open>internal/repositories/spoof\<close> and \<^verbatim>\<open>internal/api/handlers/spoofs\<close>: the read-only view of the
  stored groups that DNS is built from (one spoof per active service), and the API operations that
  override the address of an active service by hand. The API shares the store with the manager, so
  its operations are state transformations of the manager. A request body is what JSON decoding
  makes of it, \<open>None\<close> where decoding fails; an answer is its status code. The digest of the spoof
  list (JSON and SHA-256) is a parameter.
\<close>

section \<open>The spoof repository\<close>

record Spoof =
  sp_FQDN :: string
  sp_IP :: string
  sp_DC :: string

definition toSpoof :: "GSLBService \<Rightarrow> Spoof" where
  "toSpoof s = \<lparr>sp_FQDN = gs_MemberOf s, sp_IP = gs_IP s, sp_DC = gs_Datacenter s\<rparr>"

definition no_spoof :: Spoof where
  "no_spoof = \<lparr>sp_FQDN = [], sp_IP = [], sp_DC = []\<rparr>"

datatype spoof_error = SpoofStoreError store_error | ErrSpoofInServiceGroupNotFound

definition spoof_Read ::
  "('s, GSLBServiceGroup) Store \<Rightarrow> string \<Rightarrow> 's \<Rightarrow> (spoof_error + Spoof) \<times> 's" where
  "spoof_Read ops sid s =
     (case st_Load ops sid s of
        (Inl e, s) \<Rightarrow> (Inl (SpoofStoreError e), s)
      | (Inr members, s) \<Rightarrow>
          (case find gs_IsActive members of
             Some svc \<Rightarrow> (Inr (toSpoof svc), s)
           | None \<Rightarrow> (Inr no_spoof, s)))"

definition spoof_ReadMemberOf ::
  "('s, GSLBServiceGroup) Store \<Rightarrow> string \<Rightarrow> 's \<Rightarrow> (spoof_error + Spoof) \<times> 's" where
  "spoof_ReadMemberOf ops memberOf s =
     (case st_Load ops memberOf s of
        (Inl e, s) \<Rightarrow> (Inl (SpoofStoreError e), s)
      | (Inr members, s) \<Rightarrow>
          (case find gs_IsActive members of
             Some svc \<Rightarrow> (Inr (toSpoof svc), s)
           | None \<Rightarrow> (Inl ErrSpoofInServiceGroupNotFound, s)))"

definition active_spoofs :: "GSLBServiceGroup list \<Rightarrow> Spoof list" where
  "active_spoofs groups = concat (map (\<lambda>g. map toSpoof (filter gs_IsActive g)) groups)"

definition spoof_ReadAll ::
  "('s, GSLBServiceGroup) Store \<Rightarrow> 's \<Rightarrow> (spoof_error + Spoof list) \<times> 's" where
  "spoof_ReadAll ops s =
     (case st_LoadAll ops s of
        (Inl e, s) \<Rightarrow> (Inl (SpoofStoreError e), s)
      | (Inr groups, s) \<Rightarrow> (Inr (active_spoofs groups), s))"

definition spoof_Key :: "Spoof \<Rightarrow> string" where
  "spoof_Key s = sp_FQDN s @ '':'' @ sp_DC s"

definition sort_spoofs :: "Spoof list \<Rightarrow> Spoof list" where
  "sort_spoofs = SortFunc (\<lambda>a b. Compare (spoof_Key a) (spoof_Key b))"

definition spoof_Hash ::
  "(Spoof list \<Rightarrow> string) \<Rightarrow> ('s, GSLBServiceGroup) Store \<Rightarrow> 's \<Rightarrow> (spoof_error + string) \<times> 's" where
  "spoof_Hash digest ops s =
     (case spoof_ReadAll ops s of
        (Inl e, s) \<Rightarrow> (Inl e, s)
      | (Inr data, s) \<Rightarrow> (Inr (digest (sort_spoofs data)), s))"

section \<open>Overrides\<close>

datatype override_error = OverrideRepo repo_error | AlreadyOverridden | NotOverridden

record Override =
  ov_MemberOf :: string
  ov_IP :: string

definition newOverride :: "'s MEnv \<Rightarrow> Override \<Rightarrow> 's Manager \<Rightarrow> (override_error + unit) \<times> 's Manager" where
  "newOverride env override m =
     (case on_repo (repo_GetActive (me_ops env) (ov_MemberOf override)) m of
        (Inl e, m) \<Rightarrow> (Inl (OverrideRepo e), m)
      | (Inr exist, m) \<Rightarrow>
          if gs_HasOverride exist then (Inl AlreadyOverridden, m)
          else
            (case on_repo (repo_Update (me_ops env) (exist\<lparr>gs_IP := ov_IP override, gs_HasOverride := True\<rparr>)) m of
               (Inl e, m) \<Rightarrow> (Inl (OverrideRepo e), m)
             | (Inr _, m) \<Rightarrow> (Inr (), m)))"

definition updateOverride :: "'s MEnv \<Rightarrow> Override \<Rightarrow> 's Manager \<Rightarrow> (override_error + unit) \<times> 's Manager" where
  "updateOverride env override m =
     (case on_repo (repo_GetActive (me_ops env) (ov_MemberOf override)) m of
        (Inl e, m) \<Rightarrow> (Inl (OverrideRepo e), m)
      | (Inr active, m) \<Rightarrow>
          if gs_HasOverride active then (Inl AlreadyOverridden, m)
          else
            (case on_repo (repo_UpdateOverride (me_ops env) (ov_IP override) (active\<lparr>gs_IP := ov_IP override\<rparr>)) m of
               (Inl e, m) \<Rightarrow> (Inl (OverrideRepo e), m)
             | (Inr _, m) \<Rightarrow> (Inr (), m)))"

definition restoreActive :: "Override \<Rightarrow> 's Manager \<Rightarrow> GSLBService option res" where
  "restoreActive override m =
     bind (GetActiveForMemberOf (ov_MemberOf override) m)
       (\<lambda>svc. Ok (map_option (\<lambda>r. toGSLBService (m_heap m r)) svc))"

text \<open>\<^verbatim>\<open>Update\<close> dereferences the service it is given.\<close>

definition deleteOverride :: "'s MEnv \<Rightarrow> Override \<Rightarrow> 's Manager \<Rightarrow> ((override_error + unit) \<times> 's Manager) res" where
  "deleteOverride env override m =
     (case on_repo (repo_GetActive (me_ops env) (ov_MemberOf override)) m of
        (Inl e, m) \<Rightarrow> Ok (Inl (OverrideRepo e), m)
      | (Inr exist, m) \<Rightarrow>
          if \<not> gs_HasOverride exist then Ok (Inl NotOverridden, m)
          else
            (case on_repo (repo_RemoveOverrideFlag (me_ops env) (ov_MemberOf override)) m of
               (Inl e, m) \<Rightarrow> Ok (Inl (OverrideRepo e), m)
             | (Inr _, m) \<Rightarrow>
                 bind (restoreActive override m) (\<lambda>active.
                 bind (deref active) (\<lambda>active.
                   case on_repo (repo_Update (me_ops env) active) m of
                     (Inl e, m) \<Rightarrow> Ok (Inl (OverrideRepo e), m)
                   | (Inr _, m) \<Rightarrow> Ok (Inr (), m)))))"

section \<open>Request handlers\<close>

text \<open>
  The handlers look for \<^verbatim>\<open>ErrSpoofInServiceGroupNotFound\<close> in the errors of the override operations,
  which wrap errors of the service repository.
\<close>

definition wraps_spoof_not_found :: "override_error \<Rightarrow> bool" where
  "wraps_spoof_not_found e = False"

definition override_status :: "(override_error + unit) \<Rightarrow> nat" where
  "override_status r = (case r of Inl e \<Rightarrow> (if wraps_spoof_not_found e then 404 else 400) | Inr _ \<Rightarrow> 201)"

definition CreateOverride :: "'s MEnv \<Rightarrow> Override option \<Rightarrow> 's Manager \<Rightarrow> nat \<times> 's Manager" where
  "CreateOverride env body m =
     (case body of
        None \<Rightarrow> (400, m)
      | Some override \<Rightarrow> (let (r, m) = newOverride env override m in (override_status r, m)))"

definition UpdateOverride :: "'s MEnv \<Rightarrow> Override option \<Rightarrow> 's Manager \<Rightarrow> nat \<times> 's Manager" where
  "UpdateOverride env body m =
     (case body of
        None \<Rightarrow> (400, m)
      | Some override \<Rightarrow> (let (r, m) = updateOverride env override m in (override_status r, m)))"

definition DeleteOverride :: "'s MEnv \<Rightarrow> Override option \<Rightarrow> 's Manager \<Rightarrow> (nat \<times> 's Manager) res" where
  "DeleteOverride env body m =
     (case body of
        None \<Rightarrow> Ok (400, m)
      | Some override \<Rightarrow>
          bind (deleteOverride env override m)
            (\<lambda>(r, m). Ok (case r of Inl e \<Rightarrow> 400 | Inr _ \<Rightarrow> 204, m)))"

definition GetOverride :: "'s MEnv \<Rightarrow> string \<Rightarrow> 's Manager \<Rightarrow> (nat \<times> GSLBService option) \<times> 's Manager" where
  "GetOverride env memberOf m =
     (if memberOf = [] then ((400, None), m)
      else
        case on_repo (repo_GetActive (me_ops env) memberOf) m of
          (Inl e, m) \<Rightarrow> ((500, None), m)
        | (Inr exist, m) \<Rightarrow> if \<not> gs_HasOverride exist then ((404, None), m) else ((200, Some exist), m))"

definition GetFQDNSpoof :: "'s MEnv \<Rightarrow> string \<Rightarrow> 's Manager \<Rightarrow> (nat \<times> Spoof option) \<times> 's Manager" where
  "GetFQDNSpoof env fqdn m =
     (if fqdn = [] then ((400, None), m)
      else
        let (r, s) = spoof_Read (me_ops env) fqdn (m_store m); m = m\<lparr>m_store := s\<rparr>
        in (case r of Inl e \<Rightarrow> ((500, None), m) | Inr spoof \<Rightarrow> ((200, Some spoof), m)))"

definition GetSpoofsHash ::
  "(Spoof list \<Rightarrow> string) \<Rightarrow> 's MEnv \<Rightarrow> 's Manager \<Rightarrow> (nat \<times> string option) \<times> 's Manager" where
  "GetSpoofsHash digest env m =
     (let (r, s) = spoof_ReadAll (me_ops env) (m_store m); m = m\<lparr>m_store := s\<rparr>
      in (case r of
            Inl e \<Rightarrow> ((500, None), m)
          | Inr data \<Rightarrow>
              ((200, Some (digest (SortFunc (\<lambda>a b. Compare (sp_FQDN a) (sp_FQDN b)) data))), m)))"

text \<open>
  \<^verbatim>\<open>NewSpoofResponse\<close> writes through the nil pointers \<^verbatim>\<open>Next\<close> and \<^verbatim>\<open>Previous\<close>. A page size of
  zero, which the query may set, divides by zero.
\<close>

record PaginationParams =
  pp_Page :: int
  pp_PageSize :: int

definition NewPaginationParams :: PaginationParams where
  "NewPaginationParams = \<lparr>pp_Page = 1, pp_PageSize = 50\<rparr>"

record SpoofResponse =
  sr_TotalItems :: int
  sr_NumPages :: int
  sr_Page :: int
  sr_Items :: "Spoof list"

definition NewSpoofResponse :: "Spoof list \<Rightarrow> PaginationParams \<Rightarrow> SpoofResponse res" where
  "NewSpoofResponse items params =
     (if pp_PageSize params = 0 then Panic DivideByZero
      else
        let numPages = quot (int (length items)) (pp_PageSize params) + 1;
            resp = \<lparr>sr_TotalItems = int (length items), sr_NumPages = numPages, sr_Page = pp_Page params,
                    sr_Items = items\<rparr>
        in if pp_Page params < numPages then Panic NilDeref
           else if pp_Page params > 1 then Panic NilDeref
           else Ok resp)"

definition GetSpoofs ::
  "'s MEnv \<Rightarrow> PaginationParams option \<Rightarrow> 's Manager \<Rightarrow> ((nat \<times> SpoofResponse option) \<times> 's Manager) res" where
  "GetSpoofs env query m =
     (let (r, s) = spoof_ReadAll (me_ops env) (m_store m); m = m\<lparr>m_store := s\<rparr>
      in (case r of
            Inl e \<Rightarrow> Ok ((500, None), m)
          | Inr data \<Rightarrow>
              (case query of
                 None \<Rightarrow> Ok ((400, None), m)
               | Some params \<Rightarrow> bind (NewSpoofResponse data params) (\<lambda>resp. Ok ((200, Some resp), m)))))"

section \<open>Properties\<close>

lemma on_repo_yields:
  assumes "yields ok repr r (m_store m) x a"
  shows "\<exists>s. on_repo r m = (x, m\<lparr>m_store := s\<rparr>) \<and> ok s \<and> repr s = a"
  using assms by (auto simp: on_repo_eq yields_def)

text \<open>Loading a group of a usable file.\<close>

lemma file_load:
  assumes "file_inv s"
  obtains s' where "st_Load (file_ops []) k s = (Inr (group_in (file_map s) k), s')" "file_inv s'" "file_map s' = file_map s"
  using file_groups.Read_yields[OF assms, of k]
  by (auto simp: yields_def repo_Read_def split: sum.splits prod.splits)

lemma spoof_Read_file:
  assumes "file_inv s"
  shows "fst (spoof_Read (file_ops []) k s) =
    Inr (case find gs_IsActive (group_in (file_map s) k) of None \<Rightarrow> no_spoof | Some svc \<Rightarrow> toSpoof svc)"
  using file_load[OF assms, of k] by (fastforce simp: spoof_Read_def split: option.splits)

lemma update_unique:
  assumes "distinct (map gs_ID g)" "IndexFunc (\<lambda>x. gs_ID x = sid) g = Some i" "y \<in> set (g[i := x])"
  shows "y = x \<or> y \<in> set g \<and> gs_ID y \<noteq> sid"
proof -
  obtain j where j: "j < length g" "y = g[i := x] ! j" using assms(3) by (auto simp: in_set_conv_nth)
  have i: "i < length g" "gs_ID (g ! i) = sid" using assms(2) by (auto simp: IndexFunc_Some)
  show ?thesis
  proof (cases "j = i")
    case False
    then have "gs_ID (g ! j) \<noteq> sid"
      using assms(1) i j(1) nth_eq_iff_index_eq[OF assms(1), of i j] by auto
    then show ?thesis using j False by simp
  qed (use i j in simp)
qed

lemma unique_id: "distinct (map gs_ID g) \<Longrightarrow> x \<in> set g \<Longrightarrow> y \<in> set g \<Longrightarrow> gs_ID x = gs_ID y \<Longrightarrow> x = y"
  by (auto simp: distinct_map inj_on_def)

lemma index_of_member:
  assumes "a \<in> set g"
  obtains i where "IndexFunc (\<lambda>x. gs_ID x = gs_ID a) g = Some i" "i < length g" "gs_ID (g ! i) = gs_ID a"
  using assms by (cases "IndexFunc (\<lambda>x. gs_ID x = gs_ID a) g") (auto simp: IndexFunc_None IndexFunc_Some)

text \<open>What storing a new override leaves in the store.\<close>

lemma CreateOverride_stores:
  assumes "me_ops env = file_ops []" "file_inv (m_store m)"
    and "find gs_IsActive (group_in (file_map (m_store m)) k) = Some a" "\<not> gs_HasOverride a" "gs_MemberOf a = k"
  obtains s i where "CreateOverride env (Some \<lparr>ov_MemberOf = k, ov_IP = ip\<rparr>) m = (201, m\<lparr>m_store := s\<rparr>)"
    "file_inv s" "IndexFunc (\<lambda>x. gs_ID x = gs_ID a) (group_in (file_map (m_store m)) k) = Some i"
    "file_map s = (file_map (m_store m))(k \<mapsto>
       (group_in (file_map (m_store m)) k)[i := a\<lparr>gs_IP := ip, gs_HasOverride := True\<rparr>])"
proof -
  let ?g = "group_in (file_map (m_store m)) k" and ?a = "a\<lparr>gs_IP := ip, gs_HasOverride := True\<rparr>"
  have a: "a \<in> set ?g" "gs_IsActive a" using assms(3) by (auto simp: find_Some_iff)
  obtain i where i: "IndexFunc (\<lambda>x. gs_ID x = gs_ID a) ?g = Some i"
    using index_of_member[OF a(1)] by metis
  obtain s1 where s1: "on_repo (repo_GetActive (file_ops []) k) m = (Inr a, m\<lparr>m_store := s1\<rparr>)" "file_inv s1"
      "file_map s1 = file_map (m_store m)"
    using on_repo_yields[OF file_groups.GetActive_yields[OF assms(2), of k]] assms(3) by auto
  have noov: "\<not> override_in (file_map s1) k" using assms(3,4) s1(3) by (simp add: override_in_def)
  have "yields file_inv file_map (repo_Update (file_ops []) ?a) s1 (Inr ())
      ((file_map s1)(k \<mapsto> ?g[i := ?a]))"
    using file_groups.Update_yields[OF s1(2), of ?a] i noov assms(5) s1(3) by (simp add: updated_member_def)
  then obtain s2 where s2: "on_repo (repo_Update (file_ops []) ?a) (m\<lparr>m_store := s1\<rparr>) = (Inr (), m\<lparr>m_store := s2\<rparr>)"
      "file_inv s2" "file_map s2 = (file_map s1)(k \<mapsto> ?g[i := ?a])"
    using on_repo_yields[of file_inv file_map _ "m\<lparr>m_store := s1\<rparr>"] by fastforce
  have "CreateOverride env (Some \<lparr>ov_MemberOf = k, ov_IP = ip\<rparr>) m = (201, m\<lparr>m_store := s2\<rparr>)"
    using s1(1) s2(1) assms(1,4) by (simp add: CreateOverride_def newOverride_def override_status_def)
  then show ?thesis using that s2(2,3) i s1(3) by simp
qed

text \<open>
  A new override on a group with an active service and no override is answered with 201, and
  from then on the API serves the overriding address and shows the override; but the manager makes
  no DNS call for it.
\<close>

theorem override_is_served:
  assumes "me_ops env = file_ops []" "file_inv (m_store m)" "k \<noteq> []"
    and "find gs_IsActive (group_in (file_map (m_store m)) k) = Some a" "\<not> gs_HasOverride a"
    and "gs_MemberOf a = k" "distinct (map gs_ID (group_in (file_map (m_store m)) k))"
    and "\<forall>x \<in> set (group_in (file_map (m_store m)) k). gs_IsActive x \<longrightarrow> x = a"
  shows "\<exists>m'. CreateOverride env (Some \<lparr>ov_MemberOf = k, ov_IP = ip\<rparr>) m = (201, m') \<and> m_dns m' = m_dns m \<and>
    file_inv (m_store m') \<and>
    fst (GetFQDNSpoof env k m') = (200, Some (toSpoof (a\<lparr>gs_IP := ip\<rparr>))) \<and>
    fst (GetOverride env k m') = (200, Some (a\<lparr>gs_IP := ip, gs_HasOverride := True\<rparr>))"
proof -
  let ?g = "group_in (file_map (m_store m)) k" and ?a = "a\<lparr>gs_IP := ip, gs_HasOverride := True\<rparr>"
  obtain s2 i where s2: "CreateOverride env (Some \<lparr>ov_MemberOf = k, ov_IP = ip\<rparr>) m = (201, m\<lparr>m_store := s2\<rparr>)"
    "file_inv s2" "IndexFunc (\<lambda>x. gs_ID x = gs_ID a) ?g = Some i" "group_in (file_map s2) k = ?g[i := ?a]"
    by (rule CreateOverride_stores[OF assms(1,2,4,5,6)]) fastforce
  have act: "find gs_IsActive (?g[i := ?a]) = Some ?a"
  proof -
    have "gs_IsActive a" "i < length ?g" using assms(4) s2(3) by (auto simp: find_Some_iff IndexFunc_Some)
    then have "find gs_IsActive (?g[i := ?a]) \<noteq> None"
      by (auto simp: find_None_iff intro: set_update_memI)
    then obtain y where y: "find gs_IsActive (?g[i := ?a]) = Some y" by blast
    then have "y \<in> set (?g[i := ?a])" "gs_IsActive y" by (auto simp: find_Some_iff)
    then show ?thesis using y update_unique[OF assms(7) s2(3), of y ?a] assms(8) by auto
  qed
  obtain s3 where s3: "on_repo (repo_GetActive (file_ops []) k) (m\<lparr>m_store := s2\<rparr>) = (Inr ?a, m\<lparr>m_store := s3\<rparr>)"
    using on_repo_yields[OF file_groups.GetActive_yields[of "m_store (m\<lparr>m_store := s2\<rparr>)" k]] s2 act by fastforce
  have "fst (GetOverride env k (m\<lparr>m_store := s2\<rparr>)) = (200, Some ?a)"
    using s3 assms(1,3) by (simp add: GetOverride_def)
  moreover have "fst (GetFQDNSpoof env k (m\<lparr>m_store := s2\<rparr>)) = (200, Some (toSpoof ?a))"
    using spoof_Read_file[OF s2(2), of k] s2(4) act assms(1,3)
    by (auto simp: GetFQDNSpoof_def split: prod.splits)
  moreover have "toSpoof ?a = toSpoof (a\<lparr>gs_IP := ip\<rparr>)" by (simp add: toSpoof_def)
  ultimately show ?thesis using s2(1,2) by auto
qed

theorem override_is_served_witness:
  "\<exists>m'. CreateOverride demo_menv (Some \<lparr>ov_MemberOf = ''example'', ov_IP = ''9.9.9.9''\<rparr>) demo_manager = (201, m') \<and>
     m_dns m' = [] \<and>
     fst (GetFQDNSpoof demo_menv ''example'' m') =
       (200, Some \<lparr>sp_FQDN = ''example'', sp_IP = ''9.9.9.9'', sp_DC = ''DC1''\<rparr>)"
  using override_is_served[of demo_menv demo_manager "''example''" "(toGSLBService (queue_services 0))\<lparr>gs_IsActive := True\<rparr>" "''9.9.9.9''"]
    demo_store
  by (auto simp: demo_menv_def demo_group_def toGSLBService_def queue_services_def blank_service_def toSpoof_def)
    (simp add: demo_manager_def)

text \<open>What the store holds once the flags of a group are removed.\<close>

definition unflag :: "GSLBService \<Rightarrow> GSLBService" where
  "unflag x = x\<lparr>gs_HasOverride := False\<rparr>"

lemma unflag_simps [simp]:
  "gs_ID (unflag x) = gs_ID x" "gs_IsActive (unflag x) = gs_IsActive x" "\<not> gs_HasOverride (unflag x)"
  by (simp_all add: unflag_def)

lemma IndexFunc_map_unflag: "IndexFunc (\<lambda>x. gs_ID x = sid) (map unflag g) = IndexFunc (\<lambda>x. gs_ID x = sid) g"
  by (induction g) (auto split: option.splits)

lemma restoreActive_store [simp]:
  "restoreActive override (m\<lparr>m_store := s\<rparr>) = restoreActive override m"
  by (cases "mget (m_groups m) (ov_MemberOf override)")
    (simp_all add: restoreActive_def GetActiveForMemberOf_def m_rlock_def)

lemma restoreActive_eq:
  "GetActiveForMemberOf (ov_MemberOf override) m = Ok r \<Longrightarrow>
    restoreActive override m = Ok (map_option (\<lambda>r. toGSLBService (m_heap m r)) r)"
  by (simp add: restoreActive_def)

text \<open>A deletion up to the point where the code asks the manager for the active service.\<close>

lemma deleteOverride_prefix:
  assumes "me_ops env = file_ops []" "file_inv (m_store m)"
    and "find gs_IsActive (group_in (file_map (m_store m)) k) = Some a" "gs_HasOverride a"
  obtains s where "deleteOverride env \<lparr>ov_MemberOf = k, ov_IP = ip\<rparr> m =
      bind (restoreActive \<lparr>ov_MemberOf = k, ov_IP = ip\<rparr> (m\<lparr>m_store := s\<rparr>)) (\<lambda>active.
        bind (deref active) (\<lambda>active.
          case on_repo (repo_Update (me_ops env) active) (m\<lparr>m_store := s\<rparr>) of
            (Inl e, m) \<Rightarrow> Ok (Inl (OverrideRepo e), m)
          | (Inr _, m) \<Rightarrow> Ok (Inr (), m)))"
    "file_inv s" "group_in (file_map s) k = map unflag (group_in (file_map (m_store m)) k)"
proof -
  obtain s1 where s1: "on_repo (repo_GetActive (file_ops []) k) m = (Inr a, m\<lparr>m_store := s1\<rparr>)" "file_inv s1"
      "file_map s1 = file_map (m_store m)"
    using on_repo_yields[OF file_groups.GetActive_yields[OF assms(2), of k]] assms(3) by auto
  obtain s2 where s2: "on_repo (repo_RemoveOverrideFlag (file_ops []) k) (m\<lparr>m_store := s1\<rparr>) = (Inr (), m\<lparr>m_store := s2\<rparr>)"
      "file_inv s2" "group_in (file_map s2) k = map unflag (group_in (file_map (m_store m)) k)"
    using on_repo_yields[OF file_groups.RemoveOverrideFlag_yields[of "m_store (m\<lparr>m_store := s1\<rparr>)" k]] s1(2,3)
    by (auto simp: unflag_def)
  show ?thesis
    using s1(1) s2(1) assms(1,4) by (intro that[OF _ s2(2,3)]) (simp add: deleteOverride_def)
qed

text \<open>
  Deleting an override is answered with 204 and restores the address of the active service,
  clearing the flag, but also its active flag: the group then has no spoof at all, in the API and in
  what DNS is synchronised with, although its active service is up.
\<close>

theorem delete_override_loses_active:
  assumes "me_ops env = file_ops []" "file_inv (m_store m)" "k \<noteq> []"
    and "find gs_IsActive (group_in (file_map (m_store m)) k) = Some a" "gs_HasOverride a"
    and "distinct (map gs_ID (group_in (file_map (m_store m)) k))"
    and "\<forall>x \<in> set (group_in (file_map (m_store m)) k). gs_IsActive x \<longrightarrow> x = a"
    and "GetActiveForMemberOf k m = Ok (Some r)" "svc_id (m_heap m r) = gs_ID a" "svc_MemberOf (m_heap m r) = k"
  shows "\<exists>m'. DeleteOverride env (Some \<lparr>ov_MemberOf = k, ov_IP = ip\<rparr>) m = Ok (204, m') \<and> m_dns m' = m_dns m \<and>
    member_in (file_map (m_store m')) k (gs_ID a) = Some (toGSLBService (m_heap m r)) \<and>
    fst (GetFQDNSpoof env k m') = (200, Some no_spoof)"
proof -
  let ?g = "group_in (file_map (m_store m)) k" and ?new = "toGSLBService (m_heap m r)"
  obtain s where run: "deleteOverride env \<lparr>ov_MemberOf = k, ov_IP = ip\<rparr> m =
      bind (restoreActive \<lparr>ov_MemberOf = k, ov_IP = ip\<rparr> (m\<lparr>m_store := s\<rparr>)) (\<lambda>active.
        bind (deref active) (\<lambda>active.
          case on_repo (repo_Update (me_ops env) active) (m\<lparr>m_store := s\<rparr>) of
            (Inl e, m) \<Rightarrow> Ok (Inl (OverrideRepo e), m)
          | (Inr _, m) \<Rightarrow> Ok (Inr (), m)))"
    and s: "file_inv s" "group_in (file_map s) k = map unflag ?g"
    by (rule deleteOverride_prefix[OF assms(1,2,4,5)])
  have a: "a \<in> set ?g" using assms(4) by (auto simp: find_Some_iff)
  have new: "gs_ID ?new = gs_ID a" "gs_MemberOf ?new = k" "\<not> gs_IsActive ?new"
    using assms(9,10) by (simp_all add: toGSLBService_def)
  obtain i where i: "IndexFunc (\<lambda>x. gs_ID x = gs_ID a) ?g = Some i" using index_of_member[OF a] by metis
  have noov: "\<not> override_in (file_map s) k"
    using s(2) by (auto simp: override_in_def find_Some_iff split: option.splits)
  have "yields file_inv file_map (repo_Update (file_ops []) ?new) s (Inr ())
      ((file_map s)(k \<mapsto> (map unflag ?g)[i := ?new]))"
    using file_groups.Update_yields[OF s(1), of ?new] i noov new s(2)
    by (simp add: IndexFunc_map_unflag updated_member_def)
  then obtain s2 where s2: "on_repo (repo_Update (file_ops []) ?new) (m\<lparr>m_store := s\<rparr>) = (Inr (), m\<lparr>m_store := s2\<rparr>)"
      "file_inv s2" "file_map s2 = (file_map s)(k \<mapsto> (map unflag ?g)[i := ?new])"
    using on_repo_yields[of file_inv file_map _ "m\<lparr>m_store := s\<rparr>"] by fastforce
  have "\<not> gs_IsActive y" if "y \<in> set ((map unflag ?g)[i := ?new])" for y
    using update_unique[of "map unflag ?g" "gs_ID a" i y ?new] that assms(6,7) i new(3)
    by (auto simp: IndexFunc_map_unflag comp_def)
  then have none: "find gs_IsActive (group_in (file_map s2) k) = None"
    using s2(3) by (simp add: find_None_iff)
  have "DeleteOverride env (Some \<lparr>ov_MemberOf = k, ov_IP = ip\<rparr>) m = Ok (204, m\<lparr>m_store := s2\<rparr>)"
    using run s2(1) assms(1,8) by (simp add: DeleteOverride_def restoreActive_eq deref_def)
  moreover have "member_in (file_map s2) k (gs_ID a) = Some ?new"
    using find_update_first[of "\<lambda>x. gs_ID x = gs_ID a" "map unflag ?g" i ?new] i new(1) s2(3)
    by (simp add: member_in_def IndexFunc_map_unflag)
  moreover have "fst (GetFQDNSpoof env k (m\<lparr>m_store := s2\<rparr>)) = (200, Some no_spoof)"
    using spoof_Read_file[OF s2(2), of k] none assms(1,3)
    by (auto simp: GetFQDNSpoof_def split: prod.splits)
  ultimately show ?thesis by auto
qed

definition overridden_manager :: "sref option \<Rightarrow> GSLBServiceGroup FileStore Manager" where
  "overridden_manager act = demo_manager\<lparr>m_store := overridden, m_groups := [(''example'', \<lparr>sg_Name = ''example'',
     sg_mode = ActivePassive, sg_Members = [0, 1], sg_active = act, sg_lastActive = Some 0,
     sg_prioritizedDatacenter = [], sg_mu = False\<rparr>)]\<rparr>"

lemma overridden_manager_simps:
  "m_store (overridden_manager act) = overridden" "m_heap (overridden_manager act) = queue_services"
  "m_dns (overridden_manager act) = []" "GetActiveForMemberOf ''example'' (overridden_manager act) = Ok act"
  by (simp_all add: overridden_manager_def demo_manager_def GetActiveForMemberOf_def m_rlock_def
      GetActive_def sg_rlock_def split: option.splits)

theorem delete_override_loses_active_witness:
  "\<exists>m'. DeleteOverride demo_menv (Some \<lparr>ov_MemberOf = ''example'', ov_IP = []\<rparr>) (overridden_manager (Some 0)) = Ok (204, m') \<and>
     fst (GetFQDNSpoof demo_menv ''example'' m') = (200, Some no_spoof)"
  using delete_override_loses_active[of demo_menv "overridden_manager (Some 0)" "''example''"
      "(stored ''a'')\<lparr>gs_HasOverride := True, gs_IP := ''9.9.9.9''\<rparr>" 0 "[]"] overridden_store
  by (auto simp: overridden_manager_simps demo_menv_def stored_def queue_services_def blank_service_def)

text \<open>
  Deleting the override of a group that has no active service in the manager panics: the service
  to restore is nil, after the flag was already removed.
\<close>

theorem delete_override_of_down_group_panics:
  assumes "me_ops env = file_ops []" "file_inv (m_store m)"
    and "find gs_IsActive (group_in (file_map (m_store m)) k) = Some a" "gs_HasOverride a"
    and "GetActiveForMemberOf k m = Ok None"
  shows "DeleteOverride env (Some \<lparr>ov_MemberOf = k, ov_IP = ip\<rparr>) m = Panic NilDeref"
proof -
  obtain s where run: "deleteOverride env \<lparr>ov_MemberOf = k, ov_IP = ip\<rparr> m =
      bind (restoreActive \<lparr>ov_MemberOf = k, ov_IP = ip\<rparr> (m\<lparr>m_store := s\<rparr>)) (\<lambda>active.
        bind (deref active) (\<lambda>active.
          case on_repo (repo_Update (me_ops env) active) (m\<lparr>m_store := s\<rparr>) of
            (Inl e, m) \<Rightarrow> Ok (Inl (OverrideRepo e), m)
          | (Inr _, m) \<Rightarrow> Ok (Inr (), m)))"
    by (rule deleteOverride_prefix[OF assms(1-4)])
  then show ?thesis
    using assms(5) by (simp add: DeleteOverride_def restoreActive_eq deref_def)
qed

theorem delete_override_of_down_group_panics_witness:
  "DeleteOverride demo_menv (Some \<lparr>ov_MemberOf = ''example'', ov_IP = []\<rparr>) (overridden_manager None) = Panic NilDeref"
  by (rule delete_override_of_down_group_panics[of _ _ _ "(stored ''a'')\<lparr>gs_HasOverride := True, gs_IP := ''9.9.9.9''\<rparr>"])
    (use overridden_store in \<open>simp_all add: overridden_manager_simps demo_menv_def stored_def\<close>)

text \<open>
  The listing of spoofs with the default page answers 200 exactly while fewer than fifty
  services are active; from fifty on it panics.
\<close>

theorem spoof_listing_panics_from_50:
  assumes "me_ops env = file_ops []" "file_inv (m_store m)"
  shows "\<exists>data. fst (spoof_ReadAll (file_ops []) (m_store m)) = Inr data \<and>
    (if length data < 50
     then \<exists>resp m'. GetSpoofs env (Some NewPaginationParams) m = Ok ((200, Some resp), m') \<and> sr_Items resp = data
     else GetSpoofs env (Some NewPaginationParams) m = Panic NilDeref)"
proof -
  obtain groups s' where g: "st_LoadAll (file_ops []) (m_store m) = (Inr groups, s')"
    using fstore.LoadAll_ok[OF assms(2), of "[]"] by (cases "st_LoadAll (file_ops []) (m_store m)") auto
  then have all: "spoof_ReadAll (file_ops []) (m_store m) = (Inr (active_spoofs groups), s')"
    by (simp add: spoof_ReadAll_def)
  let ?n = "int (length (active_spoofs groups))"
  have "1 < quot ?n 50 + 1 \<longleftrightarrow> 50 \<le> length (active_spoofs groups)" by simp linarith
  then show ?thesis
    using all assms(1) by (auto simp: GetSpoofs_def NewSpoofResponse_def NewPaginationParams_def)
qed

theorem spoof_listing_panics_from_50_witness:
  "\<exists>data. fst (spoof_ReadAll (file_ops []) (m_store demo_manager)) = Inr data"
  using spoof_listing_panics_from_50[of demo_menv demo_manager] demo_store(1) by (auto simp: demo_menv_def)

end
