(* ===== verification/DnsHandler.thy ===== *)
theory DnsHandler
  imports ManagerFrame Spoofs
begin

text \<open>
  \<^verbatim>\<open>internal/dns/handler.go\<close> and \<^verbatim>\<open>zone-fetcher.go\<close>: the zone that configures the operator. A transferred
  zone is a list of resource records (of a third-party package: only TXT records and their strings are
  looked at); JSON decoding of a record into a configuration with defaults is the parameter \<open>decode\<close>.
\<close>

section \<open>Fetching the zone\<close>

datatype RR = TXT string "string list" | OtherRR

text \<open>
  What \<^verbatim>\<open>AXFRTransfer\<close> waits for next: an envelope of the transfer with its records, an envelope with an
  error, the end of the transfer, the cancellation of the context, or nothing for the timeout. A
  transfer that could not be started reports its error and then waits on a nil channel, so that only
  the last two can happen.
\<close>

datatype transfer_event = Envelope "RR list" | EnvelopeError | TransferDone | CtxDone | TimedOut

text \<open>Whether the consumer takes the records, the context ends or the timeout passes first.\<close>

datatype publish_event = Taken | PublishCtxDone | PublishTimedOut

record transfer_result =
  tr_published :: "RR list option"
  tr_errors :: nat

fun transfer_loop :: "publish_event \<Rightarrow> transfer_event list \<Rightarrow> RR list \<Rightarrow> nat \<Rightarrow> transfer_result option" where
  "transfer_loop pub [] records errs = None"
| "transfer_loop pub (CtxDone # evs) records errs = Some \<lparr>tr_published = None, tr_errors = errs\<rparr>"
| "transfer_loop pub (TransferDone # evs) records errs =
     Some \<lparr>tr_published = (if pub = Taken then Some records else None), tr_errors = errs\<rparr>"
| "transfer_loop pub (EnvelopeError # evs) records errs = Some \<lparr>tr_published = None, tr_errors = Suc errs\<rparr>"
| "transfer_loop pub (Envelope answer # evs) records errs = transfer_loop pub evs (records @ answer) errs"
| "transfer_loop pub (TimedOut # evs) records errs = Some \<lparr>tr_published = None, tr_errors = errs\<rparr>"

definition AXFRTransfer :: "bool \<Rightarrow> bool \<Rightarrow> publish_event \<Rightarrow> transfer_event list \<Rightarrow> transfer_result option" where
  "AXFRTransfer cancelled started pub evs =
     (if cancelled then Some \<lparr>tr_published = None, tr_errors = 0\<rparr>
      else if started then transfer_loop pub evs [] 0
      else transfer_loop pub (filter (\<lambda>e. e = CtxDone \<or> e = TimedOut) evs) [] 1)"

lemma transfer_loop_published:
  "transfer_loop pub evs records errs = Some r \<Longrightarrow> tr_published r = Some zone \<Longrightarrow>
    \<exists>answers rest. evs = map Envelope answers @ TransferDone # rest \<and> zone = records @ concat answers"
proof (induction pub evs records errs rule: transfer_loop.induct)
  case (5 pub answer evs records errs)
  then obtain answers rest where "evs = map Envelope answers @ TransferDone # rest" "zone = (records @ answer) @ concat answers"
    by auto
  then show ?case by (intro exI[of _ "answer # answers"] exI[of _ rest]) simp
qed (auto split: if_splits intro: exI[of _ "[]"])

lemma unstarted_transfer:
  "transfer_loop pub (filter (\<lambda>e. e = CtxDone \<or> e = TimedOut) evs) records errs = Some r \<Longrightarrow> tr_published r = None"
  by (induction evs) (auto split: if_splits)

section \<open>Handling a zone\<close>

record Handler =
  h_known :: "string list"
  h_running :: bool

definition DEFAULT_FAILURE_THRESHOLD :: int where "DEFAULT_FAILURE_THRESHOLD = 3"

text \<open>The configuration a record starts from, and the JSON text in it.\<close>

definition default_config :: "string \<Rightarrow> GSLBConfig" where
  "default_config name = \<lparr>cfg_ServiceID = [], cfg_Fqdn = [], cfg_MemberOf = name, cfg_Ip = [], cfg_Port = [],
     cfg_Datacenter = [], cfg_Interval = 0, cfg_Priority = 0, cfg_FailureThreshold = DEFAULT_FAILURE_THRESHOLD,
     cfg_CheckType = [], cfg_Script = []\<rparr>"

definition unescape :: "string \<Rightarrow> string" where
  "unescape = filter (\<lambda>c. c \<noteq> CHR 0x5C)"

type_synonym decoder = "string \<Rightarrow> GSLBConfig \<Rightarrow> GSLBConfig option"

text \<open>A TXT record without strings is indexed out of range.\<close>

definition handleRecord :: "'s MEnv \<Rightarrow> decoder \<Rightarrow> RR \<Rightarrow> 's Manager \<Rightarrow> (sref option \<times> 's Manager) res" where
  "handleRecord env decode record m =
     (case record of
        OtherRR \<Rightarrow> Ok (None, m)
      | TXT name [] \<Rightarrow> Panic IndexOutOfRange
      | TXT name (rawData # _) \<Rightarrow>
          (case decode (unescape rawData) (default_config name) of
             None \<Rightarrow> Ok (None, m)
           | Some svcConfig \<Rightarrow>
               bind (RegisterService env svcConfig m) (\<lambda>(r, m).
                 case r of Inl e \<Rightarrow> Ok (None, m) | Inr svc \<Rightarrow> Ok (Some svc, m))))"

fun register_batch ::
  "'s MEnv \<Rightarrow> decoder \<Rightarrow> RR list \<Rightarrow> string list \<Rightarrow> 's Manager \<Rightarrow> (string list \<times> 's Manager) res" where
  "register_batch env decode [] batch m = Ok (batch, m)"
| "register_batch env decode (record # records) batch m =
     bind (handleRecord env decode record m) (\<lambda>(svc, m).
       register_batch env decode records
         (case svc of None \<Rightarrow> batch | Some svc \<Rightarrow> List.insert (svc_id (m_heap m svc)) batch) m)"

fun remove_missing :: "'s MEnv \<Rightarrow> string list \<Rightarrow> string list \<Rightarrow> 's Manager \<Rightarrow> 's Manager res" where
  "remove_missing env batch [] m = Ok m"
| "remove_missing env batch (key # keys) m =
     (if key \<in> set batch then remove_missing env batch keys m
      else bind (RemoveService env key m) (\<lambda>(e, m). remove_missing env batch keys m))"

text \<open>What the loop selects: a batch, the end of a channel, an error of the fetcher, or the stop signal.\<close>

datatype zone_event = Records "RR list" | ZoneClosed | PollError | ErrorsClosed | StopSignal

definition handleZoneUpdates ::
  "'s MEnv \<Rightarrow> decoder \<Rightarrow> zone_event \<Rightarrow> Handler \<Rightarrow> 's Manager \<Rightarrow> (Handler \<times> 's Manager) res" where
  "handleZoneUpdates env decode ev h m =
     (if \<not> h_running h then Ok (h, m)
      else case ev of
        Records records \<Rightarrow>
          bind (register_batch env decode records [] m) (\<lambda>(servicesInBatch, m).
          bind (remove_missing env servicesInBatch (h_known h) m) (\<lambda>m.
            Ok (h\<lparr>h_known := servicesInBatch\<rparr>, m)))
      | PollError \<Rightarrow> Ok (h, m)
      | _ \<Rightarrow> Ok (h\<lparr>h_running := False\<rparr>, m))"

definition NewHandler :: Handler where
  "NewHandler = \<lparr>h_known = [], h_running = True\<rparr>"

text \<open>The manager with the callback that \<^verbatim>\<open>Start\<close> of the handler gives it.\<close>

definition start_manager :: "'s Manager \<Rightarrow> 's Manager" where
  "start_manager m = m\<lparr>m_DNSUpdate := True\<rparr>"

text \<open>The operator at work: zone updates and finished health checks in any order.\<close>

datatype operator_event = Zone zone_event | CheckDone sref bool

fun operator_run ::
  "'s MEnv \<Rightarrow> decoder \<Rightarrow> operator_event list \<Rightarrow> Handler \<Rightarrow> 's Manager \<Rightarrow> (Handler \<times> 's Manager) res" where
  "operator_run env decode [] h m = Ok (h, m)"
| "operator_run env decode (Zone ev # evs) h m =
     bind (handleZoneUpdates env decode ev h m) (\<lambda>(h, m). operator_run env decode evs h m)"
| "operator_run env decode (CheckDone svc ok # evs) h m =
     bind (checkDone env svc ok m) (\<lambda>m. operator_run env decode evs h m)"

section \<open>Properties\<close>

text \<open>The configurations a zone holds.\<close>

fun record_config :: "decoder \<Rightarrow> RR \<Rightarrow> GSLBConfig option" where
  "record_config decode (TXT name (raw # _)) = decode (unescape raw) (default_config name)"
| "record_config decode r = None"

definition zone_ids :: "decoder \<Rightarrow> RR list \<Rightarrow> string set" where
  "zone_ids decode rs = {cfg_ServiceID cfg | cfg. Some cfg \<in> record_config decode ` set rs}"

lemma handleRecord_registers:
  assumes "handleRecord env decode r m = Ok (svc, m')" "record_config decode r = Some cfg"
  obtains res where "RegisterService env cfg m = Ok (res, m')" "svc = (case res of Inl e \<Rightarrow> None | Inr s \<Rightarrow> Some s)"
proof -
  obtain name raw rest where "r = TXT name (raw # rest)" "decode (unescape raw) (default_config name) = Some cfg"
    using assms(2) by (cases "(decode, r)" rule: record_config.cases) auto
  then have "bind (RegisterService env cfg m) (\<lambda>(r, m). case r of Inl e \<Rightarrow> Ok (None, m) | Inr svc \<Rightarrow> Ok (Some svc, m)) = Ok (svc, m')"
    using assms(1) by (simp add: handleRecord_def)
  then obtain res m2 where "RegisterService env cfg m = Ok (res, m2)"
    "(case res of Inl e \<Rightarrow> Ok (None, m2) | Inr svc \<Rightarrow> Ok (Some svc, m2)) = Ok (svc, m')"
    unfolding bind_eq_Ok split_paired_Ex prod.case by blast
  then show ?thesis using that[of res] by (cases res) auto
qed

lemma handleRecord_schedule:
  assumes "handleRecord env decode r m = Ok (svc, m')" "schedule_ok m"
  shows "schedule_ok m' \<and> (case svc of
      None \<Rightarrow> scheduled_ids m' = scheduled_ids m
    | Some svc \<Rightarrow> scheduled_ids m' = insert (svc_id (m_heap m' svc)) (scheduled_ids m) \<and>
        svc_id (m_heap m' svc) \<in> zone_ids decode [r])"
proof (cases "record_config decode r")
  case None
  then have "svc = None" "m' = m"
    using assms(1) by (auto simp: handleRecord_def split: RR.splits list.splits option.splits)
  then show ?thesis using assms(2) by simp
next
  case (Some cfg)
  obtain res where res: "RegisterService env cfg m = Ok (res, m')" "svc = (case res of Inl e \<Rightarrow> None | Inr s \<Rightarrow> Some s)"
    by (rule handleRecord_registers[OF assms(1) Some])
  then show ?thesis
    using RegisterService_schedule[OF res(1) assms(2)] Some by (cases res) (auto simp: zone_ids_def)
qed

lemma zone_ids_Cons: "zone_ids decode (r # rs) = zone_ids decode [r] \<union> zone_ids decode rs"
  by (auto simp: zone_ids_def)

lemma register_batch_schedule:
  "register_batch env decode rs batch m = Ok (batch', m') \<Longrightarrow> schedule_ok m \<Longrightarrow>
    schedule_ok m' \<and> scheduled_ids m \<subseteq> scheduled_ids m' \<and> set batch \<subseteq> set batch' \<and>
    set batch' \<subseteq> set batch \<union> zone_ids decode rs \<and>
    scheduled_ids m' \<union> set batch = scheduled_ids m \<union> set batch'"
proof (induction rs arbitrary: batch m)
  case (Cons r rs)
  obtain svc m1 where r: "handleRecord env decode r m = Ok (svc, m1)"
    and rs: "register_batch env decode rs
      (case svc of None \<Rightarrow> batch | Some svc \<Rightarrow> List.insert (svc_id (m_heap m1 svc)) batch) m1 = Ok (batch', m')"
    using Cons.prems(1) unfolding register_batch.simps bind_eq_Ok split_paired_Ex prod.case by blast
  note m1 = handleRecord_schedule[OF r Cons.prems(2)]
  have "schedule_ok m1" using m1 by blast
  note IH = Cons.IH[OF rs this]
  show ?case
  proof (cases svc)
    case None
    then show ?thesis using m1 IH by (auto simp: zone_ids_Cons[of decode r rs])
  next
    case (Some x)
    then show ?thesis using m1 IH unfolding zone_ids_Cons[of decode r rs] by (simp only: option.case set_insert) blast
  qed
qed simp

lemma remove_missing_schedule:
  "remove_missing env batch keys m = Ok m' \<Longrightarrow> schedule_ok m \<Longrightarrow>
    schedule_ok m' \<and> scheduled_ids m' = scheduled_ids m - (set keys - set batch)"
proof (induction keys arbitrary: m)
  case (Cons key keys)
  show ?case
  proof (cases "key \<in> set batch")
    case True
    then show ?thesis using Cons by auto
  next
    case False
    then obtain e m1 where m1: "RemoveService env key m = Ok (e, m1)" "remove_missing env batch keys m1 = Ok m'"
      using Cons.prems(1) by (auto simp: bind_eq_Ok)
    then show ?thesis using RemoveService_schedule[OF m1(1) Cons.prems(2)] Cons.IH[OF m1(2)] False by auto
  qed
qed simp

definition in_step :: "Handler \<Rightarrow> 's Manager \<Rightarrow> bool" where
  "in_step h m \<longleftrightarrow> schedule_ok m \<and> scheduled_ids m = set (h_known h)"

lemma handle_batch_in_step:
  assumes "handleZoneUpdates env decode (Records rs) h m = Ok (h', m')" "in_step h m" "h_running h"
  shows "in_step h' m' \<and> set (h_known h') \<subseteq> zone_ids decode rs \<and> h_running h'"
proof -
  obtain batch m1 m2 where b: "register_batch env decode rs [] m = Ok (batch, m1)"
    "remove_missing env batch (h_known h) m1 = Ok m2" "h' = h\<lparr>h_known := batch\<rparr>" "m' = m2"
    using assms(1,3) by (auto simp: handleZoneUpdates_def bind_eq_Ok)
  have reg: "schedule_ok m1" "set batch \<subseteq> zone_ids decode rs" "scheduled_ids m1 = scheduled_ids m \<union> set batch"
    using register_batch_schedule[OF b(1)] assms(2) by (auto simp: in_step_def)
  show ?thesis
    using remove_missing_schedule[OF b(2) reg(1)] reg(2,3) assms(2,3) b(3,4) by (auto simp: in_step_def)
qed

lemma handle_in_step:
  assumes "handleZoneUpdates env decode ev h m = Ok (h', m')" "in_step h m"
  shows "in_step h' m'"
  using assms handle_batch_in_step[of env decode _ h m h' m']
  by (cases ev) (auto simp: handleZoneUpdates_def in_step_def split: if_splits)

text \<open>One event after the other.\<close>

definition operator_event :: "'s MEnv \<Rightarrow> decoder \<Rightarrow> operator_event \<Rightarrow> Handler \<times> 's Manager \<Rightarrow> (Handler \<times> 's Manager) res" where
  "operator_event env decode e = (\<lambda>(h, m).
     case e of Zone ev \<Rightarrow> handleZoneUpdates env decode ev h m
     | CheckDone svc ok \<Rightarrow> bind (checkDone env svc ok m) (\<lambda>m. Ok (h, m)))"

lemma operator_run_Cons:
  "operator_run env decode (e # evs) h m =
    bind (operator_event env decode e (h, m)) (\<lambda>(h, m). operator_run env decode evs h m)"
  by (cases e) (simp_all add: operator_event_def bind_assoc)

lemma operator_run_append:
  "operator_run env decode (evs @ evs') h m =
    bind (operator_run env decode evs h m) (\<lambda>(h, m). operator_run env decode evs' h m)"
proof (induction evs arbitrary: h m)
  case (Cons e evs)
  show ?case
    unfolding append_Cons operator_run_Cons bind_assoc
    by (cases "operator_event env decode e (h, m)") (simp_all add: Cons split: prod.splits)
qed simp

lemma operator_run_invariant:
  assumes "\<And>e h m h' m'. e \<in> set evs \<Longrightarrow> operator_event env decode e (h, m) = Ok (h', m') \<Longrightarrow> I h m \<Longrightarrow> I h' m'"
  shows "operator_run env decode evs h m = Ok (h', m') \<Longrightarrow> I h m \<Longrightarrow> I h' m'"
  using assms
proof (induction evs arbitrary: h m)
  case (Cons e evs)
  obtain h1 m1 where 1: "operator_event env decode e (h, m) = Ok (h1, m1)" "operator_run env decode evs h1 m1 = Ok (h', m')"
    using Cons.prems(1) unfolding operator_run_Cons bind_eq_Ok split_paired_Ex prod.case by blast
  have "I h1 m1" using Cons.prems(3)[OF _ 1(1) Cons.prems(2)] by simp
  from 1(2) this show ?case
  proof (rule Cons.IH)
    fix e' h m h' m'
    assume "e' \<in> set evs" "operator_event env decode e' (h, m) = Ok (h', m')" "I h m"
    then show "I h' m'" using Cons.prems(3)[of e' h m h' m'] by simp
  qed
qed simp

lemma operator_run_in_step:
  assumes "operator_run env decode evs h m = Ok (h', m')" "in_step h m"
  shows "in_step h' m'"
proof (rule operator_run_invariant[of evs env decode in_step, OF _ assms])
  fix e h m h' m'
  assume "operator_event env decode e (h, m) = Ok (h', m')" "in_step h m"
  then show "in_step h' m'"
    using handle_in_step[of env decode _ h m h' m'] checkDone_schedule[of env _ _ m m']
    by (cases e) (auto simp: operator_event_def bind_eq_Ok in_step_def)
qed

lemma operator_run_quiet:
  assumes "operator_run env decode evs h m = Ok (h', m')" "\<forall>rs. Zone (Records rs) \<notin> set evs"
  shows "h_known h' = h_known h \<and> (h_running h' \<longrightarrow> h_running h)"
proof -
  let ?I = "\<lambda>x m. h_known x = h_known h \<and> (h_running x \<longrightarrow> h_running h)"
  have "?I h' m'"
  proof (rule operator_run_invariant[of evs env decode ?I, OF _ assms(1)])
    fix e x m x' m'
    assume e: "e \<in> set evs" "operator_event env decode e (x, m) = Ok (x', m')" "?I x m"
    show "?I x' m'"
    proof (cases e)
      case (Zone ev)
      then show ?thesis
        using e assms(2) by (cases ev) (auto simp: operator_event_def handleZoneUpdates_def split: if_splits)
    next
      case (CheckDone svc ok)
      then show ?thesis using e(2,3) by (auto simp: operator_event_def bind_eq_Ok)
    qed
  qed simp
  then show ?thesis .
qed

lemma in_step_start: "in_step NewHandler (start_manager (NewManager dryrun store))"
  by (simp add: in_step_def NewHandler_def start_manager_def NewManager_def schedule_ok_def scheduled_ids_def scheduled_def ss_inv_def)

text \<open>
  From the start of the operator, through zone updates and health checks in any order, the services
  whose health is checked are exactly the known ones, and these are services of the last zone that was
  received: a service that was dropped from the zone, or whose record no longer decodes, is checked no more.
\<close>

theorem only_configured_services_are_checked:
  assumes "operator_run env decode (evs @ Zone (Records rs) # rest) NewHandler (start_manager (NewManager dryrun store)) = Ok (h, m)"
    and "h_running h" "\<forall>rs'. Zone (Records rs') \<notin> set rest"
  shows "scheduled_ids m = set (h_known h) \<and> set (h_known h) \<subseteq> zone_ids decode rs"
proof -
  obtain h1 m1 h2 m2 where 1: "operator_run env decode evs NewHandler (start_manager (NewManager dryrun store)) = Ok (h1, m1)"
    and 2: "handleZoneUpdates env decode (Records rs) h1 m1 = Ok (h2, m2)"
    and 3: "operator_run env decode rest h2 m2 = Ok (h, m)"
    using assms(1) unfolding operator_run_append operator_run.simps bind_eq_Ok split_paired_Ex prod.case by blast
  note quiet = operator_run_quiet[OF 3 assms(3)]
  have "h_running h1" using quiet assms(2) 2 by (auto simp: handleZoneUpdates_def split: if_splits)
  note batch = handle_batch_in_step[OF 2 operator_run_in_step[OF 1 in_step_start] this]
  then have "in_step h m" using operator_run_in_step[OF 3] by blast
  then show ?thesis using batch quiet by (simp add: in_step_def)
qed

text \<open>An operator that starts on the stored state of a service that has left the zone meanwhile.\<close>

definition stale_store :: "GSLBServiceGroup FileStore" where
  "stale_store = file_NewStore (Json [(''gone'', [(stored ''a'')\<lparr>gs_MemberOf := ''gone''\<rparr>])])"

definition demo_decode :: decoder where
  "demo_decode data c = (if data = ''{}'' then Some demo_cfg else None)"

lemma stale_store_map:
  "file_inv stale_store" "file_map stale_store = [''gone'' \<mapsto> [(stored ''a'')\<lparr>gs_MemberOf := ''gone''\<rparr>]]"
  by (simp_all add: stale_store_def file_inv_new) (simp add: file_NewStore_def file_map_def)

lemma first_registration:
  assumes st: "file_inv st" "file_map st ''example'' = None"
  obtains m' where "RegisterService demo_menv demo_cfg (start_manager (NewManager False st)) = Ok (Inr 0, m')"
proof -
  let ?m = "start_manager (NewManager False st :: GSLBServiceGroup FileStore Manager)"
  have m: "m_wf ?m" "\<not> m_mutex ?m" "m_store ?m = st" "m_next ?m = 0" "m_scheduled ?m = []" "m_groups ?m = []"
    "m_dryrun ?m = False"
    by (simp_all add: start_manager_def NewManager_def m_wf_def ss_inv_def ss_get_def scheduled_def)
  have "fst (repo_GetMemberInGroup (file_ops []) ''example'' ''c'' st) = Inl ErrServiceInGroupNotFound"
    using file_groups.GetMember_yields[OF st(1), of "''example''" "''c''"] st(2)
    by (simp add: yields_def member_in_def group_in_def)
  then have "fst (BuildServiceOptions demo_menv demo_cfg ?m) = [WithDryRunChecks False, WithFailureCount 3]"
    by (simp add: BuildServiceOptions_def on_repo_eq demo_menv_def demo_cfg_def m)
  then obtain s where s: "NewServiceFromGSLBConfig demo_env demo_cfg (fst (BuildServiceOptions demo_menv demo_cfg ?m)) = Inr s"
    by (simp add: NewServiceFromGSLBConfig_def demo_cfg_def demo_env_def Let_def)
  have f: "svc_id s = ''c''" "svc_MemberOf s = ''example''" "svc_priority s = 1" "svc_ScheduledInterval s = 5 * Second"
    using NewService_fields[OF s] demo_interval by (simp_all add: demo_cfg_def)
  have pre: "file_inv (m_store ?m)" "m_next ?m \<notin> scheduled (m_scheduled ?m)" "me_ops demo_menv = file_ops []"
    "NewServiceFromGSLBConfig (me_net demo_menv) demo_cfg (fst (BuildServiceOptions demo_menv demo_cfg ?m)) = Inr s"
    "valid_interval (svc_ScheduledInterval s)" "\<forall>r \<in> scheduled (m_scheduled ?m). svc_id (m_heap ?m r) \<noteq> svc_id s"
    "\<not> override_in (file_map (m_store ?m)) (svc_MemberOf s)"
    using s f st
    by (simp_all add: m scheduled_def demo_menv_def valid_interval_def override_in_def group_in_def)
  obtain m' where run: "RegisterService demo_menv demo_cfg ?m =
      bind (register_in_group demo_menv ''example'' 0 m') (\<lambda>m. Ok (Inr (m_next m' - 1), m_unlock m))"
    and m': "m_mutex m'" "m_next m' = 1" "m_heap m' = (m_heap ?m)(0 := SetHealthChangeCallback s)"
      "mget (m_groups m') ''example'' = Some (NewEmptyServiceGroup ''example'')"
    using RegisterService_prefix[OF m(1,2) pre(1,2,3,4,5,6,7)] f(2) by (auto simp: m mget_mput)
  have "update_event (m_heap m') ((NewEmptyServiceGroup ''example'')\<lparr>sg_Members := [0]\<rparr>) = None"
    by (simp add: update_event_def Let_def)
  then have "register_in_group demo_menv ''example'' 0 m' =
      Ok (m'\<lparr>m_groups := mput ''example'' (updated_group (m_heap m') ((NewEmptyServiceGroup ''example'')\<lparr>sg_Members := [0]\<rparr>)) (m_groups m')\<rparr>)"
    using register_in_group_event[OF m'(1), of "''example''" "NewEmptyServiceGroup ''example''" "m_heap m'" 0 None demo_menv] m'(4)
    by (simp add: NewEmptyServiceGroup_def group_inv_def members_ok_def)
  then show ?thesis using that run m'(2) by simp
qed

lemma demo_zone:
  assumes "file_inv st" "file_map st ''example'' = None"
  obtains h m where "handleZoneUpdates demo_menv demo_decode (Records [TXT ''example'' [''{}''], OtherRR]) NewHandler
      (start_manager (NewManager False st)) = Ok (h, m)" "h_running h" "h_known h \<noteq> []"
proof -
  let ?m = "start_manager (NewManager False st)"
  obtain m' where "RegisterService demo_menv demo_cfg ?m = Ok (Inr 0, m')" by (rule first_registration[OF assms])
  moreover have "unescape ''{}'' = ''{}''" by (simp add: unescape_def)
  ultimately have "handleRecord demo_menv demo_decode (TXT ''example'' [''{}'']) ?m = Ok (Some 0, m')"
    "handleRecord demo_menv demo_decode OtherRR m' = Ok (None, m')"
    by (simp_all add: handleRecord_def demo_decode_def)
  then have "handleZoneUpdates demo_menv demo_decode (Records [TXT ''example'' [''{}''], OtherRR]) NewHandler ?m =
      Ok (NewHandler\<lparr>h_known := [svc_id (m_heap m' 0)]\<rparr>, m')"
    by (simp add: handleZoneUpdates_def NewHandler_def)
  then show ?thesis by (rule that) (simp_all add: NewHandler_def)
qed

lemma demo_run:
  obtains h m where "operator_run demo_menv demo_decode [Zone (Records [TXT ''example'' [''{}''], OtherRR])] NewHandler
      (start_manager (NewManager False stale_store)) = Ok (h, m)" "h_running h"
proof -
  have "file_map stale_store ''example'' = None" by (simp add: stale_store_map)
  then obtain h m where h: "handleZoneUpdates demo_menv demo_decode (Records [TXT ''example'' [''{}''], OtherRR]) NewHandler
      (start_manager (NewManager False stale_store)) = Ok (h, m)" "h_running h"
    by (rule demo_zone[OF stale_store_map(1)])
  show ?thesis by (rule that[of h m]) (simp_all only: operator_run.simps h bind.simps prod.case)
qed

theorem only_configured_services_are_checked_witness:
  "\<exists>h m. operator_run demo_menv demo_decode [Zone (Records [TXT ''example'' [''{}''], OtherRR])] NewHandler
      (start_manager (NewManager False stale_store)) = Ok (h, m) \<and>
    scheduled_ids m \<subseteq> zone_ids demo_decode [TXT ''example'' [''{}''], OtherRR]"
proof -
  obtain h m where run: "operator_run demo_menv demo_decode ([] @ Zone (Records [TXT ''example'' [''{}''], OtherRR]) # []) NewHandler
      (start_manager (NewManager False stale_store)) = Ok (h, m)" "h_running h"
    using demo_run by auto
  from only_configured_services_are_checked[OF this] show ?thesis using run by auto
qed

lemma untouched_run:
  assumes "operator_run env decode evs h m = Ok (h', m')" "me_ops env = file_ops []" "untouched k v m"
    and "\<forall>rs. Zone (Records rs) \<in> set evs \<longrightarrow> (\<forall>cfg. Some cfg \<in> record_config decode ` set rs \<longrightarrow> cfg_MemberOf cfg \<noteq> k)"
  shows "untouched k v m'"
proof -
  have one: "untouched k v m'" if "handleRecord env decode r m = Ok (svc, m')" "untouched k v m"
    "\<forall>cfg. Some cfg = record_config decode r \<longrightarrow> cfg_MemberOf cfg \<noteq> k" for r m svc m'
  proof (cases "record_config decode r")
    case None
    then show ?thesis
      using that(1,2) by (auto simp: handleRecord_def split: RR.splits list.splits option.splits)
  next
    case (Some cfg)
    note prems = that
    obtain res where "RegisterService env cfg m = Ok (res, m')" by (rule handleRecord_registers[OF prems(1) Some])
    then show ?thesis using RegisterService_untouched[OF _ assms(2) prems(2)] prems(3) Some by simp
  qed
  have batch: "untouched k v m'" if "register_batch env decode rs b m = Ok (b', m')" "untouched k v m"
    "\<forall>r \<in> set rs. \<forall>cfg. Some cfg = record_config decode r \<longrightarrow> cfg_MemberOf cfg \<noteq> k" for rs b m b' m'
    using that by (induction rs arbitrary: b m) (auto simp: bind_eq_Ok dest!: one)
  have missing: "untouched k v m'" if "remove_missing env b ks m = Ok m'" "untouched k v m" for ks b m m'
    using that by (induction ks arbitrary: m) (auto simp: bind_eq_Ok split: if_splits dest!: RemoveService_untouched[OF _ assms(2)])
  show ?thesis
  proof (rule operator_run_invariant[of evs env decode "\<lambda>h m. untouched k v m", OF _ assms(1,3)])
    fix e h m h' m'
    assume e: "e \<in> set evs" "operator_event env decode e (h, m) = Ok (h', m')" "untouched k v m"
    show "untouched k v m'"
    proof (cases e)
      case (Zone ev)
      show ?thesis
      proof (cases "h_running h \<and> (\<exists>rs. ev = Records rs)")
        case True
        then obtain rs b m1 where rs: "ev = Records rs" "register_batch env decode rs [] m = Ok (b, m1)"
          "remove_missing env b (h_known h) m1 = Ok m'"
          using e(2) Zone by (auto simp: operator_event_def handleZoneUpdates_def bind_eq_Ok)
        have "\<forall>r \<in> set rs. \<forall>cfg. Some cfg = record_config decode r \<longrightarrow> cfg_MemberOf cfg \<noteq> k"
          using assms(4) e(1) Zone rs(1) by (metis image_eqI)
        then show ?thesis using missing[OF rs(3) batch[OF rs(2) e(3)]] by simp
      next
        case False
        then show ?thesis
          using e(2,3) Zone by (cases ev) (auto simp: operator_event_def handleZoneUpdates_def split: if_splits)
      qed
    next
      case (CheckDone svc ok)
      then show ?thesis using e(2,3) checkDone_untouched[OF _ assms(2)] by (auto simp: operator_event_def bind_eq_Ok)
    qed
  qed
qed

text \<open>
  C26. A group that is stored but has left the zone while the operator was down stays in the store through any
  zone updates and health checks, and the API goes on serving its spoof: the new process knows
  only services of its own zones, and removes nothing else.
\<close>

theorem group_gone_before_restart_stays:
  assumes "operator_run env decode evs NewHandler (start_manager (NewManager dryrun store)) = Ok (h, m)"
    and "me_ops env = file_ops []" "file_inv store" "k \<noteq> []"
    and "\<forall>rs. Zone (Records rs) \<in> set evs \<longrightarrow> (\<forall>cfg. Some cfg \<in> record_config decode ` set rs \<longrightarrow> cfg_MemberOf cfg \<noteq> k)"
  shows "file_map (m_store m) k = file_map store k \<and>
    fst (GetFQDNSpoof env k m) = (200, Some (case find gs_IsActive (group_in (file_map store) k) of
      None \<Rightarrow> no_spoof | Some svc \<Rightarrow> toSpoof svc))"
proof -
  have "untouched k (file_map store k) (start_manager (NewManager dryrun store))"
    using assms(3,4) by (simp add: untouched_def start_manager_def NewManager_def blank_service_def)
  from untouched_run[OF assms(1,2) this assms(5)]
  have u: "file_inv (m_store m)" "file_map (m_store m) k = file_map store k" by (simp_all add: untouched_def)
  then have "group_in (file_map (m_store m)) k = group_in (file_map store) k" by (simp add: group_in_def)
  then have "fst (GetFQDNSpoof env k m) = (200, Some (case find gs_IsActive (group_in (file_map store) k) of
      None \<Rightarrow> no_spoof | Some svc \<Rightarrow> toSpoof svc))"
    using spoof_Read_file[OF u(1), of k] assms(2,4) by (auto simp: GetFQDNSpoof_def split: prod.splits)
  then show ?thesis using u(2) by simp
qed

theorem group_gone_before_restart_stays_witness:
  "\<exists>h m. operator_run demo_menv demo_decode [Zone (Records [TXT ''example'' [''{}''], OtherRR])] NewHandler
      (start_manager (NewManager False stale_store)) = Ok (h, m) \<and>
    fst (GetFQDNSpoof demo_menv ''gone'' m) = (200, Some \<lparr>sp_FQDN = ''gone'', sp_IP = ''10.0.0.1'', sp_DC = ''DC1''\<rparr>)"
proof -
  obtain h m where run: "operator_run demo_menv demo_decode [Zone (Records [TXT ''example'' [''{}''], OtherRR])] NewHandler
      (start_manager (NewManager False stale_store)) = Ok (h, m)"
    using demo_run by blast
  have "fst (GetFQDNSpoof demo_menv ''gone'' m) = (200, Some (case find gs_IsActive (group_in (file_map stale_store) ''gone'') of
      None \<Rightarrow> no_spoof | Some svc \<Rightarrow> toSpoof svc))"
    using group_gone_before_restart_stays[OF run, of "''gone''"] stale_store_map(1)
    by (auto simp: demo_menv_def demo_decode_def demo_cfg_def split: if_splits)
  then show ?thesis using run by (auto simp: stale_store_map group_in_def stored_def toSpoof_def)
qed

text \<open>
  A zone is published only when its transfer was complete and without error, and then it holds the
  records of all envelopes in order: a transfer that breaks off never removes a service.
\<close>

theorem only_complete_zones_are_published:
  assumes "AXFRTransfer cancelled started pub evs = Some r" "tr_published r = Some zone"
  shows "started \<and> \<not> cancelled \<and> pub = Taken \<and> tr_errors r = 0 \<and>
    (\<exists>answers rest. evs = map Envelope answers @ TransferDone # rest \<and> zone = concat answers)"
proof -
  have taken: "transfer_loop pub evs rs n = Some r \<Longrightarrow> pub = Taken \<and> tr_errors r = n" for rs n
    using assms(2) by (induction pub evs rs n rule: transfer_loop.induct) (auto split: if_splits)
  have "\<not> cancelled" using assms by (auto simp: AXFRTransfer_def)
  moreover have started
  proof (rule ccontr)
    assume "\<not> started"
    then have "transfer_loop pub (filter (\<lambda>e. e = CtxDone \<or> e = TimedOut) evs) [] 1 = Some r"
      using assms(1) \<open>\<not> cancelled\<close> by (simp add: AXFRTransfer_def)
    then have "tr_published r = None" by (rule unstarted_transfer)
    then show False using assms(2) by simp
  qed
  ultimately have run: "\<not> cancelled" "started" "transfer_loop pub evs [] 0 = Some r"
    using assms(1) by (simp_all add: AXFRTransfer_def)
  show ?thesis using run taken[OF run(3)] transfer_loop_published[OF run(3) assms(2)] by simp
qed

theorem only_complete_zones_are_published_witness:
  "\<exists>answers rest. [Envelope [OtherRR], Envelope [TXT ''a'' []], TransferDone] = map Envelope answers @ TransferDone # rest \<and>
     [OtherRR, TXT ''a'' []] = concat answers"
  using only_complete_zones_are_published[of False True Taken "[Envelope [OtherRR], Envelope [TXT ''a'' []], TransferDone]"
      "\<lparr>tr_published = Some [OtherRR, TXT ''a'' []], tr_errors = 0\<rparr>"]
  by (simp add: AXFRTransfer_def)

end
