(* ===== verification/Regex.thy ===== *)
theory Regex
  imports Main
begin

text \<open>
  Regular expressions as far as the repository uses Go's \<^verbatim>\<open>regexp\<close>: a term of \<open>rx\<close> with a backtracking
  matcher that prefers, as Go's does, the first alternative and the longest repetition.
\<close>

section \<open>Matching at the start of a string\<close>

datatype rx = Class "char \<Rightarrow> bool" nat "nat option" | Seq rx rx | Alt rx rx

fun run_length :: "(char \<Rightarrow> bool) \<Rightarrow> string \<Rightarrow> nat" where
  "run_length p [] = 0"
| "run_length p (c # cs) = (if p c then Suc (run_length p cs) else 0)"

definition greedy_most :: "(char \<Rightarrow> bool) \<Rightarrow> nat option \<Rightarrow> string \<Rightarrow> nat" where
  "greedy_most p hi s = (case hi of None \<Rightarrow> run_length p s | Some h \<Rightarrow> min h (run_length p s))"

text \<open>The unread rests of all matches at the start of a string, in order of preference.\<close>

fun rx_match :: "rx \<Rightarrow> string \<Rightarrow> string list" where
  "rx_match (Class p lo hi) s =
     map (\<lambda>n. drop n s) (filter (\<lambda>n. lo \<le> n) (rev [0..<Suc (greedy_most p hi s)]))"
| "rx_match (Seq r1 r2) s = concat (map (rx_match r2) (rx_match r1 s))"
| "rx_match (Alt r1 r2) s = rx_match r1 s @ rx_match r2 s"

definition lit :: "char \<Rightarrow> rx" where
  "lit c = Class (\<lambda>x. x = c) 1 (Some 1)"

lemma run_length_le: "run_length p s \<le> length s"
  by (induction s) auto

text \<open>A literal word, and \<^verbatim>\<open>.*\<close>, which does not match a newline.\<close>

fun word_rx :: "string \<Rightarrow> rx" where
  "word_rx [] = Class (\<lambda>c. False) 0 (Some 0)"
| "word_rx (c # cs) = Seq (lit c) (word_rx cs)"

definition any_rx :: rx where
  "any_rx = Class (\<lambda>c. c \<noteq> CHR 0x0A) 0 None"

text \<open>\<^verbatim>\<open>MatchString\<close> for a pattern between \<^verbatim>\<open>^\<close> and \<^verbatim>\<open>$\<close>, and for one without anchors.\<close>

datatype pattern = Anchored rx | Anywhere rx

fun suffixes_of :: "'a list \<Rightarrow> 'a list list" where
  "suffixes_of [] = [[]]"
| "suffixes_of (x # xs) = (x # xs) # suffixes_of xs"

fun MatchString :: "pattern \<Rightarrow> string \<Rightarrow> bool" where
  "MatchString (Anchored r) s = ([] \<in> set (rx_match r s))"
| "MatchString (Anywhere r) s = (\<exists>t \<in> set (suffixes_of s). rx_match r t \<noteq> [])"

lemma lit_rx_match: "rx_match (lit c) s = (case s of [] \<Rightarrow> [] | x # xs \<Rightarrow> if x = c then [xs] else [])"
  by (cases s) (simp_all add: lit_def greedy_most_def)

lemma word_rx_match:
  "rx_match (word_rx w) s = (if take (length w) s = w then [drop (length w) s] else [])"
proof (induction w arbitrary: s)
  case Nil
  show ?case by (simp add: greedy_most_def)
next
  case (Cons c w)
  then show ?case by (cases s) (auto simp: lit_rx_match)
qed

lemma run_length_all: "run_length p s = length s \<longleftrightarrow> (\<forall>c \<in> set s. p c)"
  by (induction s) auto

lemma any_rx_whole: "[] \<in> set (rx_match any_rx s) \<longleftrightarrow> CHR 0x0A \<notin> set s"
proof -
  let ?n = "run_length (\<lambda>c. c \<noteq> CHR 0x0A) s"
  have "[] \<in> set (rx_match any_rx s) \<longleftrightarrow> (\<exists>n \<le> ?n. length s \<le> n)"
    by (auto simp: any_rx_def greedy_most_def image_iff less_Suc_eq_le simp del: upt_Suc)
  also have "\<dots> \<longleftrightarrow> ?n = length s" using run_length_le[of "\<lambda>c. c \<noteq> CHR 0x0A" s] by auto
  finally show ?thesis by (auto simp: run_length_all)
qed

lemma MatchString_word: "MatchString (Anchored (word_rx w)) s \<longleftrightarrow> s = w"
  by (auto simp: word_rx_match)

lemma MatchString_prefix:
  "MatchString (Anchored (Seq (word_rx w) any_rx)) s \<longleftrightarrow> (\<exists>rest. s = w @ rest \<and> CHR 0x0A \<notin> set rest)"
proof
  assume "MatchString (Anchored (Seq (word_rx w) any_rx)) s"
  then have "take (length w) s = w" "CHR 0x0A \<notin> set (drop (length w) s)"
    by (auto simp: word_rx_match any_rx_whole split: if_splits)
  then show "\<exists>rest. s = w @ rest \<and> CHR 0x0A \<notin> set rest" by (metis append_take_drop_id)
qed (auto simp: word_rx_match any_rx_whole)

lemma MatchString_any: "MatchString (Anywhere any_rx) s"
proof -
  have "rx_match any_rx s \<noteq> []" by (simp add: any_rx_def)
  moreover have "s \<in> set (suffixes_of s)" by (cases s) simp_all
  ultimately show ?thesis by auto
qed

end
