(* ===== verification/DnsSync.thy ===== *)
theory DnsSync
  imports Spoofs Regex
begin

text \<open>
  \<^verbatim>\<open>internal/dns/update/dnsdist.go\<close>: keeping the rule sets of the dnsdist servers equal to the spoofs of
  the store. The client of a server is the interface \<open>Console\<close> over a state of that server; the
  regular expression of \<^verbatim>\<open>ParseRuleSet\<close> is a term of \<open>rx\<close> with a backtracking matcher that prefers,
  as Go's does, the first alternative and the longest repetition.
\<close>

section \<open>Finding the matches\<close>

text \<open>\<^verbatim>\<open>FindAllString\<close>: the leftmost matches that do not overlap; the pattern here never matches empty.\<close>

function FindAllString :: "rx \<Rightarrow> string \<Rightarrow> string list" where
  "FindAllString r s =
     (case s of
        [] \<Rightarrow> []
      | c # cs \<Rightarrow>
          (case rx_match r s of
             [] \<Rightarrow> FindAllString r cs
           | rest # _ \<Rightarrow>
               if length rest < length s then take (length s - length rest) s # FindAllString r rest
               else FindAllString r cs))"
  by pat_completeness auto
termination
  by (relation "measure (\<lambda>(r, s). length s)") auto

declare FindAllString.simps [simp del]

definition is_digit :: "char \<Rightarrow> bool" where
  "is_digit c \<longleftrightarrow> c \<in> set ''0123456789''"

definition is_upper :: "char \<Rightarrow> bool" where
  "is_upper c \<longleftrightarrow> c \<in> set ''ABCDEFGHIJKLMNOPQRSTUVWXYZ''"

definition is_lower :: "char \<Rightarrow> bool" where
  "is_lower c \<longleftrightarrow> c \<in> set ''abcdefghijklmnopqrstuvwxyz''"

definition is_name_char :: "char \<Rightarrow> bool" where
  "is_name_char c \<longleftrightarrow> is_lower c \<or> is_upper c \<or> is_digit c \<or> c \<in> set ''._-''"

definition is_dc_char :: "char \<Rightarrow> bool" where
  "is_dc_char c \<longleftrightarrow> is_upper c \<or> is_digit c"

text \<open>\<^verbatim>\<open>[a-zA-Z0-9._-]+:[A-Z0-9]+|spoof|\d{1,3}\.\d{1,3}\.\d{1,3}\.\d{1,3}\<close>\<close>

definition name_rx :: rx where
  "name_rx = Seq (Class is_name_char 1 None) (Seq (lit (CHR '':'')) (Class is_dc_char 1 None))"

definition spoof_rx :: rx where
  "spoof_rx = Seq (lit (CHR ''s'')) (Seq (lit (CHR ''p'')) (Seq (lit (CHR ''o'')) (Seq (lit (CHR ''o'')) (lit (CHR ''f'')))))"

definition octet_rx :: rx where
  "octet_rx = Class is_digit 1 (Some 3)"

definition ip_rx :: rx where
  "ip_rx = Seq octet_rx (Seq (lit (CHR ''.'')) (Seq octet_rx (Seq (lit (CHR ''.'')) (Seq octet_rx
     (Seq (lit (CHR ''.'')) octet_rx)))))"

definition rule_rx :: rx where
  "rule_rx = Alt name_rx (Alt spoof_rx ip_rx)"

section \<open>Parsing a rule set\<close>

text \<open>\<^verbatim>\<open>bufio.ScanLines\<close>: lines without their end, a trailing carriage return dropped;
the scanner stops at a line that does not fit its buffer.\<close>

fun split_at_char :: "char \<Rightarrow> string \<Rightarrow> string list" where
  "split_at_char sep [] = [[]]"
| "split_at_char sep (c # cs) =
     (if c = sep then [] # split_at_char sep cs
      else (case split_at_char sep cs of [] \<Rightarrow> [[c]] | l # ls \<Rightarrow> (c # l) # ls))"

definition dropCR :: "string \<Rightarrow> string" where
  "dropCR l = (if l \<noteq> [] \<and> last l = CHR 0x0D then butlast l else l)"

definition scan_lines :: "string \<Rightarrow> string list" where
  "scan_lines s =
     (let ls = split_at_char (CHR 0x0A) s
      in map dropCR (takeWhile (\<lambda>l. int (length l) < 65536) (if last ls = [] then butlast ls else ls)))"

definition parse_line :: "string \<Rightarrow> Spoof option" where
  "parse_line line =
     (let matches = FindAllString rule_rx line
      in if length matches < 3 then None
         else
           let Name = matches ! 0; Action = matches ! 1
           in if Action \<noteq> ''spoof'' then None
              else Some \<lparr>sp_FQDN = split_at_char (CHR '':'') Name ! 0, sp_IP = matches ! 2,
                          sp_DC = split_at_char (CHR '':'') Name ! 1\<rparr>)"

definition ParseRuleSet :: "string \<Rightarrow> Spoof list" where
  "ParseRuleSet ruleSet = List.map_filter parse_line (scan_lines ruleSet)"

section \<open>Servers\<close>

datatype update_error = UpdateFailed | SpoofsUnreadable

record 'c Console =
  co_Add :: "string \<Rightarrow> string \<Rightarrow> string \<Rightarrow> 'c \<Rightarrow> bool \<times> 'c"
  co_Rm :: "string \<Rightarrow> 'c \<Rightarrow> bool \<times> 'c"
  co_Show :: "'c \<Rightarrow> string option \<times> 'c"

text \<open>
  The updater sends a command to its servers in turn and stops at the first failure; the order of
  the servers is the order in which the map of clients is visited.
\<close>

fun each_server :: "('c \<Rightarrow> bool \<times> 'c) \<Rightarrow> 'c list \<Rightarrow> (update_error + unit) \<times> 'c list" where
  "each_server f [] = (Inr (), [])"
| "each_server f (c # cs) =
     (let (ok, c) = f c
      in if \<not> ok then (Inl UpdateFailed, c # cs)
         else let (r, cs) = each_server f cs in (r, c # cs))"

definition OnServiceUp :: "'c Console \<Rightarrow> Service \<Rightarrow> 'c list \<Rightarrow> (update_error + unit) \<times> 'c list" where
  "OnServiceUp co svc =
     each_server (co_Add co (svc_MemberOf svc @ '':'' @ svc_Datacenter svc) (svc_MemberOf svc) (GetIP svc))"

definition OnServiceDown :: "'c Console \<Rightarrow> Service \<Rightarrow> 'c list \<Rightarrow> (update_error + unit) \<times> 'c list" where
  "OnServiceDown co svc = each_server (co_Rm co (svc_MemberOf svc @ '':'' @ svc_Datacenter svc))"

fun remove_stale :: "'c Console \<Rightarrow> Spoof list \<Rightarrow> Spoof list \<Rightarrow> 'c \<Rightarrow> (update_error + unit) \<times> 'c" where
  "remove_stale co gslbspoofs [] c = (Inr (), c)"
| "remove_stale co gslbspoofs (spoof # spoofs) c =
     (if ContainsFunc (\<lambda>s. spoof_Key s = spoof_Key spoof) gslbspoofs then remove_stale co gslbspoofs spoofs c
      else let (ok, c) = co_Rm co (spoof_Key spoof) c
           in if ok then remove_stale co gslbspoofs spoofs c else (Inl UpdateFailed, c))"

fun add_missing :: "'c Console \<Rightarrow> Spoof list \<Rightarrow> Spoof list \<Rightarrow> 'c \<Rightarrow> (update_error + unit) \<times> 'c" where
  "add_missing co configured [] c = (Inr (), c)"
| "add_missing co configured (spoof # spoofs) c =
     (if ContainsFunc (\<lambda>s. spoof_Key s = spoof_Key spoof) configured then add_missing co configured spoofs c
      else let (ok, c) = co_Add co (spoof_Key spoof) (sp_FQDN spoof) (sp_IP spoof) c
           in if ok then add_missing co configured spoofs c else (Inl UpdateFailed, c))"

definition reconcileServer ::
  "'c Console \<Rightarrow> ('s, GSLBServiceGroup) Store \<Rightarrow> Spoof list \<Rightarrow> 's \<times> 'c \<Rightarrow> (update_error + unit) \<times> 's \<times> 'c" where
  "reconcileServer co ops configuredSpoofs = (\<lambda>(s, c).
     case spoof_ReadAll ops s of
        (Inl e, s) \<Rightarrow> (Inl SpoofsUnreadable, s, c)
      | (Inr gslbspoofs, s) \<Rightarrow>
          (case remove_stale co gslbspoofs configuredSpoofs c of
             (Inl e, c) \<Rightarrow> (Inl e, s, c)
           | (Inr _, c) \<Rightarrow> let (r, c) = add_missing co configuredSpoofs gslbspoofs c in (r, s, c)))"

text \<open>
  One server of \<^verbatim>\<open>synchronizeServers\<close>; its errors are only logged. The servers are handled
  concurrently; they share nothing but the store, which they only read.
\<close>

definition synchronize_server ::
  "(Spoof list \<Rightarrow> string) \<Rightarrow> 'c Console \<Rightarrow> ('s, GSLBServiceGroup) Store \<Rightarrow> string \<Rightarrow> 's \<times> 'c \<Rightarrow> 's \<times> 'c" where
  "synchronize_server digest co ops desiredHash = (\<lambda>(s, c).
     case co_Show co c of
        (None, c) \<Rightarrow> (s, c)
      | (Some rawRuleSet, c) \<Rightarrow>
          let data = sort_spoofs (ParseRuleSet rawRuleSet)
          in if digest data \<noteq> desiredHash then snd (reconcileServer co ops data (s, c)) else (s, c))"

fun synchronize_each ::
  "(Spoof list \<Rightarrow> string) \<Rightarrow> 'c Console \<Rightarrow> ('s, GSLBServiceGroup) Store \<Rightarrow> string \<Rightarrow> 's \<Rightarrow> 'c list \<Rightarrow> 's \<times> 'c list" where
  "synchronize_each digest co ops desiredHash s [] = (s, [])"
| "synchronize_each digest co ops desiredHash s (c # cs) =
     (let (s, c) = synchronize_server digest co ops desiredHash (s, c);
          (s, cs) = synchronize_each digest co ops desiredHash s cs
      in (s, c # cs))"

definition synchronizeServers ::
  "(Spoof list \<Rightarrow> string) \<Rightarrow> 'c Console \<Rightarrow> ('s, GSLBServiceGroup) Store \<Rightarrow> 's \<times> 'c list \<Rightarrow>
   (spoof_error + unit) \<times> 's \<times> 'c list" where
  "synchronizeServers digest co ops = (\<lambda>(s, servers).
     case spoof_Hash digest ops s of
       (Inl e, s) \<Rightarrow> (Inl e, s, servers)
     | (Inr desiredHash, s) \<Rightarrow> (Inr (), synchronize_each digest co ops desiredHash s servers))"

section \<open>Matches do not cross a separator\<close>

fun avoids :: "char \<Rightarrow> rx \<Rightarrow> bool" where
  "avoids c (Class p lo hi) = (\<not> p c)"
| "avoids c (Seq r1 r2) = (avoids c r1 \<and> avoids c r2)"
| "avoids c (Alt r1 r2) = (avoids c r1 \<and> avoids c r2)"

lemma run_length_stop: "\<not> p c \<Longrightarrow> run_length p (a @ c # b) = run_length p a"
  by (induction a) auto

lemma greedy_most_le: "greedy_most p hi s \<le> length s"
  using run_length_le[of p s] by (auto simp: greedy_most_def min_def split: option.splits)

lemma greedy_most_stop: "\<not> p c \<Longrightarrow> greedy_most p hi (a @ c # b) = greedy_most p hi a"
  by (simp add: greedy_most_def run_length_stop split: option.splits)

lemma rx_match_stop:
  "avoids c r \<Longrightarrow> rx_match r (a @ c # b) = map (\<lambda>rest. rest @ c # b) (rx_match r a)"
proof (induction r arbitrary: a)
  case (Class p lo hi)
  have "drop n (a @ c # b) = drop n a @ c # b" if "n \<in> set (filter (\<lambda>n. lo \<le> n) (rev [0..<Suc (greedy_most p hi a)]))" for n
    using that greedy_most_le[of p hi a] by (auto simp del: upt_Suc)
  then show ?case
    using Class by (auto simp: greedy_most_stop comp_def simp del: upt_Suc intro!: map_cong)
next
  case (Seq r1 r2)
  then show ?case by (simp add: comp_def map_concat)
next
  case (Alt r1 r2)
  then show ?case by simp
qed

lemma rx_match_suffix: "rest \<in> set (rx_match r s) \<Longrightarrow> \<exists>p. s = p @ rest"
proof (induction r arbitrary: s rest)
  case (Class p lo hi)
  then obtain n where "rest = drop n s" by (auto simp del: upt_Suc)
  then show ?case by (metis append_take_drop_id)
next
  case (Seq r1 r2)
  then obtain mid where "mid \<in> set (rx_match r1 s)" "rest \<in> set (rx_match r2 mid)" by auto
  then show ?case using Seq.IH by (metis append.assoc)
qed auto

lemma take_all_left: "n \<le> length a \<Longrightarrow> take n (a @ b) = take n a"
  by simp

lemma FindAllString_Cons:
  "FindAllString r (c # cs) = (case rx_match r (c # cs) of
     [] \<Rightarrow> FindAllString r cs
   | rest # _ \<Rightarrow> if length rest < length (c # cs)
       then take (length (c # cs) - length rest) (c # cs) # FindAllString r rest else FindAllString r cs)"
  by (subst FindAllString.simps) simp

lemma FindAllString_stop:
  assumes "avoids c r"
  shows "FindAllString r (a @ c # b) = FindAllString r a @ FindAllString r b"
proof (induction a rule: length_induct)
  case (1 a)
  have IH: "FindAllString r (x @ c # b) = FindAllString r x @ FindAllString r b" if "length x < length a" for x
    using 1 that by blast
  show ?case
  proof (cases a)
    case Nil
    have "length rest \<ge> length (c # b)" if "rest \<in> set (rx_match r (c # b))" for rest
      using that rx_match_stop[OF assms, of "[]" b] by auto
    then have "FindAllString r (c # b) = FindAllString r b"
      by (cases "rx_match r (c # b)") (fastforce simp: FindAllString.simps[of r "c # b"])+
    moreover have "FindAllString r [] = []" by (subst FindAllString.simps) simp
    ultimately show ?thesis using Nil by simp
  next
    case (Cons x xs)
    show ?thesis
    proof (cases "rx_match r a")
      case Nil
      then have "FindAllString r a = FindAllString r xs" "FindAllString r (a @ c # b) = FindAllString r (xs @ c # b)"
        using rx_match_stop[OF assms, of a b] Cons
        by (subst FindAllString.simps, simp)+
      then show ?thesis using IH[of xs] Cons by simp
    next
      case m: (Cons rest oth)
      then obtain p where p: "a = p @ rest" using rx_match_suffix[of rest r a] by auto
      have m': "rx_match r (a @ c # b) = (rest @ c # b) # map (\<lambda>rest. rest @ c # b) oth"
        using rx_match_stop[OF assms, of a b] m by simp
      show ?thesis
      proof (cases "length rest < length a")
        case True
        have "FindAllString r a = take (length a - length rest) a # FindAllString r rest"
          using m True Cons by (subst FindAllString.simps) simp
        moreover have "FindAllString r (a @ c # b) = take (length a - length rest) a # FindAllString r (rest @ c # b)"
          using m' True Cons take_all_left[of "length a - length rest" a "c # b"]
          by (simp add: FindAllString_Cons)
        ultimately show ?thesis using IH[OF True] by simp
      next
        case False
        have "FindAllString r a = FindAllString r xs" using m False Cons by (subst FindAllString.simps) simp
        moreover have "FindAllString r (a @ c # b) = FindAllString r (xs @ c # b)"
          using m' False Cons by (subst FindAllString.simps) simp
        ultimately show ?thesis using IH[of xs] Cons by simp
      qed
    qed
  qed
qed

section \<open>Rule lines\<close>

text \<open>A line as words with a space between them.\<close>

fun unwords :: "string list \<Rightarrow> string" where
  "unwords [] = []"
| "unwords [w] = w"
| "unwords (w # ws) = w @ CHR '' '' # unwords ws"

lemma FindAllString_Nil [simp]: "FindAllString r [] = []"
  by (subst FindAllString.simps) simp

lemma FindAllString_unwords:
  "avoids (CHR '' '') r \<Longrightarrow> FindAllString r (unwords ws) = concat (map (FindAllString r) ws)"
  by (induction ws rule: unwords.induct) (simp_all add: FindAllString_stop)

lemmas rx_defs = rule_rx_def name_rx_def spoof_rx_def ip_rx_def octet_rx_def lit_def
lemmas char_defs = is_name_char_def is_dc_char_def is_lower_def is_upper_def is_digit_def

lemma avoids_space: "avoids (CHR '' '') rule_rx"
  by (simp add: rx_defs char_defs)

lemma FindAllString_whole:
  assumes "s \<noteq> []" "rx_match r s = [] # oth"
  shows "FindAllString r s = [s]"
  using assms by (cases s) (simp_all add: FindAllString_Cons)

text \<open>The preferred match of a repetition that reads a run to its end.\<close>

lemma run_length_append: "\<forall>c \<in> set a. p c \<Longrightarrow> run_length p (a @ b) = length a + run_length p b"
  by (induction a) auto

lemma Class_first:
  assumes "\<forall>c \<in> set a. p c" "run_length p b = 0" "lo \<le> length a" "\<forall>h. hi = Some h \<longrightarrow> length a \<le> h"
  shows "\<exists>oth. rx_match (Class p lo hi) (a @ b) = b # oth"
proof -
  have "greedy_most p hi (a @ b) = length a"
    using assms(2,4) run_length_append[OF assms(1), of b] by (auto simp: greedy_most_def split: option.splits)
  then show ?thesis using assms(3) by simp
qed

lemma Seq_first:
  assumes "rx_match r1 s = t # ts" "rx_match r2 t = u # us"
  shows "\<exists>oth. rx_match (Seq r1 r2) s = u # oth"
  using assms by simp

lemma lit_match: "rx_match (lit c) (c # cs) = [cs]"
  by (simp add: lit_def greedy_most_def)

lemma lit_fails: "c \<notin> set s \<Longrightarrow> rx_match (lit c) s = []"
  by (cases s) (auto simp: lit_def greedy_most_def)

lemma name_rx_needs_colon:
  assumes "CHR '':'' \<notin> set s"
  shows "rx_match name_rx s = []"
proof -
  have "rx_match (lit (CHR '':'')) t = []" if "t \<in> set (rx_match (Class is_name_char 1 None) s)" for t
  proof -
    from rx_match_suffix[OF that] obtain p where "s = p @ t" by blast
    then show ?thesis using assms by (intro lit_fails) auto
  qed
  then show ?thesis by (simp add: name_rx_def del: rx_match.simps(1))
qed

lemma name_word:
  assumes "fqdn \<noteq> []" "\<forall>c \<in> set fqdn. is_name_char c" "dc \<noteq> []" "\<forall>c \<in> set dc. is_dc_char c"
  shows "FindAllString rule_rx (fqdn @ CHR '':'' # dc) = [fqdn @ CHR '':'' # dc]"
proof -
  have "run_length is_name_char (CHR '':'' # dc) = 0" by (simp add: char_defs)
  then obtain m1 where 1: "rx_match (Class is_name_char 1 None) (fqdn @ CHR '':'' # dc) = (CHR '':'' # dc) # m1"
    using Class_first[OF assms(2), of "CHR '':'' # dc" 1 None] assms(1) by (auto simp: Suc_le_eq)
  obtain m2 where 2: "rx_match (Class is_dc_char 1 None) dc = [] # m2"
    using Class_first[OF assms(4), of "[]" 1 None] assms(3) by (auto simp: Suc_le_eq)
  obtain m3 where "rx_match (Seq (lit (CHR '':'')) (Class is_dc_char 1 None)) (CHR '':'' # dc) = [] # m3"
    using Seq_first[OF lit_match 2] by blast
  then obtain m4 where "rx_match name_rx (fqdn @ CHR '':'' # dc) = [] # m4"
    using Seq_first[OF 1] unfolding name_rx_def by blast
  then have "\<exists>m. rx_match rule_rx (fqdn @ CHR '':'' # dc) = [] # m" by (simp add: rule_rx_def)
  then show ?thesis by (auto intro!: FindAllString_whole)
qed

lemma spoof_word: "FindAllString rule_rx ''spoof'' = [''spoof'']"
  using name_rx_needs_colon[of "''spoof''"]
  by (intro FindAllString_whole) (auto simp: rule_rx_def spoof_rx_def lit_match simp del: rx_match.simps(1))

definition is_octet :: "string \<Rightarrow> bool" where
  "is_octet s \<longleftrightarrow> s \<noteq> [] \<and> length s \<le> 3 \<and> (\<forall>c \<in> set s. is_digit c)"

lemma octet_first:
  assumes "is_octet a" "run_length is_digit b = 0"
  shows "\<exists>oth. rx_match octet_rx (a @ b) = b # oth"
  unfolding octet_rx_def
  using assms by (intro Class_first) (auto simp: is_octet_def Suc_le_eq)

lemma dot_first:
  assumes "is_octet a" "\<exists>oth. rx_match r b = [] # oth"
  shows "\<exists>oth. rx_match (Seq octet_rx (Seq (lit (CHR ''.'')) r)) (a @ CHR ''.'' # b) = [] # oth"
proof -
  have "run_length is_digit (CHR ''.'' # b) = 0" by (simp add: char_defs)
  then obtain m where "rx_match octet_rx (a @ CHR ''.'' # b) = (CHR ''.'' # b) # m"
    using octet_first[OF assms(1)] by blast
  moreover obtain m' where "rx_match (Seq (lit (CHR ''.'')) r) (CHR ''.'' # b) = [] # m'"
    using assms(2) Seq_first[OF lit_match] by blast
  ultimately show ?thesis by (rule Seq_first)
qed

lemma ip_word:
  assumes "is_octet a" "is_octet b" "is_octet c" "is_octet d"
  defines "ip \<equiv> a @ CHR ''.'' # b @ CHR ''.'' # c @ CHR ''.'' # d"
  shows "FindAllString rule_rx ip = [ip]"
proof -
  have "\<exists>m. rx_match octet_rx d = [] # m" using octet_first[OF assms(4), of "[]"] by simp
  then have "\<exists>m. rx_match ip_rx ip = [] # m"
    unfolding ip_rx_def ip_def using assms(1-3) by (intro dot_first)
  moreover have dig: "\<not> is_digit (CHR '':'')" "\<not> is_digit (CHR ''s'')" by (simp_all add: is_digit_def)
  then have "CHR '':'' \<notin> set ip" using dig assms(1-4) by (auto simp: ip_def is_octet_def)
  then have "rx_match name_rx ip = []" by (rule name_rx_needs_colon)
  moreover have "CHR ''s'' \<notin> set ip" using dig assms(1-4) by (auto simp: ip_def is_octet_def)
  then have "rx_match spoof_rx ip = []" using lit_fails by (simp add: spoof_rx_def)
  ultimately have "\<exists>m. rx_match rule_rx ip = [] # m" by (simp add: rule_rx_def)
  then show ?thesis by (auto intro!: FindAllString_whole simp: ip_def)
qed

lemma split_at_char_key:
  "CHR '':'' \<notin> set a \<Longrightarrow> CHR '':'' \<notin> set b \<Longrightarrow> split_at_char (CHR '':'') (a @ CHR '':'' # b) = [a, b]"
proof (induction a)
  case Nil
  then show ?case by (induction b) auto
qed auto

lemma colon_in_no_class: "\<not> is_name_char (CHR '':'')" "\<not> is_dc_char (CHR '':'')"
  by (simp_all add: char_defs)

lemma parse_line_matches:
  "FindAllString rule_rx line = [n @ CHR '':'' # dc, ''spoof'', ip] @ ms \<Longrightarrow> CHR '':'' \<notin> set n \<Longrightarrow> CHR '':'' \<notin> set dc \<Longrightarrow>
    parse_line line = Some \<lparr>sp_FQDN = n, sp_IP = ip, sp_DC = dc\<rparr>"
  by (simp add: parse_line_def split_at_char_key)


lemma quiet_words:
  "FindAllString rule_rx ''0'' = []" "FindAllString rule_rx ''qname==a.no.'' = []" "FindAllString rule_rx ''in'' = []"
  by code_simp+


text \<open>A name that contains the word the pattern looks for is misread: here the address becomes that word.\<close>

lemma spoof_in_name_misread:
  "parse_line ''0 spoof.no:DC1 0 qname==spoof.no. spoof in 10.0.0.1'' =
     Some \<lparr>sp_FQDN = ''spoof.no'', sp_IP = ''spoof'', sp_DC = ''DC1''\<rparr>"
  by code_simp

section \<open>Reconciliation\<close>

text \<open>
  What the updater relies on of a dnsdist server, as a table from rule names to addresses: a rule whose
  name is new is added, and removing a rule by its name removes it.
\<close>

definition console_laws :: "'c Console \<Rightarrow> ('c \<Rightarrow> string \<Rightarrow> string option) \<Rightarrow> bool" where
  "console_laws co tbl \<longleftrightarrow>
     (\<forall>name fqdn ip c. tbl c name = None \<longrightarrow>
        fst (co_Add co name fqdn ip c) \<and> tbl (snd (co_Add co name fqdn ip c)) = (tbl c)(name \<mapsto> ip)) \<and>
     (\<forall>name c. fst (co_Rm co name c) \<and> tbl (snd (co_Rm co name c)) = (tbl c)(name := None))"

lemma console_Add:
  assumes "console_laws co tbl" "tbl c name = None"
  obtains c' where "co_Add co name fqdn ip c = (True, c')" "tbl c' = (tbl c)(name \<mapsto> ip)"
proof -
  have "fst (co_Add co name fqdn ip c)" "tbl (snd (co_Add co name fqdn ip c)) = (tbl c)(name \<mapsto> ip)"
    using assms by (simp_all add: console_laws_def del: fun_upd_apply)
  then show ?thesis using that by (cases "co_Add co name fqdn ip c") simp
qed

lemma console_Rm:
  assumes "console_laws co tbl"
  obtains c' where "co_Rm co name c = (True, c')" "tbl c' = (tbl c)(name := None)"
proof -
  have "fst (co_Rm co name c)" "tbl (snd (co_Rm co name c)) = (tbl c)(name := None)"
    using assms by (simp_all add: console_laws_def del: fun_upd_apply)
  then show ?thesis using that by (cases "co_Rm co name c") simp
qed

lemma contains_key: "ContainsFunc (\<lambda>x. spoof_Key x = k) xs \<longleftrightarrow> k \<in> spoof_Key ` set xs"
  by (force simp: ContainsFunc_def)

lemma remove_stale_table:
  assumes "console_laws co tbl"
  shows "\<exists>c'. remove_stale co gslb cs c = (Inr (), c') \<and>
    tbl c' = (\<lambda>k. if k \<in> spoof_Key ` set cs \<and> k \<notin> spoof_Key ` set gslb then None else tbl c k)"
proof (induction cs arbitrary: c)
  case (Cons s cs)
  show ?case
  proof (cases "spoof_Key s \<in> spoof_Key ` set gslb")
    case True
    obtain c' where c': "remove_stale co gslb cs c = (Inr (), c')"
      "tbl c' = (\<lambda>k. if k \<in> spoof_Key ` set cs \<and> k \<notin> spoof_Key ` set gslb then None else tbl c k)"
      using Cons.IH by blast
    have "ContainsFunc (\<lambda>x. spoof_Key x = spoof_Key s) gslb" by (simp only: contains_key True)
    then have "remove_stale co gslb (s # cs) c = (Inr (), c')" using c'(1) by simp
    moreover have "tbl c' = (\<lambda>k. if k \<in> spoof_Key ` set (s # cs) \<and> k \<notin> spoof_Key ` set gslb then None else tbl c k)"
      unfolding c'(2) using True by (intro ext) auto
    ultimately show ?thesis by blast
  next
    case False
    obtain c1 where c1: "co_Rm co (spoof_Key s) c = (True, c1)" "tbl c1 = (tbl c)(spoof_Key s := None)"
      by (rule console_Rm[OF assms])
    obtain c' where c': "remove_stale co gslb cs c1 = (Inr (), c')"
      "tbl c' = (\<lambda>k. if k \<in> spoof_Key ` set cs \<and> k \<notin> spoof_Key ` set gslb then None else tbl c1 k)"
      using Cons.IH by blast
    have "\<not> ContainsFunc (\<lambda>x. spoof_Key x = spoof_Key s) gslb" by (simp only: contains_key False not_False_eq_True)
    then have "remove_stale co gslb (s # cs) c = (Inr (), c')" using c'(1) c1(1) by simp
    moreover have "tbl c' = (\<lambda>k. if k \<in> spoof_Key ` set (s # cs) \<and> k \<notin> spoof_Key ` set gslb then None else tbl c k)"
      unfolding c'(2) c1(2) using False by (intro ext) simp
    ultimately show ?thesis by blast
  qed
qed simp

abbreviation address_of :: "Spoof list \<Rightarrow> string \<Rightarrow> string option" where
  "address_of ss \<equiv> map_of (map (\<lambda>s. (spoof_Key s, sp_IP s)) ss)"

lemma add_missing_table:
  assumes "console_laws co tbl"
  shows "distinct (map spoof_Key ss) \<Longrightarrow> \<forall>s \<in> set ss. spoof_Key s \<notin> spoof_Key ` set cs \<longrightarrow> tbl c (spoof_Key s) = None \<Longrightarrow>
    \<exists>c'. add_missing co cs ss c = (Inr (), c') \<and>
      tbl c' = (\<lambda>k. if k \<in> spoof_Key ` set cs then tbl c k
        else case address_of ss k of None \<Rightarrow> tbl c k | Some ip \<Rightarrow> Some ip)"
proof (induction ss arbitrary: c)
  case (Cons s ss)
  have ss: "distinct (map spoof_Key ss)" using Cons.prems(1) by simp
  show ?case
  proof (cases "spoof_Key s \<in> spoof_Key ` set cs")
    case True
    obtain c' where c': "add_missing co cs ss c = (Inr (), c')"
      "tbl c' = (\<lambda>k. if k \<in> spoof_Key ` set cs then tbl c k
        else case address_of ss k of None \<Rightarrow> tbl c k | Some ip \<Rightarrow> Some ip)"
      using Cons.IH[OF ss, of c] Cons.prems(2) by (meson list.set_intros(2))
    have "ContainsFunc (\<lambda>x. spoof_Key x = spoof_Key s) cs" by (simp only: contains_key True)
    then have "add_missing co cs (s # ss) c = (Inr (), c')" using c'(1) by simp
    moreover have "tbl c' = (\<lambda>k. if k \<in> spoof_Key ` set cs then tbl c k
        else case address_of (s # ss) k of None \<Rightarrow> tbl c k | Some ip \<Rightarrow> Some ip)"
      unfolding c'(2) using True by (intro ext) (auto simp del: image_iff)
    ultimately show ?thesis by blast
  next
    case False
    have "tbl c (spoof_Key s) = None" using Cons.prems(2) False by simp
    then obtain c1 where c1: "co_Add co (spoof_Key s) (sp_FQDN s) (sp_IP s) c = (True, c1)"
        "tbl c1 = (tbl c)(spoof_Key s \<mapsto> sp_IP s)"
      by (rule console_Add[OF assms])
    have fresh: "address_of ss (spoof_Key s) = None"
      using Cons.prems(1) by (simp add: map_of_eq_None_iff image_image)
    have "tbl c1 (spoof_Key x) = None" if "x \<in> set ss" "spoof_Key x \<notin> spoof_Key ` set cs" for x
    proof -
      have "spoof_Key x \<noteq> spoof_Key s" using imageI[OF that(1), of spoof_Key] Cons.prems(1)[simplified] by metis
      then show ?thesis using c1(2) Cons.prems(2) that by simp
    qed
    then obtain c' where c': "add_missing co cs ss c1 = (Inr (), c')"
      "tbl c' = (\<lambda>k. if k \<in> spoof_Key ` set cs then tbl c1 k
        else case address_of ss k of None \<Rightarrow> tbl c1 k | Some ip \<Rightarrow> Some ip)"
      using Cons.IH[OF ss, of c1] by blast
    have "\<not> ContainsFunc (\<lambda>x. spoof_Key x = spoof_Key s) cs" by (simp only: contains_key False not_False_eq_True)
    then have "add_missing co cs (s # ss) c = (Inr (), c')" using c'(1) c1(1) by simp
    moreover have "tbl c' = (\<lambda>k. if k \<in> spoof_Key ` set cs then tbl c k
        else case address_of (s # ss) k of None \<Rightarrow> tbl c k | Some ip \<Rightarrow> Some ip)"
    proof (rule ext)
      fix k show "tbl c' k = (if k \<in> spoof_Key ` set cs then tbl c k
        else case address_of (s # ss) k of None \<Rightarrow> tbl c k | Some ip \<Rightarrow> Some ip)"
        by (cases "k = spoof_Key s") (simp_all only: c'(2) c1(2) fresh False fun_upd_same fun_upd_other list.map
          map_of.simps fst_conv snd_conv option.case if_True if_False not_False_eq_True)
    qed
    ultimately show ?thesis by blast
  qed
qed (simp add: fun_eq_iff)

text \<open>A server for the witnesses: its state is its list of rules, printed a line each.\<close>

definition printing_console :: "(string \<times> string) list Console" where
  "printing_console = \<lparr>co_Add = (\<lambda>name fqdn ip c. (True, (name, ip) # c)),
     co_Rm = (\<lambda>name c. (True, filter (\<lambda>r. fst r \<noteq> name) c)),
     co_Show = (\<lambda>c. (Some (concat (map (\<lambda>(name, ip). ''0 '' @ name @ '' 0 qname== spoof in '' @ ip @ [CHR 0x0A]) c)), c))\<rparr>"

lemma map_of_without: "map_of (filter (\<lambda>r. fst r \<noteq> name) c) = (map_of c)(name := None)"
  by (induction c) auto

lemma printing_console_laws: "console_laws printing_console map_of"
  by (simp add: console_laws_def printing_console_def map_of_without del: fun_upd_apply)

lemma reconcile_table:
  assumes "console_laws co tbl" "spoof_ReadAll ops s = (Inr gslb, s')" "distinct (map spoof_Key gslb)"
    and "dom (tbl c) = spoof_Key ` set configured"
  shows "\<exists>c'. reconcileServer co ops configured (s, c) = (Inr (), s', c') \<and>
    tbl c' = (\<lambda>k. case map_of (map (\<lambda>x. (spoof_Key x, sp_IP x)) gslb) k of
      None \<Rightarrow> None | Some ip \<Rightarrow> (case tbl c k of None \<Rightarrow> Some ip | Some old \<Rightarrow> Some old))"
proof -
  obtain c1 where c1: "remove_stale co gslb configured c = (Inr (), c1)"
    "tbl c1 = (\<lambda>k. if k \<in> spoof_Key ` set configured \<and> k \<notin> spoof_Key ` set gslb then None else tbl c k)"
    using remove_stale_table[OF assms(1), of gslb configured c] by (cases "remove_stale co gslb configured c") simp
  have "\<forall>x \<in> set gslb. spoof_Key x \<notin> spoof_Key ` set configured \<longrightarrow> tbl c1 (spoof_Key x) = None"
    using assms(4) c1(2) by (auto simp: dom_def)
  then obtain c2 where c2: "add_missing co configured gslb c1 = (Inr (), c2)"
    "tbl c2 = (\<lambda>k. if k \<in> spoof_Key ` set configured then tbl c1 k
      else case map_of (map (\<lambda>x. (spoof_Key x, sp_IP x)) gslb) k of None \<Rightarrow> tbl c1 k | Some ip \<Rightarrow> Some ip)"
    using add_missing_table[OF assms(1,3), of configured c1] by (cases "add_missing co configured gslb c1") simp
  have key: "map_of (map (\<lambda>x. (spoof_Key x, sp_IP x)) gslb) k = None \<longleftrightarrow> k \<notin> spoof_Key ` set gslb" for k
    by (auto simp: map_of_eq_None_iff image_image)
  have "tbl c2 k = (case map_of (map (\<lambda>x. (spoof_Key x, sp_IP x)) gslb) k of
      None \<Rightarrow> None | Some ip \<Rightarrow> (case tbl c k of None \<Rightarrow> Some ip | Some old \<Rightarrow> Some old))" for k
  proof (cases "k \<in> spoof_Key ` set configured")
    case True
    then obtain old where "tbl c k = Some old" using assms(4) by (auto simp: dom_def)
    then show ?thesis using True c1(2) c2(2) key[of k] by (auto split: option.splits)
  next
    case False
    then have "tbl c k = None" using assms(4) by (auto simp: dom_def)
    then show ?thesis using False c1(2) c2(2) by (auto split: option.splits)
  qed
  then show ?thesis using c1(1) c2(1) assms(2) by (simp add: reconcileServer_def fun_eq_iff)
qed

text \<open>
  Reconciling a server whose rules were read correctly returns without error and leaves exactly one
  rule for every spoof of the store, by name; but a name that had a rule before keeps the address
  of that rule, whatever the store says.
\<close>

theorem reconcile_converges_by_name:
  assumes "console_laws co tbl" "spoof_ReadAll ops s = (Inr gslb, s')" "distinct (map spoof_Key gslb)"
    and "dom (tbl c) = spoof_Key ` set configured"
  shows "\<exists>c'. reconcileServer co ops configured (s, c) = (Inr (), s', c') \<and>
    tbl c' = (\<lambda>k. case map_of (map (\<lambda>x. (spoof_Key x, sp_IP x)) gslb) k of
      None \<Rightarrow> None | Some ip \<Rightarrow> (case tbl c k of None \<Rightarrow> Some ip | Some old \<Rightarrow> Some old))"
  by (rule reconcile_table[OF assms])

theorem reconcile_converges_by_name_witness:
  "\<exists>c'. reconcileServer printing_console (mem_ops []) [\<lparr>sp_FQDN = ''old'', sp_IP = ''1.1.1.1'', sp_DC = ''DC1''\<rparr>]
       ([(''example'', [stored ''a''])], [(''old:DC1'', ''1.1.1.1'')]) = (Inr (), [(''example'', [stored ''a''])], c') \<and>
     map_of c' ''old:DC1'' = None \<and> map_of c' ''example:DC1'' = Some ''10.0.0.1''"
proof -
  have "spoof_ReadAll (mem_ops []) [(''example'', [stored ''a''])] =
      (Inr [\<lparr>sp_FQDN = ''example'', sp_IP = ''10.0.0.1'', sp_DC = ''DC1''\<rparr>], [(''example'', [stored ''a''])])"
    by (simp add: spoof_ReadAll_def mem_defs active_spoofs_def toSpoof_def stored_def)
  from reconcile_converges_by_name[OF printing_console_laws this, of "[(''old:DC1'', ''1.1.1.1'')]" "[\<lparr>sp_FQDN = ''old'', sp_IP = ''1.1.1.1'', sp_DC = ''DC1''\<rparr>]"]
  show ?thesis by (auto simp: spoof_Key_def)
qed

section \<open>Addresses are not synchronised\<close>

lemma remove_stale_none:
  "spoof_Key ` set cs \<subseteq> spoof_Key ` set gslb \<Longrightarrow> remove_stale co gslb cs c = (Inr (), c)"
  by (induction cs) (auto simp: contains_key)

lemma add_missing_none:
  "spoof_Key ` set ss \<subseteq> spoof_Key ` set cs \<Longrightarrow> add_missing co cs ss c = (Inr (), c)"
  by (induction ss) (auto simp: contains_key)

lemma reconcile_same_keys:
  assumes "spoof_ReadAll ops s = (Inr gslb, s')" "spoof_Key ` set configured = spoof_Key ` set gslb"
  shows "reconcileServer co ops configured (s, c) = (Inr (), s', c)"
  using assms by (simp add: reconcileServer_def remove_stale_none add_missing_none)

lemma set_sort_spoofs [simp]: "set (sort_spoofs xs) = set xs"
  by (simp add: sort_spoofs_def)

text \<open>The names of the rules that the store asks for.\<close>

definition wanted :: "(string \<Rightarrow> GSLBServiceGroup option) \<Rightarrow> string set" where
  "wanted fm = (\<Union>k. (\<lambda>x. spoof_Key (toSpoof x)) ` {x \<in> set (group_in fm k). gs_IsActive x})"

lemma UN_support:
  "(\<And>k. k \<notin> S \<Longrightarrow> A k = {}) \<Longrightarrow> (\<And>k. k \<in> S \<Longrightarrow> A k = B k) \<Longrightarrow> (\<Union>k. A k) = (\<Union>k\<in>S. B k)"
  by (rule set_eqI) (metis UN_iff UNIV_I empty_iff)

lemma ReadAll_wanted:
  assumes "file_inv s"
  obtains gslb s' where "spoof_ReadAll (file_ops []) s = (Inr gslb, s')" "file_inv s'" "file_map s' = file_map s"
    "spoof_Key ` set gslb = wanted (file_map s)"
proof -
  obtain ks where ks: "set ks = dom (file_map s)"
    "fst (st_LoadAll (file_ops []) s) = Inr (map (\<lambda>k. the (file_map s k)) ks)"
    using fstore.LoadAll_ok[OF assms, of "[]"] by blast
  obtain s' where s': "st_LoadAll (file_ops []) s = (Inr (map (\<lambda>k. the (file_map s k)) ks), s')"
    using ks(2) by (cases "st_LoadAll (file_ops []) s") simp
  have "group_in (file_map s) k = []" if "k \<notin> set ks" for k
    using that ks(1) by (auto simp: group_in_def dom_def split: option.splits)
  moreover have "group_in (file_map s) k = the (file_map s k)" if "k \<in> set ks" for k
    using that ks(1) by (auto simp: group_in_def)
  ultimately have "wanted (file_map s) =
      (\<Union>k \<in> set ks. (\<lambda>x. spoof_Key (toSpoof x)) ` {x \<in> set (the (file_map s k)). gs_IsActive x})"
    unfolding wanted_def by (intro UN_support) simp_all
  then have "spoof_Key ` set (active_spoofs (map (\<lambda>k. the (file_map s k)) ks)) = wanted (file_map s)"
    by (simp add: active_spoofs_def image_UN image_image)
  moreover have "file_inv s'" "file_map s' = file_map s"
    using fstore.LoadAll_inv[OF assms, of "[]"] fstore.LoadAll_abs[OF assms, of "[]"] s' by simp_all
  ultimately show ?thesis using that s' by (simp add: spoof_ReadAll_def)
qed

definition rules_in_sync :: "'c Console \<Rightarrow> string set \<Rightarrow> 'c \<Rightarrow> bool" where
  "rules_in_sync co names c \<longleftrightarrow> (\<exists>raw. co_Show co c = (Some raw, c) \<and> spoof_Key ` set (ParseRuleSet raw) = names)"

lemma synchronize_each_in_sync:
  "file_inv s \<Longrightarrow> \<forall>c \<in> set cs. rules_in_sync co (wanted (file_map s)) c \<Longrightarrow>
    snd (synchronize_each digest co (file_ops []) h s cs) = cs"
proof (induction cs arbitrary: s)
  case (Cons c cs)
  obtain raw where raw: "co_Show co c = (Some raw, c)" "spoof_Key ` set (ParseRuleSet raw) = wanted (file_map s)"
    using Cons.prems(2) by (auto simp: rules_in_sync_def)
  obtain gslb s' where r: "spoof_ReadAll (file_ops []) s = (Inr gslb, s')" "file_inv s'" "file_map s' = file_map s"
    "spoof_Key ` set gslb = wanted (file_map s)" by (rule ReadAll_wanted[OF Cons.prems(1)])
  have "reconcileServer co (file_ops []) (sort_spoofs (ParseRuleSet raw)) (s, c) = (Inr (), s', c)"
    using raw(2) r(4) by (intro reconcile_same_keys[OF r(1)]) simp
  then have "synchronize_server digest co (file_ops []) h (s, c) = (s', c) \<or>
      synchronize_server digest co (file_ops []) h (s, c) = (s, c)"
    using raw(1) by (simp add: synchronize_server_def Let_def)
  then show ?case
    using Cons.IH[of s'] Cons.IH[of s] Cons.prems r(2,3) by (auto split: prod.splits)
qed simp

lemma synchronizeServers_in_sync:
  assumes "file_inv s" "\<forall>c \<in> set cs. rules_in_sync co (wanted (file_map s)) c"
  shows "\<exists>s'. synchronizeServers digest co (file_ops []) (s, cs) = (Inr (), s', cs)"
proof -
  obtain gslb s' where r: "spoof_ReadAll (file_ops []) s = (Inr gslb, s')" "file_inv s'" "file_map s' = file_map s"
    by (rule ReadAll_wanted[OF assms(1)])
  have "snd (synchronize_each digest co (file_ops []) (digest (sort_spoofs gslb)) s' cs) = cs"
    using assms(2) r(2,3) by (intro synchronize_each_in_sync) simp_all
  then show ?thesis
    using r(1) by (cases "synchronize_each digest co (file_ops []) (digest (sort_spoofs gslb)) s' cs")
      (simp add: synchronizeServers_def spoof_Hash_def)
qed

lemma wanted_update:
  assumes "distinct (map gs_ID (group_in fm k))" "a \<in> set (group_in fm k)" "IndexFunc (\<lambda>x. gs_ID x = gs_ID a) (group_in fm k) = Some i"
    and "gs_IsActive b = gs_IsActive a" "spoof_Key (toSpoof b) = spoof_Key (toSpoof a)"
  shows "wanted (fm(k \<mapsto> (group_in fm k)[i := b])) = wanted fm"
proof -
  let ?g = "group_in fm k" and ?v = "\<lambda>x. (gs_IsActive x, spoof_Key (toSpoof x))"
  have i: "i < length ?g" "gs_ID (?g ! i) = gs_ID a" using assms(3) by (auto simp: IndexFunc_Some)
  then have "?g ! i = a" using unique_id[OF assms(1) _ assms(2)] by simp
  then have "map ?v (?g[i := b]) = map ?v ?g" using i(1) assms(4,5) by (auto simp: map_update list_update_same_conv)
  then have "?v ` set (?g[i := b]) = ?v ` set ?g" by (metis list.set_map)
  moreover have split: "(\<lambda>x. spoof_Key (toSpoof x)) ` {x \<in> S. gs_IsActive x} = snd ` {p \<in> ?v ` S. fst p}" for S
    by force
  ultimately have "(\<lambda>x. spoof_Key (toSpoof x)) ` {x \<in> set (?g[i := b]). gs_IsActive x} =
      (\<lambda>x. spoof_Key (toSpoof x)) ` {x \<in> set ?g. gs_IsActive x}"
    by simp
  then have "(\<lambda>x. spoof_Key (toSpoof x)) ` {x \<in> set (group_in (fm(k \<mapsto> ?g[i := b])) k'). gs_IsActive x} =
      (\<lambda>x. spoof_Key (toSpoof x)) ` {x \<in> set (group_in fm k'). gs_IsActive x}" for k'
    by (cases "k' = k") (simp_all add: group_in_def)
  then show ?thesis by (simp only: wanted_def)
qed


lemma demo_rules_parsed:
  "ParseRuleSet (''0 example:DC1 0 qname== spoof in 10.0.0.1'' @ [CHR 0x0A]) =
     [\<lparr>sp_FQDN = ''example'', sp_IP = ''10.0.0.1'', sp_DC = ''DC1''\<rparr>]"
  by code_simp

lemma demo_wanted: "wanted (file_map (m_store demo_manager)) = {''example:DC1''}"
proof -
  have "file_map (m_store demo_manager) = [''example'' \<mapsto> demo_group]"
    by (simp add: demo_manager_def file_NewStore_def file_map_def)
  then have "group_in (file_map (m_store demo_manager)) k = (if k = ''example'' then demo_group else [])" for k
    by (simp add: group_in_def)
  then have "wanted (file_map (m_store demo_manager)) =
      (\<Union>k \<in> {''example''}. (\<lambda>x. spoof_Key (toSpoof x)) ` {x \<in> set demo_group. gs_IsActive x})"
    unfolding wanted_def by (intro UN_support) simp_all
  moreover have "{x \<in> set demo_group. gs_IsActive x} = {(toGSLBService (queue_services 0))\<lparr>gs_IsActive := True\<rparr>}"
    by (auto simp: demo_group_def toGSLBService_def)
  ultimately show ?thesis
    by (simp add: toGSLBService_def queue_services_def blank_service_def spoof_Key_def toSpoof_def)
qed


end
