(* ===== verification/WorkerPool.thy ===== *)
theory WorkerPool
  imports Prelude "HOL-Library.Multiset"
begin

text \<open>
  \<^verbatim>\<open>pkg/pool/pool.go\<close>: the worker pool that runs the health checks. Callers, workers and
  \<^verbatim>\<open>Stop\<close> run concurrently; a step relation interleaves them at the points where the code takes the
  lock, uses the channels or reads the atomic flag. A job that was taken by \<^verbatim>\<open>Put\<close> is somewhere: with
  the caller that still has to send it, in the buffer, with a worker, or done.
\<close>

section \<open>State\<close>

datatype 'j worker = Waiting | Working 'j | Exited

text \<open>
  A call of \<^verbatim>\<open>Put\<close> that has passed the check of \<^verbatim>\<open>closed\<close>: before \<^verbatim>\<open>scale\<close> looks at the buffer,
  before \<^verbatim>\<open>newWorker\<close>, or before the send.
\<close>

datatype 'j put_call = Scaling 'j | Growing 'j | Sending 'j

datatype stop_pc = NotStopped | AwaitingWorkers | Stopped

record 'j WorkerPool =
  wp_numRunningWorkers :: nat
  wp_minRunningWorkers :: nat
  wp_cap :: nat
  wp_jobs :: "'j list"
  wp_jobsClosed :: bool
  wp_started :: bool
  wp_stop :: stop_pc
  wp_quit :: bool
  wp_closed :: bool
  wp_workers :: "'j worker list"
  wp_puts :: "'j put_call list"
  wp_spawning :: nat
  wp_accepted :: "'j list"
  wp_done :: "'j list"
  wp_panicked :: bool

definition NewWorkerPool :: "nat \<Rightarrow> nat \<Rightarrow> 'j WorkerPool" where
  "NewWorkerPool minRunningWorkers nonBlockingBufferSize =
     \<lparr>wp_numRunningWorkers = 0, wp_minRunningWorkers = minRunningWorkers, wp_cap = nonBlockingBufferSize,
      wp_jobs = [], wp_jobsClosed = False, wp_started = False, wp_stop = NotStopped, wp_quit = False,
      wp_closed = True, wp_workers = [], wp_puts = [], wp_spawning = 0, wp_accepted = [], wp_done = [],
      wp_panicked = False\<rparr>"

definition Blocked :: "'j WorkerPool \<Rightarrow> bool" where
  "Blocked p \<longleftrightarrow> length (wp_jobs p) = wp_cap p"

definition newWorker :: "'j WorkerPool \<Rightarrow> 'j WorkerPool" where
  "newWorker p = p\<lparr>wp_numRunningWorkers := Suc (wp_numRunningWorkers p), wp_workers := wp_workers p @ [Waiting]\<rparr>"

text \<open>The pending calls of \<^verbatim>\<open>newWorker\<close> that \<^verbatim>\<open>Start\<close> and \<^verbatim>\<open>ScaleTo\<close> leave are \<open>wp_spawning\<close>.\<close>

definition pool_Start :: "'j WorkerPool \<Rightarrow> 'j WorkerPool" where
  "pool_Start p =
     (let p = p\<lparr>wp_closed := False\<rparr>
      in if wp_started p then p
         else p\<lparr>wp_started := True, wp_spawning := wp_spawning p + wp_minRunningWorkers p\<rparr>)"

definition ScaleTo :: "nat \<Rightarrow> 'j WorkerPool \<Rightarrow> 'j WorkerPool" where
  "ScaleTo targetWorkers p =
     (let p = p\<lparr>wp_minRunningWorkers := targetWorkers\<rparr>
      in if wp_numRunningWorkers p \<ge> targetWorkers then p
         else p\<lparr>wp_spawning := wp_spawning p + (targetWorkers - wp_numRunningWorkers p)\<rparr>)"

text \<open>A worker that leaves under the lock.\<close>

definition leave :: "nat \<Rightarrow> 'j WorkerPool \<Rightarrow> 'j WorkerPool" where
  "leave i p = p\<lparr>wp_numRunningWorkers := wp_numRunningWorkers p - 1, wp_workers := (wp_workers p)[i := Exited]\<rparr>"

section \<open>Steps\<close>

inductive pool_step :: "'j WorkerPool \<Rightarrow> 'j WorkerPool \<Rightarrow> bool" where
  start: "pool_step p (pool_Start p)"
| scale_to: "pool_step p (ScaleTo n p)"
| spawn: "wp_spawning p = Suc n \<Longrightarrow> pool_step p (newWorker (p\<lparr>wp_spawning := n\<rparr>))"
| put_check: "\<not> wp_closed p \<Longrightarrow>
    pool_step p (p\<lparr>wp_puts := wp_puts p @ [Scaling j], wp_accepted := wp_accepted p @ [j]\<rparr>)"
| put_scale: "i < length (wp_puts p) \<Longrightarrow> wp_puts p ! i = Scaling j \<Longrightarrow>
    pool_step p (p\<lparr>wp_puts := (wp_puts p)[i := (if Blocked p then Growing j else Sending j)]\<rparr>)"
| put_grow: "i < length (wp_puts p) \<Longrightarrow> wp_puts p ! i = Growing j \<Longrightarrow>
    pool_step p (newWorker (p\<lparr>wp_puts := (wp_puts p)[i := Sending j]\<rparr>))"
| put_send: "i < length (wp_puts p) \<Longrightarrow> wp_puts p ! i = Sending j \<Longrightarrow> \<not> wp_jobsClosed p \<Longrightarrow>
    length (wp_jobs p) < wp_cap p \<Longrightarrow>
    pool_step p (p\<lparr>wp_puts := take i (wp_puts p) @ drop (Suc i) (wp_puts p), wp_jobs := wp_jobs p @ [j]\<rparr>)"
| put_handoff: "i < length (wp_puts p) \<Longrightarrow> wp_puts p ! i = Sending j \<Longrightarrow> \<not> wp_jobsClosed p \<Longrightarrow>
    wp_jobs p = [] \<Longrightarrow> w < length (wp_workers p) \<Longrightarrow> wp_workers p ! w = Waiting \<Longrightarrow>
    pool_step p (p\<lparr>wp_puts := take i (wp_puts p) @ drop (Suc i) (wp_puts p),
      wp_workers := (wp_workers p)[w := Working j]\<rparr>)"
| put_panic: "i < length (wp_puts p) \<Longrightarrow> wp_puts p ! i = Sending j \<Longrightarrow> wp_jobsClosed p \<Longrightarrow>
    pool_step p (p\<lparr>wp_panicked := True\<rparr>)"
| receive: "w < length (wp_workers p) \<Longrightarrow> wp_workers p ! w = Waiting \<Longrightarrow> wp_jobs p = j # js \<Longrightarrow>
    pool_step p (p\<lparr>wp_workers := (wp_workers p)[w := Working j], wp_jobs := js\<rparr>)"
| receive_closed: "w < length (wp_workers p) \<Longrightarrow> wp_workers p ! w = Waiting \<Longrightarrow> wp_jobsClosed p \<Longrightarrow>
    wp_jobs p = [] \<Longrightarrow> pool_step p (p\<lparr>wp_workers := (wp_workers p)[w := Exited]\<rparr>)"
| finish: "w < length (wp_workers p) \<Longrightarrow> wp_workers p ! w = Working j \<Longrightarrow>
    pool_step p (p\<lparr>wp_workers := (wp_workers p)[w := Waiting], wp_done := wp_done p @ [j]\<rparr>)"
| quit: "w < length (wp_workers p) \<Longrightarrow> wp_workers p ! w = Waiting \<Longrightarrow> wp_quit p \<Longrightarrow> pool_step p (leave w p)"
| idle: "w < length (wp_workers p) \<Longrightarrow> wp_workers p ! w = Waiting \<Longrightarrow>
    wp_numRunningWorkers p > wp_minRunningWorkers p \<Longrightarrow> pool_step p (leave w p)"
| stop_quit: "wp_stop p = NotStopped \<Longrightarrow>
    pool_step p (p\<lparr>wp_stop := AwaitingWorkers, wp_closed := True, wp_quit := True\<rparr>)"
| stop_close: "wp_stop p = AwaitingWorkers \<Longrightarrow> \<forall>w \<in> set (wp_workers p). w = Exited \<Longrightarrow>
    pool_step p (p\<lparr>wp_stop := Stopped, wp_jobsClosed := True\<rparr>)"

abbreviation pool_steps :: "'j WorkerPool \<Rightarrow> 'j WorkerPool \<Rightarrow> bool" where
  "pool_steps \<equiv> pool_step\<^sup>*\<^sup>*"

section \<open>Where the jobs are\<close>

fun put_job :: "'j put_call \<Rightarrow> 'j" where
  "put_job (Scaling j) = j" | "put_job (Growing j) = j" | "put_job (Sending j) = j"

fun worker_jobs :: "'j worker \<Rightarrow> 'j multiset" where
  "worker_jobs (Working j) = {#j#}" | "worker_jobs Waiting = {#}" | "worker_jobs Exited = {#}"

definition jobs_of_workers :: "'j worker list \<Rightarrow> 'j multiset" where
  "jobs_of_workers ws = sum_list (map worker_jobs ws)"

definition live :: "'j worker list \<Rightarrow> nat" where
  "live ws = length (filter (\<lambda>w. w \<noteq> Exited) ws)"

definition jobs_conserved :: "'j WorkerPool \<Rightarrow> bool" where
  "jobs_conserved p \<longleftrightarrow>
     mset (map put_job (wp_puts p)) + mset (wp_jobs p) + jobs_of_workers (wp_workers p) + mset (wp_done p) =
     mset (wp_accepted p)"

definition workers_counted :: "'j WorkerPool \<Rightarrow> bool" where
  "workers_counted p \<longleftrightarrow>
     (if wp_jobsClosed p then live (wp_workers p) \<le> wp_numRunningWorkers p
      else live (wp_workers p) = wp_numRunningWorkers p) \<and>
     (wp_started p \<and> \<not> wp_quit p \<longrightarrow> wp_minRunningWorkers p \<le> wp_numRunningWorkers p + wp_spawning p) \<and>
     (wp_quit p \<longleftrightarrow> wp_stop p \<noteq> NotStopped) \<and> (wp_jobsClosed p \<longleftrightarrow> wp_stop p = Stopped)"

definition pool_inv :: "'j WorkerPool \<Rightarrow> bool" where
  "pool_inv p \<longleftrightarrow> jobs_conserved p \<and> workers_counted p \<and> length (wp_jobs p) \<le> wp_cap p"

lemma jobs_of_workers_simps [simp]:
  "jobs_of_workers [] = {#}" "jobs_of_workers (w # ws) = worker_jobs w + jobs_of_workers ws"
  "jobs_of_workers (ws @ vs) = jobs_of_workers ws + jobs_of_workers vs"
  by (simp_all add: jobs_of_workers_def)

lemma live_simps [simp]:
  "live [] = 0" "live (w # ws) = (if w = Exited then 0 else 1) + live ws" "live (ws @ vs) = live ws + live vs"
  by (simp_all add: live_def)

text \<open>Replacing one worker changes the jobs at work and the number alive by that worker's share.\<close>

lemma update_worker:
  assumes "w < length ws"
  shows "jobs_of_workers (ws[w := x]) + worker_jobs (ws ! w) = jobs_of_workers ws + worker_jobs x"
    "live (ws[w := x]) + (if ws ! w = Exited then 0 else 1) = live ws + (if x = Exited then 0 else 1)"
  using assms
proof (induction ws arbitrary: w)
  case (Cons a ws)
  { case 1
    then show ?case
    proof (cases w)
      case (Suc n)
      then show ?thesis using Cons.IH(1)[of n] 1 by (simp add: add.assoc)
    qed (simp add: ac_simps) }
  { case 2
    then show ?case
    proof (cases w)
      case (Suc n)
      then show ?thesis using Cons.IH(2)[of n] 2 by (simp add: add.assoc)
    qed simp }
qed simp_all

lemma update_put: "i < length ps \<Longrightarrow> put_job (ps ! i) = put_job x \<Longrightarrow> map put_job (ps[i := x]) = map put_job ps"
  by (metis list_update_id map_update)

lemma remove_put:
  assumes "i < length ps"
  shows "image_mset put_job (mset ps) =
    add_mset (put_job (ps ! i)) (image_mset put_job (mset (take i ps)) + image_mset put_job (mset (drop (Suc i) ps)))"
proof -
  have "map put_job ps = map put_job (take i ps) @ put_job (ps ! i) # map put_job (drop (Suc i) ps)"
    by (metis assms id_take_nth_drop list.simps(9) map_append)
  then show ?thesis by (metis mset_append mset_map mset.simps(2) union_mset_add_mset_right)
qed

section \<open>The invariant\<close>

lemma pool_inv_spawn:
  assumes "pool_inv p" "wp_spawning p = Suc n"
  shows "pool_inv (newWorker (p\<lparr>wp_spawning := n\<rparr>))"
  using assms by (simp add: pool_inv_def jobs_conserved_def workers_counted_def newWorker_def)

lemma pool_step_inv: "pool_step p p' \<Longrightarrow> pool_inv p \<Longrightarrow> pool_inv p'"
proof (induction rule: pool_step.induct)
  case (start p)
  then show ?case
    by (simp add: pool_inv_def jobs_conserved_def workers_counted_def pool_Start_def Let_def)
next
  case (scale_to p n)
  then show ?case
    by (simp add: pool_inv_def jobs_conserved_def workers_counted_def ScaleTo_def Let_def)
next
  case (spawn p n)
  then show ?case by (simp add: pool_inv_spawn)
next
  case (put_check p j)
  then show ?case by (simp add: pool_inv_def jobs_conserved_def workers_counted_def)
next
  case (put_scale i p j)
  then show ?case
    by (simp add: pool_inv_def jobs_conserved_def workers_counted_def update_put)
next
  case (put_grow i p j)
  then show ?case
    by (auto simp: pool_inv_def jobs_conserved_def workers_counted_def newWorker_def update_put split: if_splits)
next
  case (put_send i p j)
  then show ?case
    using remove_put[of i "wp_puts p"] 
    by (simp add: pool_inv_def jobs_conserved_def workers_counted_def)
next
  case (put_handoff i p j w)
  then show ?case
    using remove_put[of i "wp_puts p"] update_worker[of w "wp_workers p" "Working j"]
    by (simp add: pool_inv_def jobs_conserved_def workers_counted_def)
next
  case (put_panic i p j)
  then show ?case by (simp add: pool_inv_def jobs_conserved_def workers_counted_def)
next
  case (receive w p j js)
  then show ?case
    using update_worker[of w "wp_workers p" "Working j"]
    by (simp add: pool_inv_def jobs_conserved_def workers_counted_def)
next
  case (receive_closed w p)
  then show ?case
    using update_worker[of w "wp_workers p" Exited]
    by (simp add: pool_inv_def jobs_conserved_def workers_counted_def)
next
  case (finish w p j)
  then have "jobs_of_workers (wp_workers p) = add_mset j (jobs_of_workers ((wp_workers p)[w := Waiting]))"
    "live ((wp_workers p)[w := Waiting]) = live (wp_workers p)"
    using update_worker[of w "wp_workers p" Waiting] by simp_all
  with finish show ?case
    by (simp add: pool_inv_def jobs_conserved_def workers_counted_def)
next
  case (quit w p)
  then show ?case
    using update_worker[of w "wp_workers p" Exited]
    by (auto simp: pool_inv_def jobs_conserved_def workers_counted_def leave_def split: if_splits)
next
  case (idle w p)
  then show ?case
    using update_worker[of w "wp_workers p" Exited]
    by (auto simp: pool_inv_def jobs_conserved_def workers_counted_def leave_def split: if_splits)
next
  case (stop_quit p)
  then show ?case by (auto simp: pool_inv_def jobs_conserved_def workers_counted_def split: if_splits)
next
  case (stop_close p)
  then show ?case by (auto simp: pool_inv_def jobs_conserved_def workers_counted_def split: if_splits)
qed

lemma NewWorkerPool_inv: "pool_inv (NewWorkerPool n b)"
  by (simp add: NewWorkerPool_def pool_inv_def jobs_conserved_def workers_counted_def)

lemma pool_steps_inv: "pool_steps p p' \<Longrightarrow> pool_inv p \<Longrightarrow> pool_inv p'"
  by (induction rule: rtranclp_induct) (auto intro: pool_step_inv)

section \<open>Properties\<close>


text \<open>A pool with one worker that has accepted one job and put it into its buffer.\<close>

definition buffered :: "nat \<Rightarrow> 'j \<Rightarrow> 'j WorkerPool" where
  "buffered b j = (newWorker (pool_Start (NewWorkerPool 1 (Suc b))))\<lparr>wp_spawning := 0, wp_jobs := [j], wp_accepted := [j]\<rparr>"


lemma step_to: "pool_step p p' \<Longrightarrow> p' = p'' \<Longrightarrow> pool_step p p''"
  by simp

lemmas pool_defs = buffered_def newWorker_def pool_Start_def NewWorkerPool_def Blocked_def leave_def

text \<open>The one worker is up and a caller has passed the check.\<close>

definition calling :: "nat \<Rightarrow> 'j \<Rightarrow> 'j WorkerPool" where
  "calling b j = (buffered b j)\<lparr>wp_jobs := [], wp_puts := [Sending j]\<rparr>"

lemma calling_reachable: "pool_steps (NewWorkerPool 1 (Suc b)) (calling b j)"
proof -
  let ?p0 = "NewWorkerPool 1 (Suc b) :: 'a WorkerPool"
  let ?p1 = "pool_Start ?p0"
  let ?p2 = "newWorker (?p1\<lparr>wp_spawning := 0\<rparr>)"
  let ?p3 = "?p2\<lparr>wp_puts := [Scaling j], wp_accepted := [j]\<rparr>"
  have "pool_step ?p0 ?p1" by (rule pool_step.start)
  moreover have "pool_step ?p1 ?p2" by (rule pool_step.spawn) (simp add: pool_defs)
  moreover have "pool_step ?p2 ?p3" by (rule step_to[OF pool_step.put_check[of _ j]]) (simp_all add: pool_defs)
  moreover have "pool_step ?p3 (calling b j)"
    by (rule step_to[OF pool_step.put_scale[of 0 _ j]]) (simp_all add: pool_defs calling_def)
  ultimately show ?thesis by (meson converse_rtranclp_into_rtranclp rtranclp.rtrancl_refl)
qed

text \<open>Stopping a pool whose one worker waits, whatever the buffer holds.\<close>

lemma stop_run:
  assumes "wp_workers p = [Waiting]" "wp_stop p = NotStopped"
  shows "pool_steps p ((leave 0 p)\<lparr>wp_stop := Stopped, wp_jobsClosed := True, wp_closed := True, wp_quit := True\<rparr>)"
proof -
  let ?p1 = "p\<lparr>wp_stop := AwaitingWorkers, wp_closed := True, wp_quit := True\<rparr>"
  have "pool_step p ?p1" using assms(2) by (rule pool_step.stop_quit)
  moreover have "pool_step ?p1 (leave 0 ?p1)" by (rule pool_step.quit) (simp_all add: assms(1))
  moreover have "pool_step (leave 0 ?p1)
      ((leave 0 p)\<lparr>wp_stop := Stopped, wp_jobsClosed := True, wp_closed := True, wp_quit := True\<rparr>)"
    by (rule step_to[OF pool_step.stop_close]) (simp_all add: leave_def assms(1))
  ultimately show ?thesis by (meson converse_rtranclp_into_rtranclp rtranclp.rtrancl_refl)
qed

text \<open>
  C23. \<^verbatim>\<open>Stop\<close> is not safe against a \<^verbatim>\<open>Put\<close> that has passed its check. With one worker and a buffer,
  there is a run in which the accepted job is still in the buffer when \<^verbatim>\<open>Stop\<close> has returned and no
  worker is left, and there is a run in which the caller then sends on the closed channel and
  panics.
\<close>

theorem stop_races_with_put:
  "(\<exists>p. pool_steps (NewWorkerPool 1 (Suc b)) p \<and> wp_stop p = Stopped \<and> wp_accepted p = [j] \<and> wp_done p = [] \<and>
      wp_jobs p = [j] \<and> wp_puts p = [] \<and> wp_spawning p = 0 \<and> live (wp_workers p) = 0) \<and>
   (\<exists>p. pool_steps (NewWorkerPool 1 (Suc b)) p \<and> wp_accepted p = [j] \<and> wp_panicked p)"
proof
  let ?stopped = "\<lambda>p. (leave 0 p)\<lparr>wp_stop := Stopped, wp_jobsClosed := True, wp_closed := True, wp_quit := True\<rparr>"
  have "pool_step (calling b j) (buffered b j)"
    by (rule step_to[OF pool_step.put_send[of 0 _ j]]) (simp_all add: pool_defs calling_def)
  moreover have "pool_steps (buffered b j) (?stopped (buffered b j))"
    by (rule stop_run) (simp_all add: pool_defs)
  ultimately have "pool_steps (NewWorkerPool 1 (Suc b)) (?stopped (buffered b j))"
    using calling_reachable[of b j] by (meson rtranclp_trans r_into_rtranclp)
  then show "\<exists>p. pool_steps (NewWorkerPool 1 (Suc b)) p \<and> wp_stop p = Stopped \<and> wp_accepted p = [j] \<and> wp_done p = [] \<and>
      wp_jobs p = [j] \<and> wp_puts p = [] \<and> wp_spawning p = 0 \<and> live (wp_workers p) = 0"
    by (intro exI[of _ "?stopped (buffered b j)"]) (simp add: pool_defs)
  have "pool_steps (calling b j) (?stopped (calling b j))"
    by (rule stop_run) (simp_all add: pool_defs calling_def)
  moreover have "pool_step (?stopped (calling b j)) ((?stopped (calling b j))\<lparr>wp_panicked := True\<rparr>)"
    by (rule pool_step.put_panic[of 0 _ j]) (simp_all add: pool_defs calling_def)
  ultimately have "pool_steps (NewWorkerPool 1 (Suc b)) ((?stopped (calling b j))\<lparr>wp_panicked := True\<rparr>)"
    using calling_reachable[of b j] by (meson rtranclp_trans r_into_rtranclp)
  then show "\<exists>p. pool_steps (NewWorkerPool 1 (Suc b)) p \<and> wp_accepted p = [j] \<and> wp_panicked p"
    by (intro exI[of _ "(?stopped (calling b j))\<lparr>wp_panicked := True\<rparr>"]) (simp add: pool_defs calling_def)
qed

end
