(* ===== verification/DnsClient.thy ===== *)
theory DnsClient
  imports Prelude "HOL-Library.Word"
begin

unbundle bit_operations_syntax

text \<open>
  \<^verbatim>\<open>pkg/dnsdist/client.go\<close>: the client of dnsdist's encrypted console. The connection, the random
  generator and the third-party encryption (\<^verbatim>\<open>secretbox\<close>) are the parameters collected in \<open>Net\<close>, over
  a state \<open>'w\<close> of the world outside. \<^verbatim>\<open>connect\<close>, \<^verbatim>\<open>reconnect\<close> and \<^verbatim>\<open>command\<close> call each other; the model
  counts the depth of those calls in a fuel, and \<open>None\<close> is running out of it.
\<close>

section \<open>Nonces\<close>

type_synonym byte = "8 word"

definition KEY_LEN :: nat where "KEY_LEN = 32"
definition NONCE_LEN :: nat where "NONCE_LEN = 24"

definition putUint32 :: "32 word \<Rightarrow> byte list" where
  "putUint32 v = [ucast (drop_bit 24 v), ucast (drop_bit 16 v), ucast (drop_bit 8 v), ucast v]"

definition getUint32 :: "byte list \<Rightarrow> 32 word" where
  "getUint32 bs = push_bit 24 (ucast (bs ! 0)) OR push_bit 16 (ucast (bs ! 1)) OR
     push_bit 8 (ucast (bs ! 2)) OR ucast (bs ! 3)"

definition incrementNonce :: "byte list \<Rightarrow> byte list" where
  "incrementNonce nonce = putUint32 (getUint32 (take 4 nonce) + 1) @ drop 4 nonce"

section \<open>Client\<close>

datatype client_error = ErrCouldNotParseAddr | ErrWhileCreatingConnection | ErrCouldNotWrite
  | ErrCouldNotRead | ErrReceivedInvalidNonce | ErrCouldNotSendCommand client_error
  | ErrHandShakeNotValid | ErrCouldNotDecrypt | ErrCommandFailed | Joined client_error client_error

record 'w Net =
  nw_resolve :: bool
  nw_dial :: "'w \<Rightarrow> bool \<times> 'w"
  nw_write :: "byte list \<Rightarrow> 'w \<Rightarrow> bool \<times> 'w"
  nw_read :: "nat \<Rightarrow> 'w \<Rightarrow> byte list option \<times> 'w"
  nw_readFull :: "nat \<Rightarrow> 'w \<Rightarrow> byte list option \<times> 'w"
  nw_close :: "'w \<Rightarrow> 'w"
  nw_rand :: "'w \<Rightarrow> byte list option \<times> 'w"
  sb_seal :: "byte list \<Rightarrow> byte list \<Rightarrow> byte list \<Rightarrow> byte list"
  sb_open :: "byte list \<Rightarrow> byte list \<Rightarrow> byte list \<Rightarrow> byte list option"

record Client =
  cl_conn :: bool
  cl_key :: "byte list"
  cl_retries :: nat
  cl_cNonce :: "byte list"
  cl_sNonce :: "byte list"
  cl_wNonce :: "byte list"
  cl_rNonce :: "byte list"

text \<open>\<^verbatim>\<open>generateClientNonce\<close> drops the error of the random generator and uses zeroes then.\<close>

definition generateClientNonce :: "'w Net \<Rightarrow> Client \<times> 'w \<Rightarrow> Client \<times> 'w" where
  "generateClientNonce net = (\<lambda>(c, w).
     let (bytes, w) = nw_rand net w
     in (c\<lparr>cl_cNonce := (case bytes of Some bs \<Rightarrow> bs | None \<Rightarrow> replicate NONCE_LEN 0)\<rparr>, w))"

datatype new_error = ErrUnSuccessFullBase64Decode

text \<open>The key is what base64 decoding makes of the configured string.\<close>

definition NewClient :: "'w Net \<Rightarrow> byte list option \<Rightarrow> nat \<Rightarrow> 'w \<Rightarrow> (new_error + Client) \<times> 'w" where
  "NewClient net xKey retries w =
     (case xKey of
        None \<Rightarrow> (Inl ErrUnSuccessFullBase64Decode, w)
      | Some k \<Rightarrow>
          if length k \<noteq> KEY_LEN then (Inl ErrUnSuccessFullBase64Decode, w)
          else
            let zero = replicate NONCE_LEN 0;
                (c, w) = generateClientNonce net (\<lparr>cl_conn = False, cl_key = k, cl_retries = 1, cl_cNonce = zero,
                  cl_sNonce = zero, cl_wNonce = zero, cl_rNonce = zero\<rparr>, w)
            in (Inr (c\<lparr>cl_retries := retries\<rparr>), w))"

definition encrypt :: "'w Net \<Rightarrow> byte list \<Rightarrow> Client \<Rightarrow> byte list \<times> Client" where
  "encrypt net cmd c =
     (sb_seal net (cl_key c) (cl_wNonce c) cmd, c\<lparr>cl_wNonce := incrementNonce (cl_wNonce c)\<rparr>)"

definition decrypt :: "'w Net \<Rightarrow> byte list \<Rightarrow> Client \<Rightarrow> byte list option \<times> Client" where
  "decrypt net data c =
     (case sb_open net (cl_key c) (cl_rNonce c) data of
        None \<Rightarrow> (None, c)
      | Some m \<Rightarrow> (Some m, c\<lparr>cl_rNonce := incrementNonce (cl_rNonce c)\<rparr>))"

definition sendCommand :: "'w Net \<Rightarrow> byte list \<Rightarrow> Client \<times> 'w \<Rightarrow> (client_error + byte list) \<times> Client \<times> 'w" where
  "sendCommand net cmd = (\<lambda>(c, w).
     let (encoded, c) = encrypt net cmd c;
         (ok, w) = nw_write net (putUint32 (of_nat (length encoded))) w
     in if \<not> ok then (Inl ErrCouldNotWrite, c, w)
     else let (ok, w) = nw_write net encoded w
     in if \<not> ok then (Inl ErrCouldNotWrite, c, w)
     else (case nw_readFull net 4 w of
         (None, w) \<Rightarrow> (Inl ErrCouldNotRead, c, w)
       | (Some bufferLen, w) \<Rightarrow>
           (case nw_readFull net (unat (getUint32 bufferLen)) w of
              (None, w) \<Rightarrow> (Inl ErrCouldNotRead, c, w)
            | (Some receiveBuffer, w) \<Rightarrow>
                (case decrypt net receiveBuffer c of
                   (None, c) \<Rightarrow> (Inl ErrCouldNotDecrypt, c, w)
                 | (Some decrypted, c) \<Rightarrow> (Inr decrypted, c, w)))))"

text \<open>\<^verbatim>\<open>connect\<close> up to the command that tests the handshake.\<close>

definition handshake :: "'w Net \<Rightarrow> Client \<times> 'w \<Rightarrow> (client_error + unit) \<times> Client \<times> 'w" where
  "handshake net = (\<lambda>(c, w).
     if \<not> nw_resolve net then (Inl ErrCouldNotParseAddr, c, w)
     else let (ok, w) = nw_dial net w; c = c\<lparr>cl_conn := ok\<rparr>
     in if \<not> ok then (Inl ErrWhileCreatingConnection, c, w)
     else let (ok, w) = nw_write net (cl_cNonce c) w
     in if \<not> ok then (Inl ErrCouldNotWrite, c, w)
     else (case nw_read net NONCE_LEN w of
         (None, w) \<Rightarrow> (Inl ErrCouldNotRead, c, w)
       | (Some buffer, w) \<Rightarrow>
           if length buffer \<noteq> NONCE_LEN then (Inl ErrReceivedInvalidNonce, c, w)
           else
             let halfNonce = NONCE_LEN div 2
             in (Inr (), c\<lparr>cl_sNonce := buffer,
                   cl_rNonce := take halfNonce (cl_cNonce c) @ drop halfNonce buffer,
                   cl_wNonce := take halfNonce buffer @ drop halfNonce (cl_cNonce c)\<rparr>, w)))"

text \<open>The retry loop of \<^verbatim>\<open>command\<close>, given what reconnecting does.\<close>

fun retry_loop ::
  "'w Net \<Rightarrow> (Client \<times> 'w \<Rightarrow> ((client_error + unit) \<times> Client \<times> 'w) option) \<Rightarrow> byte list \<Rightarrow> nat \<Rightarrow>
   client_error \<Rightarrow> Client \<times> 'w \<Rightarrow> ((client_error + byte list) \<times> Client \<times> 'w) option" where
  "retry_loop net recon cmd 0 err s = Some (Inl err, s)"
| "retry_loop net recon cmd (Suc left) err s =
     (case recon s of
        None \<Rightarrow> None
      | Some (Inl recErr, s) \<Rightarrow> retry_loop net recon cmd left (Joined err recErr) s
      | Some (Inr _, s) \<Rightarrow>
          (case sendCommand net cmd s of
             (Inl err, s) \<Rightarrow> retry_loop net recon cmd left err s
           | (Inr response, s) \<Rightarrow> Some (Inr response, s)))"

fun connect :: "nat \<Rightarrow> 'w Net \<Rightarrow> Client \<times> 'w \<Rightarrow> ((client_error + unit) \<times> Client \<times> 'w) option"
and reconnect :: "nat \<Rightarrow> 'w Net \<Rightarrow> Client \<times> 'w \<Rightarrow> ((client_error + unit) \<times> Client \<times> 'w) option"
and dnsdist_command :: "nat \<Rightarrow> 'w Net \<Rightarrow> byte list \<Rightarrow> Client \<times> 'w \<Rightarrow> ((client_error + byte list) \<times> Client \<times> 'w) option" where
  "connect 0 net s = None"
| "connect (Suc n) net s =
     (case handshake net s of
        (Inl e, s) \<Rightarrow> Some (Inl e, s)
      | (Inr _, s) \<Rightarrow>
          (case dnsdist_command n net [] s of
             None \<Rightarrow> None
           | Some (Inl e, s) \<Rightarrow> Some (Inl (ErrCouldNotSendCommand e), s)
           | Some (Inr resp, s) \<Rightarrow>
               if resp \<noteq> [] then Some (Inl ErrHandShakeNotValid, s) else Some (Inr (), s)))"
| "reconnect 0 net s = None"
| "reconnect (Suc n) net s =
     (let (c, w) = s; (c, w) = (if cl_conn c then (c\<lparr>cl_conn := False\<rparr>, nw_close net w) else (c, w))
      in connect n net (generateClientNonce net (c, w)))"
| "dnsdist_command 0 net cmd s = None"
| "dnsdist_command (Suc n) net cmd s =
     (case (if cl_conn (fst s) then Some (Inr (), s) else connect n net s) of
        None \<Rightarrow> None
      | Some (Inl e, s) \<Rightarrow> Some (Inl e, s)
      | Some (Inr _, s) \<Rightarrow>
          (case sendCommand net cmd s of
             (Inr response, s) \<Rightarrow> Some (Inr response, s)
           | (Inl err, s) \<Rightarrow> retry_loop net (reconnect n net) cmd (cl_retries (fst s)) err s))"

definition Disconnect :: "'w Net \<Rightarrow> Client \<times> 'w \<Rightarrow> Client \<times> 'w" where
  "Disconnect net = (\<lambda>(c, w). if cl_conn c then (c, nw_close net w) else (c, w))"

section \<open>Commands\<close>

text \<open>A string as the bytes that are sent. ASCII letters are lowered as \<^verbatim>\<open>strings.ToLower\<close> does.\<close>

definition bytes :: "string \<Rightarrow> byte list" where
  "bytes = map of_char"

definition lower :: "byte \<Rightarrow> byte" where
  "lower b = (if 65 \<le> b \<and> b \<le> 90 then b + 32 else b)"

fun contains :: "'a list \<Rightarrow> 'a list \<Rightarrow> bool" where
  "contains sub [] = (sub = [])"
| "contains sub (x # xs) = (take (length sub) (x # xs) = sub \<or> contains sub xs)"

definition Must :: "client_error + byte list \<Rightarrow> client_error option" where
  "Must r = (case r of
     Inl e \<Rightarrow> Some e
   | Inr resp \<Rightarrow> if contains (bytes ''error'') (map lower resp) then Some ErrCommandFailed else None)"

definition must_command ::
  "nat \<Rightarrow> 'w Net \<Rightarrow> string \<Rightarrow> Client \<times> 'w \<Rightarrow> (client_error option \<times> Client \<times> 'w) option" where
  "must_command fuel net cmd s = map_option (\<lambda>(r, s). (Must r, s)) (dnsdist_command fuel net (bytes cmd) s)"

definition quoted :: "string \<Rightarrow> string" where
  "quoted s = [CHR 0x27] @ s @ [CHR 0x27]"

definition AddDomainSpoof where
  "AddDomainSpoof fuel net ruleName domain ip =
     must_command fuel net (''addAction(QNameRule('' @ quoted domain @ ''), SpoofAction({'' @ quoted ip @
       ''}, {ttl=3600}), {name='' @ quoted ruleName @ ''})'')"

definition RmRuleWithName where
  "RmRuleWithName fuel net ruleName = must_command fuel net (''rmRule('' @ quoted ruleName @ '')'')"

definition ShowRules where
  "ShowRules fuel net = dnsdist_command fuel net (bytes ''showRules()'')"

section \<open>The mock server\<close>

text \<open>
  \<^verbatim>\<open>pkg/dnsdist/mock_server.go\<close> holds the other end of the protocol. A connection of the server is
  a buffer of received bytes, of bytes sent back and a phase; \<open>serve\<close> runs the server as far as the
  received bytes allow.
\<close>

datatype server_phase = AwaitNonce | AwaitLength | AwaitCommand nat | Closed

record MockConn =
  mc_phase :: server_phase
  mc_in :: "byte list"
  mc_out :: "byte list"
  mc_sNonce :: "byte list"
  mc_rNonce :: "byte list"
  mc_wNonce :: "byte list"

record MockServer =
  ms_key :: "byte list"
  ms_handlers :: "(byte list, byte list \<Rightarrow> byte list) gomap"
  ms_seal :: "byte list \<Rightarrow> byte list \<Rightarrow> byte list \<Rightarrow> byte list"
  ms_open :: "byte list \<Rightarrow> byte list \<Rightarrow> byte list \<Rightarrow> byte list option"

definition getResponse :: "MockServer \<Rightarrow> byte list \<Rightarrow> byte list" where
  "getResponse ms cmd = (case mget (ms_handlers ms) cmd of Some handler \<Rightarrow> handler cmd | None \<Rightarrow> [])"

definition sendResponse :: "MockServer \<Rightarrow> byte list \<Rightarrow> MockConn \<Rightarrow> MockConn" where
  "sendResponse ms response mc =
     (let encrypted = ms_seal ms (ms_key ms) (mc_wNonce mc) response
      in mc\<lparr>mc_wNonce := incrementNonce (mc_wNonce mc),
            mc_out := mc_out mc @ putUint32 (of_nat (length encrypted)) @ encrypted\<rparr>)"

function serve :: "MockServer \<Rightarrow> MockConn \<Rightarrow> MockConn" where
  "serve ms mc =
     (case mc_phase mc of
        AwaitNonce \<Rightarrow>
          if length (mc_in mc) < NONCE_LEN then mc
          else
            let cNonce = take NONCE_LEN (mc_in mc); sNonce = mc_sNonce mc; halfNonce = NONCE_LEN div 2
            in serve ms (mc\<lparr>mc_phase := AwaitLength, mc_in := drop NONCE_LEN (mc_in mc),
                 mc_out := mc_out mc @ sNonce,
                 mc_rNonce := take halfNonce sNonce @ drop halfNonce cNonce,
                 mc_wNonce := take halfNonce cNonce @ drop halfNonce sNonce\<rparr>)
      | AwaitLength \<Rightarrow>
          if length (mc_in mc) < 4 then mc
          else serve ms (mc\<lparr>mc_phase := AwaitCommand (unat (getUint32 (take 4 (mc_in mc)))),
                 mc_in := drop 4 (mc_in mc)\<rparr>)
      | AwaitCommand n \<Rightarrow>
          if length (mc_in mc) < n then mc
          else (case ms_open ms (ms_key ms) (mc_rNonce mc) (take n (mc_in mc)) of
              None \<Rightarrow> mc\<lparr>mc_phase := Closed\<rparr>
            | Some cmd \<Rightarrow>
                serve ms (sendResponse ms (getResponse ms cmd)
                  (mc\<lparr>mc_phase := AwaitLength, mc_in := drop n (mc_in mc),
                      mc_rNonce := incrementNonce (mc_rNonce mc)\<rparr>)))
      | Closed \<Rightarrow> mc)"
  by pat_completeness auto
termination
  by (relation "measure (\<lambda>(ms, mc). 2 * length (mc_in mc) + (case mc_phase mc of AwaitCommand _ \<Rightarrow> 1 | _ \<Rightarrow> 0))")
    (auto simp: NONCE_LEN_def sendResponse_def Let_def)

declare serve.simps [simp del]

text \<open>
  The network between a client and a mock server: the n-th nonce drawn by either side is the n-th
  entry of a stream. Reading from a closed connection fails; a read for which the server has not sent
  enough would wait for ever and fails here as well.
\<close>

record MockNet =
  mn_conn :: MockConn
  mn_drawn :: nat

definition mock_take :: "nat \<Rightarrow> MockNet \<Rightarrow> byte list option \<times> MockNet" where
  "mock_take n w =
     (if length (mc_out (mn_conn w)) < n then (None, w)
      else (Some (take n (mc_out (mn_conn w))),
            w\<lparr>mn_conn := (mn_conn w)\<lparr>mc_out := drop n (mc_out (mn_conn w))\<rparr>\<rparr>))"

definition fresh_conn :: "byte list \<Rightarrow> MockConn" where
  "fresh_conn sNonce = \<lparr>mc_phase = AwaitNonce, mc_in = [], mc_out = [], mc_sNonce = sNonce,
     mc_rNonce = replicate NONCE_LEN 0, mc_wNonce = replicate NONCE_LEN 0\<rparr>"

definition mock_write :: "MockServer \<Rightarrow> byte list \<Rightarrow> MockNet \<Rightarrow> bool \<times> MockNet" where
  "mock_write ms bs w =
     (if mc_phase (mn_conn w) = Closed then (False, w)
      else (True, w\<lparr>mn_conn := serve ms ((mn_conn w)\<lparr>mc_in := mc_in (mn_conn w) @ bs\<rparr>)\<rparr>))"

definition mock_net :: "MockServer \<Rightarrow> (nat \<Rightarrow> byte list) \<Rightarrow> MockNet Net" where
  "mock_net ms draw = \<lparr>nw_resolve = True,
     nw_dial = (\<lambda>w. (True, w\<lparr>mn_conn := fresh_conn (draw (mn_drawn w)), mn_drawn := Suc (mn_drawn w)\<rparr>)),
     nw_write = mock_write ms,
     nw_read = mock_take, nw_readFull = mock_take,
     nw_close = (\<lambda>w. w\<lparr>mn_conn := (mn_conn w)\<lparr>mc_phase := Closed\<rparr>\<rparr>),
     nw_rand = (\<lambda>w. (Some (draw (mn_drawn w)), w\<lparr>mn_drawn := Suc (mn_drawn w)\<rparr>)),
     sb_seal = ms_seal ms, sb_open = ms_open ms\<rparr>"

section \<open>Nonces count in their first four bytes\<close>

lemma getUint32_putUint32 [simp]: "getUint32 (putUint32 v) = v"
proof (rule bit_word_eqI)
  fix n
  assume "n < LENGTH(32)"
  then consider "n < 8" | "8 \<le> n" "n < 16" | "16 \<le> n" "n < 24" | "24 \<le> n" "n < 32" by fastforce
  then show "bit (getUint32 (putUint32 v)) n \<longleftrightarrow> bit v n"
    by cases (auto simp: getUint32_def putUint32_def bit_simps nth_Cons')
qed

lemma length_putUint32 [simp]: "length (putUint32 v) = 4"
  by (simp add: putUint32_def)

lemma nonce_step:
  assumes "4 \<le> length n"
  shows "getUint32 (take 4 (incrementNonce n)) = getUint32 (take 4 n) + 1" "drop 4 (incrementNonce n) = drop 4 n"
    "length (incrementNonce n) = length n"
  using assms by (simp_all add: incrementNonce_def)

lemma nonce_iter:
  assumes "4 \<le> length n"
  shows "getUint32 (take 4 ((incrementNonce ^^ k) n)) = getUint32 (take 4 n) + of_nat k \<and>
    drop 4 ((incrementNonce ^^ k) n) = drop 4 n \<and> length ((incrementNonce ^^ k) n) = length n"
proof (induction k)
  case (Suc k)
  then show ?case using nonce_step[of "(incrementNonce ^^ k) n"] assms by (simp add: ac_simps)
qed simp

lemma putUint32_getUint32: "length bs = 4 \<Longrightarrow> putUint32 (getUint32 bs) = bs"
proof -
  assume "length bs = 4"
  then obtain a b c d where bs: "bs = [a, b, c, d]" by (auto simp: eval_nat_numeral length_Suc_conv)
  have "ucast (drop_bit 24 (getUint32 bs)) = a" "ucast (drop_bit 16 (getUint32 bs)) = b"
    "ucast (drop_bit 8 (getUint32 bs)) = c" "ucast (getUint32 bs) = d"
    by (rule bit_word_eqI; auto simp: getUint32_def bs bit_simps nth_Cons' dest: bit_imp_le_length)+
  then show ?thesis by (simp add: putUint32_def bs)
qed

lemma nonce_iter_eq_iff:
  assumes "4 \<le> length n"
  shows "(incrementNonce ^^ i) n = (incrementNonce ^^ j) n \<longleftrightarrow> i mod 2 ^ 32 = j mod 2 ^ 32"
proof -
  let ?a = "(incrementNonce ^^ i) n" and ?b = "(incrementNonce ^^ j) n"
  note a = nonce_iter[OF assms, of i] and b = nonce_iter[OF assms, of j]
  have "?a = ?b \<longleftrightarrow> getUint32 (take 4 ?a) = getUint32 (take 4 ?b)"
  proof
    assume "getUint32 (take 4 ?a) = getUint32 (take 4 ?b)"
    then have "take 4 ?a = take 4 ?b"
      using putUint32_getUint32[of "take 4 ?a"] putUint32_getUint32[of "take 4 ?b"] a b assms by simp
    then show "?a = ?b" using a b by (metis append_take_drop_id)
  qed simp
  also have "\<dots> \<longleftrightarrow> (of_nat i :: 32 word) = of_nat j" using a b by simp
  finally show ?thesis by (simp add: word_of_nat_eq_iff take_bit_eq_mod)
qed


section \<open>A session\<close>

definition crypto_ok :: "MockServer \<Rightarrow> bool" where
  "crypto_ok ms \<longleftrightarrow> (\<forall>k n m. ms_open ms k n (ms_seal ms k n m) = Some m \<and> length (ms_seal ms k n m) = length m + 16)"

definition sendable :: "MockServer \<Rightarrow> byte list \<Rightarrow> bool" where
  "sendable ms cmd \<longleftrightarrow> length cmd + 16 < 2 ^ 32 \<and> length (getResponse ms cmd) + 16 < 2 ^ 32"

text \<open>Both ends agree on the nonces; they are in sync when they also share the key.\<close>

definition linked :: "Client \<Rightarrow> MockConn \<Rightarrow> bool" where
  "linked c mc \<longleftrightarrow> cl_conn c \<and> mc_phase mc = AwaitLength \<and> mc_in mc = [] \<and> mc_out mc = [] \<and>
     mc_rNonce mc = cl_wNonce c \<and> mc_wNonce mc = cl_rNonce c"

definition in_sync :: "MockServer \<Rightarrow> Client \<Rightarrow> MockConn \<Rightarrow> bool" where
  "in_sync ms c mc \<longleftrightarrow> linked c mc \<and> cl_key c = ms_key ms"

lemma serve_length:
  assumes "mc_phase mc = AwaitLength" "mc_in mc = putUint32 (of_nat k)" "0 < k" "k < 2 ^ 32"
  shows "serve ms mc = mc\<lparr>mc_phase := AwaitCommand k, mc_in := []\<rparr>"
proof -
  have "unat (of_nat k :: 32 word) = k" using assms(4) by (simp add: unat_of_nat)
  then show ?thesis using assms(1-3) by (simp add: serve.simps[of ms mc]) (simp add: serve.simps)
qed

lemma serve_command:
  assumes "mc_phase mc = AwaitCommand (length (mc_in mc))" "ms_open ms (ms_key ms) (mc_rNonce mc) (mc_in mc) = Some cmd"
  shows "serve ms mc = sendResponse ms (getResponse ms cmd)
    (mc\<lparr>mc_phase := AwaitLength, mc_in := [], mc_rNonce := incrementNonce (mc_rNonce mc)\<rparr>)"
  using assms by (simp add: serve.simps[of ms mc]) (simp add: serve.simps sendResponse_def Let_def)

lemma serve_reject:
  assumes "mc_phase mc = AwaitCommand (length (mc_in mc))" "ms_open ms (ms_key ms) (mc_rNonce mc) (mc_in mc) = None"
  shows "serve ms mc = mc\<lparr>mc_phase := Closed\<rparr>"
  using assms by (simp add: serve.simps[of ms mc])

lemma serve_nonce:
  assumes "mc_phase mc = AwaitNonce" "length (mc_in mc) = NONCE_LEN"
  shows "serve ms mc = mc\<lparr>mc_phase := AwaitLength, mc_in := [], mc_out := mc_out mc @ mc_sNonce mc,
      mc_rNonce := take 12 (mc_sNonce mc) @ drop 12 (mc_in mc), mc_wNonce := take 12 (mc_in mc) @ drop 12 (mc_sNonce mc)\<rparr>"
  using assms by (simp add: serve.simps[of ms mc] Let_def NONCE_LEN_def) (simp add: serve.simps)

lemmas mock_defs = mock_net_def mock_write_def mock_take_def

text \<open>A command against a server that can decrypt it.\<close>

lemma sendCommand_in_sync:
  assumes "crypto_ok ms" "sendable ms cmd" "in_sync ms c (mn_conn w)"
  shows "\<exists>c' w'. sendCommand (mock_net ms draw) cmd (c, w) = (Inr (getResponse ms cmd), c', w') \<and>
    in_sync ms c' (mn_conn w') \<and> cl_wNonce c' = incrementNonce (cl_wNonce c) \<and> cl_rNonce c' = incrementNonce (cl_rNonce c)"
proof -
  let ?mc = "mn_conn w" and ?enc = "ms_seal ms (ms_key ms) (cl_wNonce c) cmd" and ?resp = "getResponse ms cmd"
  let ?n = "length ?enc" and ?rep = "ms_seal ms (ms_key ms) (cl_rNonce c) (getResponse ms cmd)"
  note sync = assms(3)[unfolded in_sync_def linked_def]
  have dec: "ms_open ms k n (ms_seal ms k n m) = Some m" for k n m using assms(1) by (simp add: crypto_ok_def)
  have len: "0 < ?n" "?n < 2 ^ 32" "length ?rep < 2 ^ 32"
    using assms(1,2) by (auto simp: crypto_ok_def sendable_def)
  have s1: "serve ms (?mc\<lparr>mc_in := putUint32 (of_nat ?n)\<rparr>) = ?mc\<lparr>mc_phase := AwaitCommand ?n, mc_in := []\<rparr>"
    using serve_length[of "?mc\<lparr>mc_in := putUint32 (of_nat ?n)\<rparr>" ?n ms] sync len by simp
  have s2: "serve ms (?mc\<lparr>mc_phase := AwaitCommand ?n, mc_in := ?enc\<rparr>) =
      sendResponse ms ?resp (?mc\<lparr>mc_phase := AwaitLength, mc_in := [], mc_rNonce := incrementNonce (mc_rNonce ?mc)\<rparr>)"
    using serve_command[of "?mc\<lparr>mc_phase := AwaitCommand ?n, mc_in := ?enc\<rparr>" ms cmd] sync dec
    by simp
  have "unat (of_nat (length ?rep) :: 32 word) = length ?rep" using len(3) by (simp add: unat_of_nat)
  then show ?thesis
    using sync
    by (simp add: sendCommand_def encrypt_def decrypt_def Let_def mock_defs s1 s2 sendResponse_def dec in_sync_def linked_def)
qed


lemma handshake_linked:
  assumes "\<And>i. length (draw i) = NONCE_LEN" "length (cl_cNonce c) = NONCE_LEN"
  shows "\<exists>c' w'. handshake (mock_net ms draw) (c, w) = (Inr (), c', w') \<and> linked c' (mn_conn w') \<and>
    cl_key c' = cl_key c \<and> cl_retries c' = cl_retries c"
proof -
  let ?mc = "(fresh_conn (draw (mn_drawn w)))\<lparr>mc_in := cl_cNonce c\<rparr>"
  have "mc_phase ?mc = AwaitNonce" "length (mc_in ?mc) = NONCE_LEN" using assms(2) by (simp_all add: fresh_conn_def)
  note serve_nonce[OF this, of ms]
  then show ?thesis
    using assms by (simp add: handshake_def mock_defs Let_def linked_def) (simp add: fresh_conn_def NONCE_LEN_def)
qed

lemma handshake_in_sync:
  assumes "crypto_ok ms" "sendable ms []" "getResponse ms [] = []" "\<And>i. length (draw i) = NONCE_LEN"
    "length (cl_cNonce c) = NONCE_LEN" "cl_key c = ms_key ms"
  shows "\<exists>c' w'. connect (Suc (Suc n)) (mock_net ms draw) (c, w) = Some (Inr (), c', w') \<and> in_sync ms c' (mn_conn w')"
proof -
  obtain c1 w1 where h: "handshake (mock_net ms draw) (c, w) = (Inr (), c1, w1)" "in_sync ms c1 (mn_conn w1)"
    using handshake_linked[of draw c ms w] assms(4-6) by (auto simp: in_sync_def)
  obtain c2 w2 where "sendCommand (mock_net ms draw) [] (c1, w1) = (Inr [], c2, w2)" "in_sync ms c2 (mn_conn w2)"
    using sendCommand_in_sync[OF assms(1,2) h(2), of draw] assms(3) by auto
  then show ?thesis using h by (simp add: in_sync_def linked_def)
qed

text \<open>A client that sends several commands.\<close>

fun run_commands :: "nat \<Rightarrow> 'w Net \<Rightarrow> byte list list \<Rightarrow> Client \<times> 'w \<Rightarrow> ((client_error + byte list) list \<times> Client \<times> 'w) option" where
  "run_commands fuel net [] s = Some ([], s)"
| "run_commands fuel net (cmd # cmds) s =
     (case dnsdist_command fuel net cmd s of
        None \<Rightarrow> None
      | Some (r, s) \<Rightarrow> map_option (\<lambda>(rs, s). (r # rs, s)) (run_commands fuel net cmds s))"

lemma run_in_sync:
  assumes "crypto_ok ms" "\<forall>cmd \<in> set cmds. sendable ms cmd" "in_sync ms c (mn_conn w)"
  shows "\<exists>s'. run_commands (Suc n) (mock_net ms draw) cmds (c, w) = Some (map (\<lambda>cmd. Inr (getResponse ms cmd)) cmds, s')"
  using assms(2,3)
proof (induction cmds arbitrary: c w)
  case (Cons cmd cmds)
  obtain c' w' where *: "sendCommand (mock_net ms draw) cmd (c, w) = (Inr (getResponse ms cmd), c', w')"
    "in_sync ms c' (mn_conn w')"
    using sendCommand_in_sync[OF assms(1), of cmd c w draw] Cons.prems by auto
  obtain s' where "run_commands (Suc n) (mock_net ms draw) cmds (c', w') = Some (map (\<lambda>cmd. Inr (getResponse ms cmd)) cmds, s')"
    using Cons.IH[OF _ *(2)] Cons.prems(1) by auto
  then show ?case using * Cons.prems(2) by (simp add: in_sync_def linked_def)
qed simp

text \<open>
  C20. Client and mock server together: with the right key, a client that is not connected yet connects
  on its first command, and every command of a session is answered with what the server's handlers
  make of it, in order. Three nested calls are enough.
\<close>

theorem console_session:
  assumes "crypto_ok ms" "getResponse ms [] = []" "\<And>i. length (draw i) = NONCE_LEN"
    and "length (ms_key ms) = KEY_LEN" "\<forall>cmd \<in> set cmds. sendable ms cmd"
  shows "\<exists>c w' s'. NewClient (mock_net ms draw) (Some (ms_key ms)) retries w = (Inr c, w') \<and>
    run_commands 3 (mock_net ms draw) cmds (c, w') = Some (map (\<lambda>cmd. Inr (getResponse ms cmd)) cmds, s')"
proof -
  have se: "sendable ms []" using assms(2) by (simp add: sendable_def)
  obtain c w' where c: "NewClient (mock_net ms draw) (Some (ms_key ms)) retries w = (Inr c, w')"
    "\<not> cl_conn c" "cl_key c = ms_key ms" "length (cl_cNonce c) = NONCE_LEN"
    using assms(3,4) by (simp add: NewClient_def generateClientNonce_def Let_def mock_net_def)
  show ?thesis
  proof (cases cmds)
    case Nil
    then show ?thesis using c(1) by simp
  next
    case (Cons cmd rest)
    obtain c1 w1 where h: "connect 2 (mock_net ms draw) (c, w') = Some (Inr (), c1, w1)" "in_sync ms c1 (mn_conn w1)"
      using handshake_in_sync[of ms draw c 0 w'] assms(1-3) se c(3,4) by (auto simp: numeral_2_eq_2)
    obtain c2 w2 where s: "sendCommand (mock_net ms draw) cmd (c1, w1) = (Inr (getResponse ms cmd), c2, w2)"
      "in_sync ms c2 (mn_conn w2)"
      using sendCommand_in_sync[OF assms(1) _ h(2), of cmd draw] assms(5) Cons by auto
    have first: "dnsdist_command 3 (mock_net ms draw) cmd (c, w') = Some (Inr (getResponse ms cmd), c2, w2)"
      using h(1) s(1) c(2) by (simp add: eval_nat_numeral del: connect.simps)
    obtain s' where "run_commands 3 (mock_net ms draw) rest (c2, w2) = Some (map (\<lambda>cmd. Inr (getResponse ms cmd)) rest, s')"
      using run_in_sync[OF assms(1) _ s(2), of rest 2 draw] assms(5) Cons by (auto simp: numeral_3_eq_3)
    then show ?thesis using c(1) first Cons by simp
  qed
qed

text \<open>
  A console whose key is one repeated byte; its encryption for the concrete instances tags a message
  with the first half of the key.
\<close>

definition demo_console :: "byte \<Rightarrow> MockServer" where
  "demo_console b = \<lparr>ms_key = replicate 32 b,
     ms_handlers = [(bytes ''showRules()'', \<lambda>cmd. bytes ''Rules:'')],
     ms_seal = (\<lambda>k n m. take 16 (k @ replicate 16 0) @ m),
     ms_open = (\<lambda>k n d. if take 16 d = take 16 (k @ replicate 16 0) then Some (drop 16 d) else None)\<rparr>"

definition demo_net :: MockNet where
  "demo_net = \<lparr>mn_conn = fresh_conn [], mn_drawn = 0\<rparr>"

lemma demo_console_crypto: "crypto_ok (demo_console b)"
  by (auto simp: crypto_ok_def demo_console_def min_def)

theorem console_session_witness:
  "\<exists>c w' s'. NewClient (mock_net (demo_console 1) (\<lambda>i. replicate 24 0)) (Some (replicate 32 1)) 3 demo_net = (Inr c, w') \<and>
     run_commands 3 (mock_net (demo_console 1) (\<lambda>i. replicate 24 0)) [bytes ''showRules()'', bytes ''x''] (c, w') =
       Some ([Inr (bytes ''Rules:''), Inr []], s')"
proof -
  have "bytes ''showRules()'' \<noteq> []" "bytes ''showRules()'' \<noteq> bytes ''x''" by (simp_all add: bytes_def)
  then have "getResponse (demo_console 1) [] = []" "getResponse (demo_console 1) (bytes ''showRules()'') = bytes ''Rules:''"
    "getResponse (demo_console 1) (bytes ''x'') = []"
    by (auto simp: getResponse_def demo_console_def)
  moreover have "ms_key (demo_console 1) = replicate 32 1" by (simp add: demo_console_def)
  ultimately show ?thesis
    using console_session[OF demo_console_crypto, of 1 "\<lambda>i. replicate 24 0" "[bytes ''showRules()'', bytes ''x'']" 3 demo_net]
    by (simp add: NONCE_LEN_def KEY_LEN_def sendable_def) (simp add: bytes_def)
qed

text \<open>A command against a server that cannot decrypt it.\<close>

lemma sendCommand_rejected:
  assumes "linked c (mn_conn w)" "\<And>n m. ms_open ms (ms_key ms) n (ms_seal ms (cl_key c) n m) = None"
    "length (ms_seal ms (cl_key c) (cl_wNonce c) cmd) = length cmd + 16" "length cmd + 16 < 2 ^ 32"
  shows "\<exists>c' w'. sendCommand (mock_net ms draw) cmd (c, w) = (Inl ErrCouldNotRead, c', w') \<and>
    cl_key c' = cl_key c \<and> cl_retries c' = cl_retries c"
proof -
  let ?mc = "mn_conn w" and ?enc = "ms_seal ms (cl_key c) (cl_wNonce c) cmd"
  let ?n = "length ?enc"
  note sync = assms(1)[unfolded linked_def]
  have len: "0 < ?n" "?n < 2 ^ 32" using assms(3,4) by auto
  have s1: "serve ms (?mc\<lparr>mc_in := putUint32 (of_nat ?n)\<rparr>) = ?mc\<lparr>mc_phase := AwaitCommand ?n, mc_in := []\<rparr>"
    using serve_length[of "?mc\<lparr>mc_in := putUint32 (of_nat ?n)\<rparr>" ?n ms] sync len by simp
  have s2: "serve ms (?mc\<lparr>mc_phase := AwaitCommand ?n, mc_in := ?enc\<rparr>) =
      ?mc\<lparr>mc_phase := Closed, mc_in := ?enc\<rparr>"
    using serve_reject[of "?mc\<lparr>mc_phase := AwaitCommand ?n, mc_in := ?enc\<rparr>" ms] sync assms(2) by simp
  show ?thesis
    using sync by (simp add: sendCommand_def encrypt_def Let_def mock_defs s1 s2)
qed

lemma wrong_key_runs_out:
  fixes ms :: MockServer
  assumes draw: "\<And>i. length (draw i) = NONCE_LEN" and k: "\<And>n m. ms_open ms (ms_key ms) n (ms_seal ms k n m) = None"
    and len: "\<And>n. length (ms_seal ms k n []) = 16"
  shows "cl_key c = k \<Longrightarrow> 0 < cl_retries c \<Longrightarrow> length (cl_cNonce c) = NONCE_LEN \<Longrightarrow>
      connect fuel (mock_net ms draw) (c, w) = None"
    and "cl_key c = k \<Longrightarrow> 0 < cl_retries c \<Longrightarrow> reconnect fuel (mock_net ms draw) (c, w) = None"
    and "cl_key c = k \<Longrightarrow> 0 < cl_retries c \<Longrightarrow> linked c (mn_conn w) \<Longrightarrow>
      dnsdist_command fuel (mock_net ms draw) [] (c, w) = None"
proof (induction fuel arbitrary: c w)
  case (Suc fuel)
  { case 1
    obtain c' w' where "handshake (mock_net ms draw) (c, w) = (Inr (), c', w')" "linked c' (mn_conn w')"
      "cl_key c' = cl_key c" "cl_retries c' = cl_retries c"
      using handshake_linked[of draw c ms w] draw 1(3) by blast
    then show ?case using Suc(3)[of c' w'] 1 by simp }
  { case 2
    show ?case
      using Suc(1) 2 draw by (simp add: generateClientNonce_def mock_net_def[of ms draw] Let_def) }
  { case 3
    obtain c' w' where s: "sendCommand (mock_net ms draw) [] (c, w) = (Inl ErrCouldNotRead, c', w')"
      "cl_key c' = cl_key c" "cl_retries c' = cl_retries c"
      using sendCommand_rejected[OF 3(3), of ms "[]" draw] k len 3(1) by auto
    obtain r where "cl_retries c' = Suc r" using s(3) 3(2) gr0_implies_Suc[of "cl_retries c'"] by auto
    then show ?case using s 3 Suc(2)[of c' w'] by (simp add: linked_def) }
qed simp_all

text \<open>
  C21. With a key that the server does not accept, no command ever returns: the failed handshake makes
  \<^verbatim>\<open>connect\<close> send a command that fails, the retry of that command reconnects, and reconnecting
  connects again; the attempts are counted anew on every level. One configured retry is enough.
\<close>

theorem wrong_key_never_returns:
  assumes "\<And>i. length (draw i) = NONCE_LEN" "\<And>n m. ms_open ms (ms_key ms) n (ms_seal ms k n m) = None"
    "\<And>n. length (ms_seal ms k n []) = 16" "0 < retries"
    and "NewClient (mock_net ms draw) (Some k) retries w = (Inr c, w')"
  shows "dnsdist_command fuel (mock_net ms draw) cmd (c, w') = None"
proof -
  have "cl_key c = k" "cl_retries c = retries" "length (cl_cNonce c) = NONCE_LEN" "\<not> cl_conn c"
    using assms(1,5) by (auto simp: NewClient_def generateClientNonce_def Let_def mock_net_def split: if_splits)
  then have "connect n (mock_net ms draw) (c, w') = None" for n
    using wrong_key_runs_out(1)[of draw ms k c n w'] assms(1-4) by simp
  then show ?thesis using \<open>\<not> cl_conn c\<close> by (cases fuel) auto
qed

theorem wrong_key_never_returns_witness:
  "\<exists>c w'. NewClient (mock_net (demo_console 1) (\<lambda>i. replicate 24 0)) (Some (replicate 32 0)) 3 demo_net = (Inr c, w') \<and>
     dnsdist_command 1000 (mock_net (demo_console 1) (\<lambda>i. replicate 24 0)) [] (c, w') = None"
proof -
  obtain c w' where c: "NewClient (mock_net (demo_console 1) (\<lambda>i. replicate 24 0)) (Some (replicate 32 0)) 3 demo_net = (Inr c, w')"
    by (simp add: NewClient_def generateClientNonce_def Let_def mock_net_def KEY_LEN_def)
  have "replicate (16::nat) (0::byte) \<noteq> replicate 16 1" by (simp add: eval_nat_numeral)
  then show ?thesis
    using wrong_key_never_returns[of "\<lambda>i. replicate 24 0" "demo_console 1" "replicate 32 0" 3 demo_net c w' 1000 "[]"] c
    by (auto simp: NONCE_LEN_def demo_console_def)
qed

text \<open>
  The nonce of a direction repeats exactly after 2^32 messages: only its first four bytes are
  counted up, with wrap-around.
\<close>

theorem nonces_repeat_after_2_32:
  assumes "length nonce = NONCE_LEN"
  shows "(incrementNonce ^^ i) nonce = (incrementNonce ^^ j) nonce \<longleftrightarrow> i mod 2 ^ 32 = j mod 2 ^ 32"
  using nonce_iter_eq_iff[of nonce i j] assms by (simp add: NONCE_LEN_def)

theorem nonces_repeat_after_2_32_witness:
  "(incrementNonce ^^ 5) (replicate 24 255) \<noteq> (incrementNonce ^^ 7) (replicate 24 255)"
  using nonces_repeat_after_2_32[of "replicate 24 255" 5 7] by (simp add: NONCE_LEN_def)

end
