(* ===== verification/Decimal.thy ===== *)
theory Decimal
  imports Prelude
begin

text \<open>
  Decimal numbers as Go's \<^verbatim>\<open>strconv\<close> and \<^verbatim>\<open>time\<close> print and read them, and the conversions of
  \<^verbatim>\<open>strconv\<close> that the repository uses.
\<close>

definition digit :: "nat \<Rightarrow> char" where
  "digit n = char_of (48 + n)"

definition is_decimal :: "char \<Rightarrow> bool" where
  "is_decimal c \<longleftrightarrow> CHR ''0'' \<le> c \<and> c \<le> CHR ''9''"

definition digit_value :: "char \<Rightarrow> nat" where
  "digit_value c = of_char c - 48"

fun decimal :: "nat \<Rightarrow> string" where
  "decimal n = (if n < 10 then [digit n] else decimal (n div 10) @ [digit (n mod 10)])"

declare decimal.simps [simp del]

text \<open>The number that a string of digits denotes, after the digits read so far.\<close>

definition digits_from :: "nat \<Rightarrow> string \<Rightarrow> nat" where
  "digits_from n s = foldl (\<lambda>n c. 10 * n + digit_value c) n s"

lemma is_decimal_alt: "is_decimal c \<longleftrightarrow> 48 \<le> (of_char c :: nat) \<and> (of_char c :: nat) \<le> 57"
  by (simp add: is_decimal_def less_eq_char_def)

lemma of_char_digit: "n < 10 \<Longrightarrow> (of_char (digit n) :: nat) = 48 + n"
  by (simp add: digit_def of_char_of)

lemma digit_simps [simp]:
  assumes "n < 10"
  shows "is_decimal (digit n)" "digit_value (digit n) = n" "digit n \<noteq> CHR ''.''" "digit n \<noteq> CHR ''-''" "digit n \<noteq> CHR ''+''"
proof -
  note v = of_char_digit[OF assms]
  show "is_decimal (digit n)" "digit_value (digit n) = n" using assms v by (simp_all add: is_decimal_alt digit_value_def)
  have "c \<noteq> digit n" if "(of_char c :: nat) < 48" for c
    using v that by auto
  from this[of "CHR ''.''"] this[of "CHR ''-''"] this[of "CHR ''+''"]
  show "digit n \<noteq> CHR ''.''" "digit n \<noteq> CHR ''-''" "digit n \<noteq> CHR ''+''" by auto
qed

lemma digits_from_append: "digits_from n (s @ t) = digits_from (digits_from n s) t"
  by (simp add: digits_from_def)

lemma digits_from_decimal: "digits_from 0 (decimal n) = n"
proof (induction n rule: decimal.induct)
  case (1 n)
  show ?case
  proof (cases "n < 10")
    case True
    then show ?thesis by (subst decimal.simps) (simp add: digits_from_def)
  next
    case False
    then show ?thesis
      using 1[OF False] by (subst decimal.simps) (simp add: digits_from_append, simp add: digits_from_def)
  qed
qed

lemma decimal_digits: "\<forall>c \<in> set (decimal n). is_decimal c"
proof (induction n rule: decimal.induct)
  case (1 n)
  then show ?case by (subst decimal.simps) auto
qed

lemma decimal_not_Nil [simp]: "decimal n \<noteq> []"
  by (subst decimal.simps) simp

lemma digit_value_le: "is_decimal c \<Longrightarrow> digit_value c \<le> 9"
  by (auto simp: is_decimal_alt digit_value_def)

text \<open>\<^verbatim>\<open>strconv.ParseInt(s, 10, 64)\<close> and \<^verbatim>\<open>strconv.ParseBool\<close>; None is an error.\<close>

definition ParseInt :: "string \<Rightarrow> int option" where
  "ParseInt s =
     (let (neg, ds) = (case s of
            [] \<Rightarrow> (False, [])
          | c # cs \<Rightarrow> if c = CHR ''-'' then (True, cs) else if c = CHR ''+'' then (False, cs) else (False, s));
          n = int (digits_from 0 ds)
      in if ds = [] \<or> \<not> list_all is_decimal ds then None
         else if neg then (if n \<le> 2 ^ 63 then Some (- n) else None)
         else (if n < 2 ^ 63 then Some n else None))"

definition ParseBool :: "string \<Rightarrow> bool option" where
  "ParseBool s =
     (if s \<in> {''1'', ''t'', ''T'', ''TRUE'', ''true'', ''True''} then Some True
      else if s \<in> {''0'', ''f'', ''F'', ''FALSE'', ''false'', ''False''} then Some False
      else None)"

lemma ParseInt_range: "ParseInt s = Some n \<Longrightarrow> - (2 ^ 63) \<le> n \<and> n < 2 ^ 63"
  by (auto simp: ParseInt_def Let_def split: if_splits prod.splits)

end
