(* ===== verification/DurationText.thy ===== *)
theory DurationText
  imports GoTime Decimal
begin

text \<open>
  \<^verbatim>\<open>internal/utils/timesutil\<close>: durations as text. The wrapper prints and reads them with the standard
  library's \<^verbatim>\<open>Duration.String\<close> and \<^verbatim>\<open>ParseDuration\<close>, which are written out here, with the float64
  arithmetic of fractions; strings are UTF-8 bytes.
\<close>

section \<open>Printing\<close>

text \<open>\<^verbatim>\<open>fmtFrac\<close>: \<open>p\<close> digits behind the point, without trailing zeros, and what is before the point.\<close>

fun fmtFrac :: "nat \<Rightarrow> nat \<Rightarrow> bool \<Rightarrow> string \<Rightarrow> string \<times> nat" where
  "fmtFrac 0 v pr acc = (if pr then CHR ''.'' # acc else acc, v)"
| "fmtFrac (Suc p) v pr acc =
     (let pr = pr \<or> v mod 10 \<noteq> 0 in fmtFrac p (v div 10) pr (if pr then digit (v mod 10) # acc else acc))"

definition micro :: string where "micro = [CHR 0xC2, CHR 0xB5]"
definition mu :: string where "mu = [CHR 0xCE, CHR 0xBC]"

definition fmt_small :: "nat \<Rightarrow> nat \<Rightarrow> string \<Rightarrow> string" where
  "fmt_small u p unit = (let (fr, v) = fmtFrac p u False [] in decimal v @ fr @ unit)"

definition fmt_large :: "nat \<Rightarrow> string" where
  "fmt_large u =
     (let (fr, s) = fmtFrac 9 u False [];
          secs = decimal (s mod 60) @ fr @ ''s'';
          m = s div 60; h = m div 60
      in if m = 0 then secs
         else if h = 0 then decimal (m mod 60) @ ''m'' @ secs
         else decimal h @ ''h'' @ decimal (m mod 60) @ ''m'' @ secs)"

definition fmt_text :: "nat \<Rightarrow> string" where
  "fmt_text u =
     (if u = 0 then ''0s''
      else if u < 1000 then fmt_small u 0 ''ns''
      else if u < 1000000 then fmt_small u 3 (micro @ ''s'')
      else if u < 1000000000 then fmt_small u 6 ''ms''
      else fmt_large u)"

definition Duration_String :: "Duration \<Rightarrow> string" where
  "Duration_String d = (if d < 0 then CHR ''-'' # fmt_text (nat \<bar>d\<bar>) else fmt_text (nat \<bar>d\<bar>))"

section \<open>Reading\<close>

text \<open>\<^verbatim>\<open>leadingInt\<close> fails when the number leaves the range; \<^verbatim>\<open>leadingFraction\<close> then drops the further digits.\<close>

fun leadingInt :: "string \<Rightarrow> nat \<Rightarrow> (nat \<times> string) option" where
  "leadingInt [] x = Some (x, [])"
| "leadingInt (c # cs) x =
     (if \<not> is_decimal c then Some (x, c # cs)
      else if x > 2 ^ 63 div 10 then None
      else let x = 10 * x + digit_value c in if x > 2 ^ 63 then None else leadingInt cs x)"

fun leadingFraction :: "string \<Rightarrow> nat \<Rightarrow> f64 \<Rightarrow> bool \<Rightarrow> nat \<times> f64 \<times> string" where
  "leadingFraction [] x scale overflow = (x, scale, [])"
| "leadingFraction (c # cs) x scale overflow =
     (if \<not> is_decimal c then (x, scale, c # cs)
      else if overflow \<or> x > (2 ^ 63 - 1) div 10 \<or> 10 * x + digit_value c > 2 ^ 63 then leadingFraction cs x scale True
      else leadingFraction cs (10 * x + digit_value c) (f64_mul scale (Fin 10)) False)"

definition unitMap :: "string \<Rightarrow> nat option" where
  "unitMap = [''ns'' \<mapsto> 1, ''us'' \<mapsto> 1000, micro @ ''s'' \<mapsto> 1000, mu @ ''s'' \<mapsto> 1000, ''ms'' \<mapsto> 1000000,
     ''s'' \<mapsto> 1000000000, ''m'' \<mapsto> 60000000000, ''h'' \<mapsto> 3600000000000]"

definition numeric :: "char \<Rightarrow> bool" where
  "numeric c \<longleftrightarrow> c = CHR ''.'' \<or> is_decimal c"

text \<open>A number with its unit: its nanoseconds and the rest of the text.\<close>

definition parse_term :: "string \<Rightarrow> (nat \<times> string) option" where
  "parse_term s =
     (if s = [] \<or> \<not> numeric (hd s) then None
      else (case leadingInt s 0 of
          None \<Rightarrow> None
        | Some (v, s1) \<Rightarrow>
            let pre = (length s1 \<noteq> length s);
                point = (s1 \<noteq> [] \<and> hd s1 = CHR ''.'');
                (f, scale, s2) = (if point then leadingFraction (tl s1) 0 (Fin 1) False else (0, Fin 1, s1));
                post = (point \<and> length s2 \<noteq> length (tl s1));
                u = takeWhile (\<lambda>c. \<not> numeric c) s2; s3 = dropWhile (\<lambda>c. \<not> numeric c) s2
            in if (\<not> pre \<and> \<not> post) \<or> u = [] then None
               else (case unitMap u of
                   None \<Rightarrow> None
                 | Some unit \<Rightarrow>
                     if v > 2 ^ 63 div unit then None
                     else
                       let v = v * unit;
                           w = (if f > 0 then v + nat (to_int64 0 (f64_mul (f64_of_int (int f)) (f64_div (f64_of_int (int unit)) scale)))
                                else v)
                       in if f > 0 \<and> w > 2 ^ 63 then None else Some (w, s3))))"

lemma leadingInt_length: "leadingInt s x = Some (v, r) \<Longrightarrow> length r \<le> length s"
  by (induction s x rule: leadingInt.induct) (auto simp: Let_def split: if_splits)

lemma leadingFraction_length: "leadingFraction s x scale overflow = (f, sc, r) \<Longrightarrow> length r \<le> length s"
  by (induction s x scale overflow rule: leadingFraction.induct) (auto split: if_splits)

lemma parse_term_shorter: "parse_term s = Some (w, r) \<Longrightarrow> length r < length s"
proof -
  assume p: "parse_term s = Some (w, r)"
  obtain v s1 where s1: "leadingInt s 0 = Some (v, s1)" "length s1 \<le> length s"
    using p by (auto simp: parse_term_def dest: leadingInt_length split: if_splits option.splits)
  obtain f sc s2 where s2: "(if s1 \<noteq> [] \<and> hd s1 = CHR ''.'' then leadingFraction (tl s1) 0 (Fin 1) False else (0, Fin 1, s1)) = (f, sc, s2)"
    by (metis prod.collapse)
  then have "length s2 \<le> length s1"
    by (auto split: if_splits dest!: leadingFraction_length)
  moreover have "takeWhile (\<lambda>c. \<not> numeric c) s2 \<noteq> []" "r = dropWhile (\<lambda>c. \<not> numeric c) s2"
    using p s1 s2 by (auto simp: parse_term_def Let_def split: if_splits option.splits)
  moreover from this(1) have "length (dropWhile (\<lambda>c. \<not> numeric c) s2) < length s2"
    by (metis append_eq_conv_conj length_append length_greater_0_conv less_add_same_cancel2 takeWhile_dropWhile_id)
  ultimately show ?thesis using s1(2) by simp
qed

text \<open>The sum is a uint64.\<close>

function parse_terms :: "string \<Rightarrow> nat \<Rightarrow> nat option" where
  "parse_terms s d =
     (if s = [] then Some d
      else (case parse_term s of
          None \<Rightarrow> None
        | Some (w, r) \<Rightarrow> let d = (d + w) mod 2 ^ 64 in if d > 2 ^ 63 then None else parse_terms r d))"
  by pat_completeness auto
termination
  by (relation "measure (\<lambda>(s, d). length s)") (auto dest: parse_term_shorter)

declare parse_terms.simps [simp del]

definition ParseDuration :: "string \<Rightarrow> Duration option" where
  "ParseDuration s =
     (let (neg, s) = (case s of
            [] \<Rightarrow> (False, [])
          | c # cs \<Rightarrow> if c = CHR ''-'' then (True, cs) else if c = CHR ''+'' then (False, cs) else (False, s))
      in if s = ''0'' then Some 0
         else if s = [] then None
         else (case parse_terms s 0 of
             None \<Rightarrow> None
           | Some d \<Rightarrow> if neg then Some (- int d) else if d > 2 ^ 63 - 1 then None else Some (int d)))"

section \<open>The wrapper\<close>

definition FromString :: "string \<Rightarrow> Duration option" where
  "FromString s = ParseDuration s"

text \<open>JSON strings: \<open>quote\<close> and \<open>unquote\<close>.\<close>

definition MarshalJSON :: "(string \<Rightarrow> string) \<Rightarrow> Duration \<Rightarrow> string" where
  "MarshalJSON quote d = quote (Duration_String d)"

definition UnmarshalJSON :: "(string \<Rightarrow> string option) \<Rightarrow> string \<Rightarrow> Duration \<Rightarrow> bool \<times> Duration" where
  "UnmarshalJSON unquote b d =
     (case unquote b of
        None \<Rightarrow> (False, d)
      | Some s \<Rightarrow> (case ParseDuration s of None \<Rightarrow> (False, d) | Some parsed \<Rightarrow> (True, parsed)))"

section \<open>Reading what was printed\<close>

lemma digits_from_ge: "x \<le> digits_from x ds"
proof (induction ds arbitrary: x)
  case (Cons c ds)
  have "x \<le> 10 * x + digit_value c" by simp
  also have "\<dots> \<le> digits_from (10 * x + digit_value c) ds" by (rule Cons)
  finally show ?case by (simp add: digits_from_def)
qed (simp add: digits_from_def)

lemma leadingInt_digits:
  assumes "\<forall>c \<in> set ds. is_decimal c" "digits_from x ds \<le> 2 ^ 63" "t = [] \<or> \<not> is_decimal (hd t)"
  shows "leadingInt (ds @ t) x = Some (digits_from x ds, t)"
  using assms(1,2)
proof (induction ds arbitrary: x)
  case Nil
  show ?case using assms(3) by (cases t) (auto simp: digits_from_def)
next
  case (Cons c ds)
  have step: "digits_from x (c # ds) = digits_from (10 * x + digit_value c) ds" by (simp add: digits_from_def)
  then have "10 * x + digit_value c \<le> 2 ^ 63" using Cons.prems(2) digits_from_ge order_trans by metis
  then have "\<not> x > 2 ^ 63 div 10" by simp
  then show ?case using Cons.IH[of "10 * x + digit_value c"] Cons.prems \<open>10 * x + digit_value c \<le> 2 ^ 63\<close> step
    by (simp add: Let_def)
qed

lemma f64_exact_of_nat: "n \<le> 2 ^ 53 \<Longrightarrow> f64_round (of_nat n) = Fin (of_nat n)"
  using f64_round_exact[of "int n"] by simp

lemma leadingFraction_digits:
  assumes "\<forall>c \<in> set ds. is_decimal c" "x < 10 ^ k" "k + length ds \<le> 9" "t = [] \<or> \<not> is_decimal (hd t)"
  shows "leadingFraction (ds @ t) x (Fin (10 ^ k)) False = (digits_from x ds, Fin (10 ^ (k + length ds)), t)"
  using assms(1-3)
proof (induction ds arbitrary: x k)
  case Nil
  show ?case using assms(4) by (cases t) (auto simp: digits_from_def)
next
  case (Cons c ds)
  have c: "digit_value c \<le> 9" using Cons.prems(1) by (simp add: digit_value_le)
  have "(10 :: nat) ^ k \<le> 10 ^ 8" using Cons.prems(3) by (intro power_increasing) auto
  then have x: "x < 10 ^ 8" "10 * x + digit_value c < 10 ^ Suc k" using Cons.prems(2) c by simp_all
  have "(10 :: nat) ^ Suc k \<le> 10 ^ 9" using Cons.prems(3) by (intro power_increasing) auto
  then have "f64_mul (Fin (10 ^ k)) (Fin 10) = Fin (10 ^ Suc k)"
    using f64_exact_of_nat[of "10 ^ Suc k"] by (simp add: mult.commute)
  moreover have "\<not> 2 ^ 63 < 10 * x + digit_value c" using x(1) c by simp
  ultimately show ?case
    using Cons.IH[of "10 * x + digit_value c" "Suc k"] Cons.prems x by (simp add: digits_from_def)
qed

text \<open>The digits behind the point.\<close>

lemma fmtFrac_True:
  "\<exists>ds. fmtFrac p v True acc = (CHR ''.'' # ds @ acc, v div 10 ^ p) \<and> length ds = p \<and>
    (\<forall>c \<in> set ds. is_decimal c) \<and> digits_from 0 ds = v mod 10 ^ p"
proof (induction p arbitrary: v acc)
  case (Suc p)
  obtain ds where ds: "fmtFrac p (v div 10) True (digit (v mod 10) # acc) = (CHR ''.'' # ds @ digit (v mod 10) # acc, v div 10 div 10 ^ p)"
    "length ds = p" "\<forall>c \<in> set ds. is_decimal c" "digits_from 0 ds = v div 10 mod 10 ^ p"
    using Suc by blast
  have "v mod 10 ^ Suc p = 10 * (v div 10 mod 10 ^ p) + v mod 10"
    by (simp add: mod_mult2_eq)
  with ds show ?case
    by (intro exI[of _ "ds @ [digit (v mod 10)]"]) (auto simp: digits_from_append div_mult2_eq, simp add: digits_from_def)
qed (simp add: digits_from_def)

lemma fmtFrac_False:
  "\<exists>ds. fmtFrac p v False [] = (if v mod 10 ^ p = 0 then [] else CHR ''.'' # ds, v div 10 ^ p) \<and>
    (v mod 10 ^ p \<noteq> 0 \<longrightarrow> length ds \<le> p \<and> (\<forall>c \<in> set ds. is_decimal c) \<and>
      digits_from 0 ds * 10 ^ (p - length ds) = v mod 10 ^ p)"
proof (induction p arbitrary: v)
  case (Suc p)
  have split: "v mod 10 ^ Suc p = 10 * (v div 10 mod 10 ^ p) + v mod 10"
    by (simp add: mod_mult2_eq)
  show ?case
  proof (cases "v mod 10 = 0")
    case True
    obtain ds where ds: "fmtFrac p (v div 10) False [] = (if v div 10 mod 10 ^ p = 0 then [] else CHR ''.'' # ds, v div 10 div 10 ^ p)"
      "v div 10 mod 10 ^ p \<noteq> 0 \<longrightarrow> length ds \<le> p \<and> (\<forall>c \<in> set ds. is_decimal c) \<and>
        digits_from 0 ds * 10 ^ (p - length ds) = v div 10 mod 10 ^ p"
      using Suc by blast
    show ?thesis
    proof (intro exI[of _ ds] conjI impI)
      show "fmtFrac (Suc p) v False [] = (if v mod 10 ^ Suc p = 0 then [] else CHR ''.'' # ds, v div 10 ^ Suc p)"
        using True ds(1) split by (simp add: div_mult2_eq)
    next
      assume "v mod 10 ^ Suc p \<noteq> 0"
      then have nz: "v div 10 mod 10 ^ p \<noteq> 0" using True split by simp
      with ds(2) show "length ds \<le> Suc p" "\<forall>c \<in> set ds. is_decimal c" by simp_all
      show "digits_from 0 ds * 10 ^ (Suc p - length ds) = v mod 10 ^ Suc p"
        using nz ds(2) split True by (simp add: Suc_diff_le)
    qed
  next
    case False
    obtain ds where ds: "fmtFrac p (v div 10) True [digit (v mod 10)] = (CHR ''.'' # ds @ [digit (v mod 10)], v div 10 div 10 ^ p)"
      "length ds = p" "\<forall>c \<in> set ds. is_decimal c" "digits_from 0 ds = v div 10 mod 10 ^ p"
      using fmtFrac_True by blast
    have "v mod 10 ^ Suc p \<noteq> 0" using False split by simp
    with ds False show ?thesis
      by (intro exI[of _ "ds @ [digit (v mod 10)]"])
        (auto simp: digits_from_append div_mult2_eq, simp add: digits_from_def mod_mult2_eq)
  qed
qed simp

text \<open>One term, printed with an exact fraction and read back.\<close>

lemma numeric_digit: "is_decimal c \<Longrightarrow> numeric c"
  by (simp add: numeric_def)

lemma fraction_value:
  assumes "f * 10 ^ (p - k) < 10 ^ p" "k \<le> p" "p \<le> 9"
  shows "nat (to_int64 0 (f64_mul (f64_of_int (int f)) (f64_div (f64_of_int (int (10 ^ p))) (Fin (10 ^ k))))) = f * 10 ^ (p - k)"
proof -
  have p: "(10 :: nat) ^ p \<le> 10 ^ 9" using assms(3) by (intro power_increasing) auto
  have pk: "(10 :: nat) ^ (p - k) \<le> 10 ^ 9" using assms(3) by (intro power_increasing) auto
  have small: "f * 10 ^ (p - k) < 10 ^ 9" using assms(1) p by linarith
  have "f \<le> f * 10 ^ (p - k)" by simp
  then have f: "f < 10 ^ 9" using small by linarith
  have unit: "f64_of_int (int (10 ^ p)) = Fin (of_nat (10 ^ p))" "f64_of_int (int f) = Fin (of_nat f)"
    using p f f64_exact_of_nat[of "10 ^ p"] f64_exact_of_nat[of f] by (simp_all add: f64_of_int_def)
  have "(10 :: rat) ^ p = 10 ^ (p - k) * 10 ^ k" using assms(2) by (simp flip: power_add)
  then have "(of_nat (10 ^ p) / 10 ^ k :: rat) = of_nat (10 ^ (p - k))" by simp
  then have div: "f64_div (Fin (of_nat (10 ^ p))) (Fin (10 ^ k)) = Fin (of_nat (10 ^ (p - k)))"
    using pk f64_exact_of_nat[of "10 ^ (p - k)"] by simp
  have "f64_mul (Fin (of_nat f)) (Fin (of_nat (10 ^ (p - k)))) = Fin (of_nat (f * 10 ^ (p - k)))"
    using small f64_exact_of_nat[of "f * 10 ^ (p - k)"] by (simp only: f64_mul.simps of_nat_mult) simp
  then show ?thesis
    using small by (simp only: unit div) (simp add: Let_def floor_of_nat flip: of_nat_mult of_nat_power)
qed

definition clean_unit :: "string \<Rightarrow> bool" where
  "clean_unit u \<longleftrightarrow> u \<noteq> [] \<and> (\<forall>c \<in> set u. \<not> numeric c)"

definition fresh :: "string \<Rightarrow> bool" where
  "fresh t \<longleftrightarrow> t = [] \<or> numeric (hd t)"

lemma unit_split:
  assumes "clean_unit u" "fresh t"
  shows "takeWhile (\<lambda>c. \<not> numeric c) (u @ t) = u" "dropWhile (\<lambda>c. \<not> numeric c) (u @ t) = t"
proof -
  have "takeWhile (\<lambda>c. \<not> numeric c) t = [] \<and> dropWhile (\<lambda>c. \<not> numeric c) t = t"
    using assms(2) by (cases t) (auto simp: fresh_def)
  then show "takeWhile (\<lambda>c. \<not> numeric c) (u @ t) = u" "dropWhile (\<lambda>c. \<not> numeric c) (u @ t) = t"
    using assms(1) by (simp_all add: clean_unit_def)
qed

lemma clean_unit_hd: "clean_unit u \<Longrightarrow> \<not> is_decimal (hd (u @ t)) \<and> hd (u @ t) \<noteq> CHR ''.'' \<and> u @ t \<noteq> []"
  by (cases u) (auto simp: clean_unit_def numeric_def)

lemma parse_term_plain:
  assumes "clean_unit u" "fresh t" "unitMap u = Some unit" "v * unit \<le> 2 ^ 63" "0 < unit"
  shows "parse_term (decimal v @ u @ t) = Some (v * unit, t)"
proof -
  have v: "v \<le> 2 ^ 63 div unit" using assms(4,5) by (simp add: less_eq_div_iff_mult_less_eq)
  then have "v \<le> 2 ^ 63" using div_le_dividend order_trans by blast
  then have lead: "leadingInt (decimal v @ u @ t) 0 = Some (v, u @ t)"
    using leadingInt_digits[of "decimal v" 0 "u @ t"] decimal_digits clean_unit_hd[OF assms(1)] by (simp add: digits_from_decimal)
  have "numeric (hd (decimal v @ u @ t))"
    using decimal_digits[of v] by (cases "decimal v") (auto simp: numeric_def)
  then show ?thesis
    using clean_unit_hd[OF assms(1), of t] unit_split[OF assms(1,2)] assms(1,3) v
    by (simp add: parse_term_def lead Let_def clean_unit_def)
qed

lemma parse_term_frac:
  assumes u: "clean_unit u" "fresh t" "unitMap u = Some (10 ^ p)" and p: "p \<le> 9"
    and n: "n \<le> 2 ^ 63" and fr: "fmtFrac p n False [] = (fr, v)"
  shows "parse_term (decimal v @ fr @ u @ t) = Some (n, t)"
proof -
  obtain ds where eq: "fr = (if n mod 10 ^ p = 0 then [] else CHR ''.'' # ds)" "v = n div 10 ^ p"
    and ds: "n mod 10 ^ p \<noteq> 0 \<Longrightarrow> length ds \<le> p \<and> (\<forall>c \<in> set ds. is_decimal c) \<and>
      digits_from 0 ds * 10 ^ (p - length ds) = n mod 10 ^ p"
    using fmtFrac_False[of p n] fr by auto
  have vn: "v * 10 ^ p + n mod 10 ^ p = n" using div_mult_mod_eq[of n "10 ^ p"] by (simp only: eq(2))
  show ?thesis
  proof (cases "n mod 10 ^ p = 0")
    case True
    then show ?thesis using parse_term_plain[OF u(1,2,3), of v] vn n eq(1) by simp
  next
    case False
    note d = ds[OF False]
    let ?f = "digits_from 0 ds" and ?k = "length ds"
    have f: "0 < ?f" "?f * 10 ^ (p - ?k) < 10 ^ p" using d False by (auto intro: gr0I)
    have val: "nat (to_int64 0 (f64_mul (f64_of_int (int ?f)) (f64_div (f64_of_int (int (10 ^ p))) (Fin (10 ^ ?k))))) = n mod 10 ^ p"
      using fraction_value[OF f(2)] d p by simp
    have "v * 10 ^ p \<le> 2 ^ 63" using vn n by linarith
    then have v: "v \<le> 2 ^ 63 div 10 ^ p" by (simp add: less_eq_div_iff_mult_less_eq)
    then have "v \<le> 2 ^ 63" using div_le_dividend order_trans by blast
    then have lead: "leadingInt (decimal v @ CHR ''.'' # ds @ u @ t) 0 = Some (v, CHR ''.'' # ds @ u @ t)"
      using leadingInt_digits[of "decimal v" 0 "CHR ''.'' # ds @ u @ t"] decimal_digits
      by (simp add: digits_from_decimal is_decimal_alt)
    have fracp: "leadingFraction (ds @ u @ t) 0 (Fin 1) False = (?f, Fin (10 ^ ?k), u @ t)"
      using leadingFraction_digits[of ds 0 0 "u @ t"] d p clean_unit_hd[OF u(1)] by auto
    have "numeric (hd (decimal v @ CHR ''.'' # ds @ u @ t))"
      using decimal_digits[of v] by (cases "decimal v") (auto simp: numeric_def)
    then show ?thesis
      using unit_split[OF u(1,2)] u(1,3) v f val vn n False
      by (simp add: parse_term_def lead fracp Let_def clean_unit_def eq(1))
  qed
qed

lemma fmtFrac_mod: "v mod 10 ^ p = w mod 10 ^ p \<Longrightarrow> fst (fmtFrac p v pr acc) = fst (fmtFrac p w pr acc)"
proof (induction p arbitrary: v w pr acc)
  case (Suc p)
  have sp: "n mod 10 ^ Suc p = 10 * (n div 10 mod 10 ^ p) + n mod 10" for n :: nat
    by (simp add: mod_mult2_eq)
  have low: "v mod 10 = w mod 10"
    using Suc.prems unfolding sp by (metis mod_mod_trivial mod_mult_self4)
  then have "v div 10 mod 10 ^ p = w div 10 mod 10 ^ p"
    using Suc.prems unfolding sp by simp
  then show ?case unfolding fmtFrac.simps Let_def low by (rule Suc.IH)
qed simp

lemma fmtFrac_snd: "snd (fmtFrac p v pr acc) = v div 10 ^ p"
  by (induction p arbitrary: v pr acc) (simp_all add: div_mult2_eq Let_def)

lemma clean_units [simp]:
  "clean_unit ''ns''" "clean_unit (micro @ ''s'')" "clean_unit ''ms''" "clean_unit ''s''" "clean_unit ''m''" "clean_unit ''h''"
  by (simp_all add: clean_unit_def numeric_def is_decimal_alt micro_def)

lemma units [simp]:
  "unitMap ''ns'' = Some 1" "unitMap (micro @ ''s'') = Some 1000" "unitMap ''ms'' = Some 1000000"
  "unitMap ''s'' = Some 1000000000" "unitMap ''m'' = Some 60000000000" "unitMap ''h'' = Some 3600000000000"
  by (simp_all add: unitMap_def micro_def mu_def)

lemma hd_decimal [simp]: "is_decimal (hd (decimal n))"
  using decimal_digits[of n] by (cases "decimal n") auto

lemma fresh_simps [simp]: "fresh []" "fresh (decimal n @ t)"
  using decimal_digits[of n] by (cases "decimal n"; auto simp: fresh_def numeric_def)+

lemma parse_terms_Nil [simp]: "parse_terms [] d = Some d"
  by (simp add: parse_terms.simps)

lemma parse_terms_step:
  assumes "parse_term s = Some (w, r)" "d + w \<le> 2 ^ 63"
  shows "parse_terms s d = parse_terms r (d + w)"
proof -
  have "s \<noteq> []" using assms(1) by (auto simp: parse_term_def)
  moreover have "(d + w) mod 2 ^ 64 = d + w" using assms(2) by simp
  ultimately show ?thesis using assms by (subst parse_terms.simps) (simp add: Let_def)
qed

lemma parse_small:
  assumes "clean_unit u" "unitMap u = Some (10 ^ p)" "p \<le> 9" "n \<le> 2 ^ 63"
  shows "parse_terms (fmt_small n p u) 0 = Some n"
proof -
  obtain fr v where "fmtFrac p n False [] = (fr, v)" by fastforce
  with parse_term_frac[OF assms(1) fresh_simps(1) assms(2-4) this] show ?thesis
    using parse_terms_step[of "fmt_small n p u" n "[]" 0] assms(4) by (simp add: fmt_small_def)
qed

lemma parse_large:
  assumes "n \<le> 2 ^ 63" shows "parse_terms (fmt_large n) 0 = Some n"
proof -
  obtain fr s where frs: "fmtFrac 9 n False [] = (fr, s)" by fastforce
  then have s: "s = n div 10 ^ 9" using fmtFrac_snd[of 9 n False "[]"] by simp
  let ?n = "n mod (60 * 10 ^ 9)" and ?m = "s div 60" and ?h = "s div 60 div 60"
  have low: "?n = s mod 60 * 10 ^ 9 + n mod 10 ^ 9" unfolding s by (metis add.commute mod_mult2_eq mult.commute)
  have "fmtFrac 9 ?n False [] = (fr, s mod 60)"
  proof (rule prod_eqI)
    have "?n mod 10 ^ 9 = n mod 10 ^ 9" unfolding low by simp
    then show "fst (fmtFrac 9 ?n False []) = fst (fr, s mod 60)"
      using fmtFrac_mod[of ?n 9 n False "[]"] frs by simp
    show "snd (fmtFrac 9 ?n False []) = snd (fr, s mod 60)"
      unfolding fmtFrac_snd low by simp
  qed
  moreover have "?n \<le> 2 ^ 63" using assms mod_less_eq_dividend order_trans by blast
  ultimately have secs: "parse_term (decimal (s mod 60) @ fr @ ''s'') = Some (?n, [])"
    using parse_term_frac[of "''s''" "[]" 9 ?n fr "s mod 60"] by simp
  have sum: "?m * 60000000000 + ?n = n"
    unfolding s by (simp add: div_mult2_eq[symmetric] mult.commute)
  have hm: "?h * 3600000000000 + ?m mod 60 * 60000000000 = ?m * 60000000000"
    using div_mult_mod_eq[of ?m 60] by linarith
  have bounds: "?h * 3600000000000 \<le> 2 ^ 63" "?m mod 60 * 60000000000 \<le> 2 ^ 63" "?m * 60000000000 \<le> 2 ^ 63"
    using sum hm assms by linarith+
  have mins: "parse_terms (decimal (?m mod 60) @ ''m'' @ decimal (s mod 60) @ fr @ ''s'') d = Some (d + ?m mod 60 * 60000000000 + ?n)"
    if "d + ?m mod 60 * 60000000000 + ?n \<le> 2 ^ 63" for d
    using that parse_terms_step[OF parse_term_plain[OF clean_units(5) fresh_simps(2) units(5) bounds(2)], of d]
      parse_terms_step[OF secs, of "d + ?m mod 60 * 60000000000"] by simp
  show ?thesis
  proof (cases "?m = 0")
    case True
    then show ?thesis using parse_terms_step[OF secs, of 0] sum assms
      by (simp add: fmt_large_def frs Let_def)
  next
    case False
    show ?thesis
    proof (cases "?h = 0")
      case True
      then have "?m mod 60 * 60000000000 + ?n = n" using hm sum by linarith
      then show ?thesis using mins[of 0] assms True False by (simp add: fmt_large_def frs Let_def)
    next
      case h: False
      have "?h * 3600000000000 + ?m mod 60 * 60000000000 + ?n = n" using hm sum by linarith
      then show ?thesis
        using mins[of "?h * 3600000000000"] assms False h bounds(1)
          parse_terms_step[OF parse_term_plain[OF clean_units(6) fresh_simps(2) units(6) bounds(1)], of 0]
        by (simp add: fmt_large_def frs Let_def)
    qed
  qed
qed

lemma text_head:
  "fmt_small n p u \<noteq> [] \<and> is_decimal (hd (fmt_small n p u))" "fmt_large n \<noteq> [] \<and> is_decimal (hd (fmt_large n))"
proof -
  show "fmt_small n p u \<noteq> [] \<and> is_decimal (hd (fmt_small n p u))"
    unfolding fmt_small_def by (auto split: prod.splits)
  show "fmt_large n \<noteq> [] \<and> is_decimal (hd (fmt_large n))"
    unfolding fmt_large_def by (auto simp: Let_def split: prod.splits)
qed

lemma signs_not_decimal: "\<not> is_decimal CHR ''-''" "\<not> is_decimal CHR ''+''"
  by (simp_all add: is_decimal_alt)

lemma parse_zero: "parse_terms ''0s'' 0 = Some 0"
proof -
  have "char_of (48 :: nat) = CHR ''0''" by code_simp
  then have "decimal 0 @ ''s'' @ [] = ''0s''" by (subst decimal.simps) (simp add: digit_def)
  then show ?thesis
    using parse_term_plain[of "''s''" "[]" 1000000000 0] parse_terms_step[of "''0s''" 0 "[]" 0] by simp
qed

lemma parse_text: "u \<le> 2 ^ 63 \<Longrightarrow> parse_terms (fmt_text u) 0 = Some u"
  using parse_zero parse_small[of "''ns''" 0 u] parse_small[of "micro @ ''s''" 3 u] parse_small[of "''ms''" 6 u]
    parse_large[of u] by (simp add: fmt_text_def)

lemma fmt_text_head: "fmt_text u \<noteq> []" "is_decimal (hd (fmt_text u))"
  using text_head by (simp_all add: fmt_text_def is_decimal_alt)

lemma parse_no_unit: "parse_terms ''0'' 0 = None"
  by (simp add: parse_terms.simps parse_term_def is_decimal_alt digit_value_def numeric_def Let_def)

lemma parse_signed:
  assumes "parse_terms (c # cs) 0 = Some n" "c \<noteq> CHR ''-''" "c \<noteq> CHR ''+''"
  shows "ParseDuration (CHR ''-'' # c # cs) = Some (- int n)" "n \<le> 2 ^ 63 - 1 \<Longrightarrow> ParseDuration (c # cs) = Some (int n)"
proof -
  have "c # cs \<noteq> ''0''" using assms(1) parse_no_unit by auto
  then show "ParseDuration (CHR ''-'' # c # cs) = Some (- int n)"
    "n \<le> 2 ^ 63 - 1 \<Longrightarrow> ParseDuration (c # cs) = Some (int n)"
    using assms by (auto simp: ParseDuration_def)
qed

lemma ParseDuration_String:
  assumes d: "min_int64 \<le> d" "d \<le> max_int64"
  shows "ParseDuration (Duration_String d) = Some d"
proof -
  let ?u = "nat \<bar>d\<bar>"
  have u: "?u \<le> 2 ^ 63" "0 \<le> d \<Longrightarrow> ?u \<le> 2 ^ 63 - 1" using d by auto
  obtain c cs where t: "fmt_text ?u = c # cs" "is_decimal c"
    using fmt_text_head[of ?u] by (cases "fmt_text ?u") auto
  then have c: "c \<noteq> CHR ''-''" "c \<noteq> CHR ''+''" using signs_not_decimal by auto
  have "parse_terms (c # cs) 0 = Some ?u" using parse_text[OF u(1)] t(1) by simp
  note parsed = parse_signed[OF this c]
  show ?thesis
  proof (cases "d < 0")
    case True
    then have "Duration_String d = CHR ''-'' # c # cs" "- int ?u = d" using t(1) by (simp_all add: Duration_String_def)
    then show ?thesis using parsed(1) by (simp only:)
  next
    case False
    then have "Duration_String d = c # cs" "int ?u = d" using t(1) by (simp_all add: Duration_String_def)
    then show ?thesis using parsed(2) u(2) False by (simp only:)
  qed
qed

text \<open>
  C34. A duration survives printing and reading: for every int64 number of nanoseconds, fractions and signs
  included, \<^verbatim>\<open>FromString\<close> of its text is the duration, and so is decoding its JSON.
\<close>

theorem duration_text_roundtrip:
  assumes "min_int64 \<le> d" "d \<le> max_int64"
    and "unquote (quote (Duration_String d)) = Some (Duration_String d)"
  shows "FromString (Duration_String d) = Some d \<and> UnmarshalJSON unquote (MarshalJSON quote d) old = (True, d)"
  using ParseDuration_String[OF assms(1,2)] assms(3) by (simp add: FromString_def UnmarshalJSON_def MarshalJSON_def)

theorem duration_text_roundtrip_witness:
  "Duration_String (- 1500) = CHR ''-'' # ''1.5'' @ micro @ ''s'' \<and>
   UnmarshalJSON (\<lambda>b. Some (butlast (tl b))) (MarshalJSON (\<lambda>s. CHR 0x22 # s @ [CHR 0x22]) (- 1500)) 7 = (True, - 1500)"
proof
  show "Duration_String (- 1500) = CHR ''-'' # ''1.5'' @ micro @ ''s''"
  proof -
    have "char_of (53 :: nat) = CHR ''5''" "char_of (49 :: nat) = CHR ''1''" by code_simp+
    moreover from this have "decimal (Suc 0) = ''1''" by (subst decimal.simps) (simp add: digit_def)
    moreover from calculation have "fmtFrac 3 1500 False [] = (''.5'', Suc 0)"
      by (simp only: numeral_3_eq_3 fmtFrac.simps Let_def) (simp add: digit_def)
    ultimately show ?thesis by (simp add: Duration_String_def fmt_text_def fmt_small_def)
  qed
  show "UnmarshalJSON (\<lambda>b. Some (butlast (tl b))) (MarshalJSON (\<lambda>s. CHR 0x22 # s @ [CHR 0x22]) (- 1500)) 7 = (True, - 1500)"
    using duration_text_roundtrip[of "- 1500" "\<lambda>b. Some (butlast (tl b))" "\<lambda>s. CHR 0x22 # s @ [CHR 0x22]" 7]
    by (simp add: butlast_append)
qed

end
