(* ===== verification/Auth.thy ===== *)
theory Auth
  imports Prelude Regex GoTime
begin

text \<open>
  \<^verbatim>\<open>pkg/auth\<close>: who may call which route of the API. Parsing and checking a signed token, its expiry
  included, is a third-party package: \<open>parse\<close> is the name in the claims of a valid token, at a point in
  time; \<open>sign\<close> makes a token of a name, its expiry and its time of issue.
\<close>

section \<open>Claims\<close>

datatype Role = ADMIN | RW | RO

record UserClaims =
  uc_Name :: string
  uc_AllowedMethods :: "string list"
  uc_AllowedRoutes :: "pattern list"

fun roleMethod :: "Role \<Rightarrow> string list" where
  "roleMethod RW = [''DELETE'', ''GET'', ''PATCH'', ''POST'', ''PUT'']"
| "roleMethod RO = [''GET'']"
| "roleMethod ADMIN = []"

definition SPOOFS :: string where "SPOOFS = ''/spoofs''"
definition SPOOFS_HASH :: string where "SPOOFS_HASH = SPOOFS @ ''/hash''"
definition OVERRIDE :: string where "OVERRIDE = SPOOFS @ ''/override''"

definition endpointUserClaims :: "(Role, UserClaims list) gomap" where
  "endpointUserClaims =
     [(ADMIN, [\<lparr>uc_Name = ''ADMIN'', uc_AllowedMethods = roleMethod RW, uc_AllowedRoutes = [Anywhere any_rx]\<rparr>]),
      (RO, [\<lparr>uc_Name = ''DNSDIST-WORKER'', uc_AllowedMethods = roleMethod RO,
             uc_AllowedRoutes = [Anchored (word_rx SPOOFS), Anchored (word_rx SPOOFS_HASH)]\<rparr>]),
      (RW, [\<lparr>uc_Name = ''OVERRIDER'', uc_AllowedMethods = roleMethod RW,
             uc_AllowedRoutes = [Anchored (word_rx OVERRIDE)]\<rparr>,
            \<lparr>uc_Name = ''GSLB-OPERATOR'', uc_AllowedMethods = roleMethod RW,
             uc_AllowedRoutes = [Anchored (word_rx SPOOFS), Anchored (Seq (word_rx (SPOOFS @ ''/'')) any_rx)]\<rparr>])]"

text \<open>The names are distinct, so that the order of the map does not matter.\<close>

definition getUserClaims :: "string \<Rightarrow> UserClaims option" where
  "getUserClaims name = find (\<lambda>c. uc_Name c = name) (concat (map snd endpointUserClaims))"

section \<open>Validation\<close>

record TokenManager =
  tm_userClaims :: UserClaims
  tm_expiresAt :: int
  tm_current :: string
  tm_renewalBuffer :: int

datatype jwt_error = ErrUnAuthorized | ErrForbidden

fun error_Code :: "jwt_error \<Rightarrow> int" where
  "error_Code ErrUnAuthorized = 401"
| "error_Code ErrForbidden = 403"

definition Trim :: "string \<Rightarrow> string" where
  "Trim s = rev (dropWhile (\<lambda>c. c = CHR '' '') (rev (dropWhile (\<lambda>c. c = CHR '' '') s)))"

text \<open>
  Method and route are values of the context, which may be missing. The signing method is read from the token
  manager before the token is parsed, so that without a manager every validation dereferences nil.
\<close>

definition Validate_body :: "(string \<Rightarrow> string option) \<Rightarrow> string option \<Rightarrow> string option \<Rightarrow> string \<Rightarrow> jwt_error + unit" where
  "Validate_body parse method route tokenString =
     (case parse (Trim tokenString) of
        None \<Rightarrow> Inl ErrUnAuthorized
      | Some name \<Rightarrow>
          (case getUserClaims name of
             None \<Rightarrow> Inl ErrForbidden
           | Some userClaims \<Rightarrow>
               (case method of
                  None \<Rightarrow> Inl ErrForbidden
                | Some method \<Rightarrow>
                    if method \<notin> set (uc_AllowedMethods userClaims) then Inl ErrUnAuthorized
                    else (case route of
                        None \<Rightarrow> Inl ErrForbidden
                      | Some route \<Rightarrow>
                          if list_ex (\<lambda>allowedRoute. MatchString allowedRoute route) (uc_AllowedRoutes userClaims)
                          then Inr () else Inl ErrForbidden))))"

definition Validate ::
  "(int \<Rightarrow> string \<Rightarrow> string option) \<Rightarrow> TokenManager option \<Rightarrow> int \<Rightarrow> string option \<Rightarrow> string option \<Rightarrow> string
    \<Rightarrow> (jwt_error + unit) res" where
  "Validate parse mgrInstance now method route tokenString =
     (if mgrInstance = None then Panic NilDeref
      else Ok (Validate_body (parse now) method route tokenString))"

text \<open>\<^verbatim>\<open>strings.Split\<close> with a separator that is not empty.\<close>

function Split :: "string \<Rightarrow> string \<Rightarrow> string \<Rightarrow> string list" where
  "Split sep done [] = [rev done]"
| "Split sep done (c # cs) =
     (if sep \<noteq> [] \<and> take (length sep) (c # cs) = sep
      then rev done # Split sep [] (drop (length sep) (c # cs))
      else Split sep (c # done) cs)"
  by pat_completeness auto
termination
  by (relation "measure (\<lambda>(sep, done, s). length s)") auto

text \<open>What the middleware does with a request: it answers with a status, or passes it on.\<close>

datatype outcome = Answered int | PassedOn

definition WithTokenValidation ::
  "(int \<Rightarrow> string \<Rightarrow> string option) \<Rightarrow> TokenManager option \<Rightarrow> int \<Rightarrow> string \<Rightarrow> string \<Rightarrow> string \<Rightarrow> outcome res" where
  "WithTokenValidation parse mgrInstance now authorization method url =
     (case Split ''Bearer'' [] authorization of
        _ # token # _ \<Rightarrow>
          bind (Validate parse mgrInstance now (Some method) (Some url) token) (\<lambda>r.
            (case r of
               Inl e \<Rightarrow> Ok (Answered (error_Code e))
             | Inr _ \<Rightarrow> Ok PassedOn))
      | _ \<Rightarrow> Panic IndexOutOfRange)"

section \<open>The service's own token\<close>

definition minute :: int where "minute = 60 * 10 ^ 9"

type_synonym signer = "string \<Rightarrow> int \<Rightarrow> int \<Rightarrow> string option"

text \<open>The expiry is set before signing, which may fail.\<close>

definition refreshToken :: "signer \<Rightarrow> int \<Rightarrow> int \<Rightarrow> TokenManager \<Rightarrow> bool \<times> TokenManager" where
  "refreshToken sign now issued tm =
     (let tm = tm\<lparr>tm_expiresAt := now + 30 * 24 * 60 * minute\<rparr>
      in case sign (uc_Name (tm_userClaims tm)) (tm_expiresAt tm) issued of
           None \<Rightarrow> (False, tm)
         | Some token \<Rightarrow> (True, tm\<lparr>tm_current := token\<rparr>))"

definition InitServiceTokenManager :: "signer \<Rightarrow> int \<Rightarrow> int \<Rightarrow> string \<Rightarrow> TokenManager option \<Rightarrow> bool \<times> TokenManager option" where
  "InitServiceTokenManager sign now issued userClaimsName mgrInstance =
     (case mgrInstance of
        Some tm \<Rightarrow> (True, mgrInstance)
      | None \<Rightarrow>
          (case getUserClaims userClaimsName of
             None \<Rightarrow> (False, None)
           | Some claims \<Rightarrow>
               let (ok, tm) = refreshToken sign now issued
                     \<lparr>tm_userClaims = claims, tm_expiresAt = 0, tm_current = [], tm_renewalBuffer = 5 * minute\<rparr>
               in (ok, Some tm)))"

text \<open>
  The clock is read for the check, and twice more for a new token. The method may be called through the nil
  manager, which it then reports.
\<close>

definition GetServiceToken ::
  "signer \<Rightarrow> int \<times> int \<times> int \<Rightarrow> TokenManager option \<Rightarrow> string option \<times> TokenManager option" where
  "GetServiceToken sign = (\<lambda>(checked, now, issued) mgrInstance.
     (case mgrInstance of
        None \<Rightarrow> (None, None)
      | Some tm \<Rightarrow>
          if checked + tm_renewalBuffer tm > tm_expiresAt tm then
            let (ok, tm) = refreshToken sign now issued tm
            in (if ok then Some (''Bearer '' @ tm_current tm) else None, Some tm)
          else (Some (''Bearer '' @ tm_current tm), Some tm)))"

fun token_calls :: "signer \<Rightarrow> (int \<times> int \<times> int) list \<Rightarrow> TokenManager option \<Rightarrow> TokenManager option" where
  "token_calls sign [] tm = tm"
| "token_calls sign (t # ts) tm = token_calls sign ts (snd (GetServiceToken sign t tm))"

section \<open>Properties\<close>

text \<open>The policy as a table.\<close>

definition allowed :: "string \<Rightarrow> string \<Rightarrow> string \<Rightarrow> bool" where
  "allowed name method route \<longleftrightarrow>
     (let write = method \<in> {''DELETE'', ''GET'', ''PATCH'', ''POST'', ''PUT''} in
      name = ''ADMIN'' \<and> write \<or>
      name = ''DNSDIST-WORKER'' \<and> method = ''GET'' \<and> (route = ''/spoofs'' \<or> route = ''/spoofs/hash'') \<or>
      name = ''OVERRIDER'' \<and> write \<and> route = ''/spoofs/override'' \<or>
      name = ''GSLB-OPERATOR'' \<and> write \<and>
        (route = ''/spoofs'' \<or> (\<exists>rest. route = ''/spoofs/'' @ rest \<and> CHR 0x0A \<notin> set rest)))"

lemma getUserClaims_cases:
  "getUserClaims name =
     (if name = ''ADMIN'' then Some \<lparr>uc_Name = ''ADMIN'', uc_AllowedMethods = roleMethod RW, uc_AllowedRoutes = [Anywhere any_rx]\<rparr>
      else if name = ''DNSDIST-WORKER'' then Some \<lparr>uc_Name = ''DNSDIST-WORKER'', uc_AllowedMethods = roleMethod RO,
             uc_AllowedRoutes = [Anchored (word_rx SPOOFS), Anchored (word_rx SPOOFS_HASH)]\<rparr>
      else if name = ''OVERRIDER'' then Some \<lparr>uc_Name = ''OVERRIDER'', uc_AllowedMethods = roleMethod RW,
             uc_AllowedRoutes = [Anchored (word_rx OVERRIDE)]\<rparr>
      else if name = ''GSLB-OPERATOR'' then Some \<lparr>uc_Name = ''GSLB-OPERATOR'', uc_AllowedMethods = roleMethod RW,
             uc_AllowedRoutes = [Anchored (word_rx SPOOFS), Anchored (Seq (word_rx (SPOOFS @ ''/'')) any_rx)]\<rparr>
      else None)"
  by (simp add: getUserClaims_def endpointUserClaims_def)

lemmas route_defs = SPOOFS_def SPOOFS_HASH_def OVERRIDE_def

lemma Validate_allowed:
  "Validate_body parse (Some method) (Some route) token = Inr () \<longleftrightarrow>
    (\<exists>name. parse (Trim token) = Some name \<and> allowed name method route)"
proof (cases "parse (Trim token)")
  case None
  then show ?thesis by (simp add: Validate_body_def)
next
  case (Some name)
  have policy: "(case getUserClaims name of None \<Rightarrow> False
         | Some uc \<Rightarrow> method \<in> set (uc_AllowedMethods uc) \<and> list_ex (\<lambda>r. MatchString r route) (uc_AllowedRoutes uc))
        \<longleftrightarrow> allowed name method route"
  proof -
    consider "name = ''ADMIN''" | "name = ''DNSDIST-WORKER''" | "name = ''OVERRIDER''" | "name = ''GSLB-OPERATOR''"
      | "name \<notin> {''ADMIN'', ''DNSDIST-WORKER'', ''OVERRIDER'', ''GSLB-OPERATOR''}" by blast
    then show ?thesis
      by cases (simp_all add: getUserClaims_cases allowed_def MatchString_word MatchString_prefix
          MatchString_any route_defs del: MatchString.simps word_rx.simps)
  qed
  have "Validate_body parse (Some method) (Some route) token = Inr () \<longleftrightarrow>
      (case getUserClaims name of None \<Rightarrow> False
       | Some uc \<Rightarrow> method \<in> set (uc_AllowedMethods uc) \<and> list_ex (\<lambda>r. MatchString r route) (uc_AllowedRoutes uc))"
    by (simp add: Some Validate_body_def split: option.split)
  with policy Some show ?thesis by simp
qed

lemma Split_not_Nil: "Split sep acc s \<noteq> []"
  by (induction sep acc s rule: Split.induct) auto

lemma Split_two: "(\<exists>a b c. Split sep acc s = a # b # c) \<longleftrightarrow> sep \<noteq> [] \<and> (\<exists>a b. s = a @ sep @ b)"
proof (induction sep acc s rule: Split.induct)
  case (1 sep acc)
  then show ?case by simp
next
  case (2 sep acc c cs)
  show ?case
  proof (cases "sep \<noteq> [] \<and> take (length sep) (c # cs) = sep")
    case True
    obtain b d where "Split sep [] (drop (length sep) (c # cs)) = b # d"
      using Split_not_Nil by (meson neq_Nil_conv)
    moreover have "c # cs = [] @ sep @ drop (length sep) (c # cs)"
      using True by (metis append_Nil append_take_drop_id)
    ultimately have "\<exists>a b. c # cs = a @ sep @ b" "\<exists>a b d. Split sep acc (c # cs) = a # b # d"
      using True by (blast, simp)
    with True show ?thesis by blast
  next
    case False
    then have "(\<exists>a b. c # cs = a @ sep @ b) \<longleftrightarrow> sep = [] \<or> (\<exists>a b. cs = a @ sep @ b)"
      by (auto simp: Cons_eq_append_conv)
    with False 2(2) show ?thesis by auto
  qed
qed

text \<open>
  C10. Access control: a request passes the validation exactly when its token is valid and the policy allows its
  method and route to the name in the token; what the token itself claims about methods and routes has no effect.
\<close>

theorem validation_enforces_policy:
  "Validate parse (Some tm) now (Some method) (Some route) token = Ok (Inr ()) \<longleftrightarrow>
    (\<exists>name. parse now (Trim token) = Some name \<and> allowed name method route)"
  by (simp add: Validate_def Validate_allowed)

text \<open>
  A request whose \<^verbatim>\<open>Authorization\<close> header does not contain the word \<^verbatim>\<open>Bearer\<close>, such as one without the
  header, makes the middleware index out of range; every other request is answered or passed on.
\<close>

theorem missing_bearer_panics:
  "WithTokenValidation parse (Some tm) now authorization method url = Panic IndexOutOfRange \<longleftrightarrow>
    \<not> (\<exists>a b. authorization = a @ ''Bearer'' @ b)"
  using Split_two[of "''Bearer''" "[]" authorization]
  by (auto simp: WithTokenValidation_def Validate_def split: list.splits sum.splits)

subsection \<open>The service's token is accepted\<close>

definition plain_token :: "string \<Rightarrow> bool" where
  "plain_token tok \<longleftrightarrow> \<not> (\<exists>a b. tok = a @ ''Bearer'' @ b) \<and> tok \<noteq> [] \<and> hd tok \<noteq> CHR '' '' \<and> List.last tok \<noteq> CHR '' ''"

lemma Trim_plain: "plain_token tok \<Longrightarrow> Trim (CHR '' '' # tok) = tok"
proof -
  assume "plain_token tok"
  then have tok: "tok \<noteq> []" "hd tok \<noteq> CHR '' ''" "hd (rev tok) \<noteq> CHR '' ''"
    by (simp_all add: plain_token_def hd_rev)
  then have "dropWhile (\<lambda>c. c = CHR '' '') tok = tok" "dropWhile (\<lambda>c. c = CHR '' '') (rev tok) = rev tok"
    by (cases tok, simp_all) (cases "rev tok", simp_all)
  then show ?thesis by (simp add: Trim_def)
qed

lemma Split_none: "sep \<noteq> [] \<Longrightarrow> \<not> (\<exists>a b. s = a @ sep @ b) \<Longrightarrow> Split sep acc s = [rev acc @ s]"
proof (induction sep acc s rule: Split.induct)
  case (2 sep acc c cs)
  have "take (length sep) (c # cs) \<noteq> sep"
    using 2(4) by (metis append_Nil append_take_drop_id)
  moreover have "\<not> (\<exists>a b. cs = a @ sep @ b)" using 2(4) by (metis append_Cons)
  ultimately show ?case using 2 by simp
qed simp

lemma Split_bearer:
  assumes "plain_token tok"
  shows "Split ''Bearer'' [] (''Bearer '' @ tok) = [[], CHR '' '' # tok]"
proof -
  have no: "\<not> (\<exists>a b. CHR '' '' # tok = a @ ''Bearer'' @ b)"
    using assms by (auto simp: plain_token_def Cons_eq_append_conv)
  have "Split ''Bearer'' [] (CHR '' '' # tok) = [CHR '' '' # tok]"
    using Split_none[OF _ no, of "[]"] by (simp only: rev.simps append_Nil) blast
  then show ?thesis by simp
qed

definition token_ok :: "signer \<Rightarrow> string \<Rightarrow> TokenManager option \<Rightarrow> bool" where
  "token_ok sign user mgrInstance =
     (case mgrInstance of
        None \<Rightarrow> False
      | Some tm \<Rightarrow> uc_Name (tm_userClaims tm) = user \<and> tm_renewalBuffer tm = 5 * minute \<and>
          (\<exists>issued. sign user (tm_expiresAt tm) issued = Some (tm_current tm)))"

lemma refreshToken_ok:
  assumes "sign (uc_Name (tm_userClaims tm)) (now + 30 * 24 * 60 * minute) issued = Some tok"
  shows "refreshToken sign now issued tm =
    (True, tm\<lparr>tm_expiresAt := now + 30 * 24 * 60 * minute, tm_current := tok\<rparr>)"
  using assms by (simp add: refreshToken_def)

lemma getUserClaims_name: "getUserClaims name = Some uc \<Longrightarrow> uc_Name uc = name"
  by (auto simp: getUserClaims_cases split: if_splits)

lemma Init_token_ok:
  assumes signs: "\<And>name expiry issued. \<exists>tok. sign name expiry issued = Some tok"
    and init: "InitServiceTokenManager sign now issued user None = (True, tm)"
  shows "token_ok sign user tm"
proof -
  obtain uc where uc: "getUserClaims user = Some uc"
    using init by (auto simp: InitServiceTokenManager_def split: option.splits)
  obtain tok where "sign user (now + 30 * 24 * 60 * minute) issued = Some tok" using signs by blast
  with init uc show ?thesis
    by (auto simp: InitServiceTokenManager_def token_ok_def refreshToken_ok getUserClaims_name)
qed

lemma GetServiceToken_ok:
  assumes signs: "\<And>name expiry issued. \<exists>tok. sign name expiry issued = Some tok"
    and ok: "token_ok sign user m" and le: "checked \<le> now"
  obtains tok tm expiry issued' where
    "GetServiceToken sign (checked, now, issued) m = (Some (''Bearer '' @ tok), Some tm)"
    "sign user expiry issued' = Some tok" "checked + 5 * minute \<le> expiry" "token_ok sign user (Some tm)"
proof -
  obtain tm i where m: "m = Some tm" and user: "uc_Name (tm_userClaims tm) = user" "tm_renewalBuffer tm = 5 * minute"
    and cur: "sign user (tm_expiresAt tm) i = Some (tm_current tm)"
    using ok by (auto simp: token_ok_def split: option.splits)
  show thesis
  proof (cases "checked + tm_renewalBuffer tm > tm_expiresAt tm")
    case False
    show thesis
      by (rule that[of "tm_current tm" tm "tm_expiresAt tm" i])
        (use False m user cur ok in \<open>auto simp: GetServiceToken_def\<close>)
  next
    case True
    obtain tok where tok: "sign user (now + 30 * 24 * 60 * minute) issued = Some tok" using signs by blast
    show thesis
      by (rule that[of tok "tm\<lparr>tm_expiresAt := now + 30 * 24 * 60 * minute, tm_current := tok\<rparr>"
            "now + 30 * 24 * 60 * minute" issued])
        (use True m user tok le in \<open>auto simp: GetServiceToken_def refreshToken_ok token_ok_def minute_def\<close>)
  qed
qed

lemma token_calls_ok:
  assumes signs: "\<And>name expiry issued. \<exists>tok. sign name expiry issued = Some tok"
  shows "token_ok sign user m \<Longrightarrow> \<forall>(checked, now, issued) \<in> set ts. checked \<le> now \<Longrightarrow>
    token_ok sign user (token_calls sign ts m)"
proof (induction ts arbitrary: m)
  case (Cons t ts)
  obtain checked now issued where t: "t = (checked, now, issued)" by (cases t)
  have "checked \<le> now" using Cons.prems(2) t by simp
  then obtain tok tm where "GetServiceToken sign t m = (Some (''Bearer '' @ tok), Some tm)" "token_ok sign user (Some tm)"
    using GetServiceToken_ok[OF signs Cons.prems(1), of checked now issued] t by metis
  with Cons show ?case by simp
qed simp

text \<open>
  C11. The token that the service gives itself is accepted: after any number of earlier calls, the header that
  \<^verbatim>\<open>GetServiceToken\<close> returns is not refused or answered otherwise than by the policy for at least five minutes,
  up to the second to which the expiry is cut, as long as signing succeeds and validation accepts what was signed.
\<close>

theorem service_token_accepted:
  assumes signs: "\<And>name expiry issued. \<exists>tok. sign name expiry issued = Some tok \<and> plain_token tok"
    and law: "\<And>name expiry issued tok now. sign name expiry issued = Some tok \<Longrightarrow>
      now < expiry div Second * Second \<Longrightarrow> parse now tok = Some name"
    and init: "InitServiceTokenManager sign now0 issued0 user None = (True, tm0)"
    and clock: "\<forall>(checked, now, issued) \<in> set ts. checked \<le> now" "checked \<le> now"
    and use: "used + Second < checked + 5 * minute"
  shows "\<exists>header tm. GetServiceToken sign (checked, now, issued) (token_calls sign ts tm0) = (Some header, tm) \<and>
      (\<exists>out. WithTokenValidation parse tm used header meth url = Ok out \<and> (out = PassedOn \<longleftrightarrow> allowed user meth url))"
proof -
  have signs': "\<exists>tok. sign name expiry issued = Some tok" for name expiry issued using signs by blast
  obtain tok tm expiry i where get: "GetServiceToken sign (checked, now, issued) (token_calls sign ts tm0) =
      (Some (''Bearer '' @ tok), Some tm)" and tok: "sign user expiry i = Some tok" "checked + 5 * minute \<le> expiry"
    by (rule GetServiceToken_ok[OF signs' token_calls_ok[OF signs' Init_token_ok[OF signs' init] clock(1)] clock(2)])
  have "expiry mod Second < Second" by simp
  then have "used < expiry div Second * Second" using use tok(2) by (simp add: minus_mod_eq_div_mult [symmetric])
  then have parse: "parse used tok = Some user" using law tok(1) by blast
  have plain: "plain_token tok" using signs[of user expiry i] tok(1) by auto
  have "Validate_body (parse used) (Some meth) (Some url) (CHR '' '' # tok) = Inr () \<longleftrightarrow> allowed user meth url"
    by (simp add: Validate_allowed Trim_plain plain parse)
  then show ?thesis
    by (auto simp: get WithTokenValidation_def Split_bearer[OF plain] Validate_def split: sum.splits
        simp del: append_Cons Split.simps)
qed

text \<open>A signer and a parser for the witness: every character of the name as a number in base one.\<close>

definition unary_sign :: signer where
  "unary_sign name expiry issued =
     Some (CHR ''0'' # concat (map (\<lambda>c. replicate (of_char c) CHR ''1'' @ ''0'') name))"

fun unary_name :: "nat \<Rightarrow> string \<Rightarrow> string" where
  "unary_name n [] = []"
| "unary_name n (c # cs) = (if c = CHR ''1'' then unary_name (Suc n) cs else char_of n # unary_name 0 cs)"

lemma unary_name_replicate:
  "unary_name n (replicate k CHR ''1'' @ CHR ''0'' # s) = char_of (n + k) # unary_name 0 s"
  by (induction k arbitrary: n) auto

lemma unary_name_sign: "unary_name 0 (concat (map (\<lambda>c. replicate (of_char c) CHR ''1'' @ ''0'') name)) = name"
  by (induction name) (simp_all add: unary_name_replicate)

lemma unary_sign_plain: "\<exists>tok. unary_sign name expiry issued = Some tok \<and> plain_token tok"
proof -
  let ?body = "concat (map (\<lambda>c. replicate (of_char c) CHR ''1'' @ ''0'') name)"
  have "set (CHR ''0'' # ?body) \<subseteq> {CHR ''0'', CHR ''1''}" by auto
  then have "CHR ''B'' \<notin> set (CHR ''0'' # ?body)" "CHR '' '' \<notin> set (CHR ''0'' # ?body)" by auto
  moreover from this(1) have "\<not> (\<exists>a b. CHR ''0'' # ?body = a @ ''Bearer'' @ b)"
    by (metis Un_iff append_Cons list.set_intros(1) set_append)
  moreover have "List.last (CHR ''0'' # ?body) \<in> set (CHR ''0'' # ?body)" by (rule last_in_set) simp
  ultimately show ?thesis unfolding unary_sign_def plain_token_def by (metis list.distinct(1) list.sel(1) list.set_intros(1))
qed

lemma unary_parse:
  "unary_sign name expiry issued = Some tok \<Longrightarrow> Some (unary_name 0 (tl tok)) = Some name"
  by (auto simp: unary_sign_def unary_name_sign)

theorem service_token_accepted_witness:
  "\<exists>header tm out.
     GetServiceToken unary_sign (20, 21, 22)
       (token_calls unary_sign [(8, 9, 10)] (snd (InitServiceTokenManager unary_sign 5 6 ''GSLB-OPERATOR'' None))) = (Some header, tm)
     \<and> WithTokenValidation (\<lambda>now tok. Some (unary_name 0 (tl tok))) tm 30 header ''POST'' ''/spoofs/x'' = Ok out
     \<and> (out = PassedOn \<longleftrightarrow> allowed ''GSLB-OPERATOR'' ''POST'' ''/spoofs/x'')"
proof -
  have "InitServiceTokenManager unary_sign 5 6 ''GSLB-OPERATOR'' None =
      (True, snd (InitServiceTokenManager unary_sign 5 6 ''GSLB-OPERATOR'' None))"
    by (simp add: InitServiceTokenManager_def getUserClaims_cases refreshToken_def unary_sign_def del: word_rx.simps)
  from service_token_accepted[where parse = "\<lambda>now tok. Some (unary_name 0 (tl tok))" and ts = "[(8, 9, 10)]"
      and checked = 20 and now = 21 and issued = 22 and used = 30 and meth = "''POST''" and url = "''/spoofs/x''",
      OF unary_sign_plain unary_parse this]
  show ?thesis by (simp add: minute_def)
qed

end
