(* ===== verification/Reflect.thy ===== *)
theory Reflect
  imports Decimal Auth
begin

text \<open>
  Structs filled through reflection: \<^verbatim>\<open>pkg/rest/request/url_params.go\<close> and the field setter of
  \<^verbatim>\<open>pkg/loaders\<close>. A struct is the list of its fields, each with its tags, whether it is exported, and its
  value; the kind of a value is fixed by its type. \<open>FOther\<close> is a field of any other kind, \<open>NotStruct\<close> a
  destination that is not a struct.
\<close>

section \<open>Fields\<close>

datatype fval = FString string | FInt nat int | FBool bool | FStrings "string list" | FOther nat

datatype kind = KString | KInt nat | KBool | KStrings | KOther nat

fun Kind :: "fval \<Rightarrow> kind" where
  "Kind (FString s) = KString"
| "Kind (FInt w n) = KInt w"
| "Kind (FBool b) = KBool"
| "Kind (FStrings ss) = KStrings"
| "Kind (FOther t) = KOther t"

record field =
  fd_name :: string
  fd_tags :: "(string, string) gomap"
  fd_exported :: bool
  fd_val :: fval

datatype dest = Struct "field list" | NotStruct

abbreviation Lookup :: "field \<Rightarrow> string \<Rightarrow> string option" where
  "Lookup f tag \<equiv> mget (fd_tags f) tag"

text \<open>\<^verbatim>\<open>SetInt\<close> on a field of \<open>w\<close> bits keeps the low bits.\<close>

definition SetInt :: "nat \<Rightarrow> int \<Rightarrow> fval" where
  "SetInt w n = FInt w ((n + 2 ^ (w - 1)) mod 2 ^ w - 2 ^ (w - 1))"

text \<open>Both setters return None for an error, and leave fields of other kinds alone.\<close>

fun setField :: "fval \<Rightarrow> string \<Rightarrow> fval option" where
  "setField (FString _) value = Some (FString value)"
| "setField (FInt w _) value = map_option (SetInt w) (ParseInt value)"
| "setField (FBool _) value = map_option FBool (ParseBool value)"
| "setField v value = Some v"

fun setEnvironmentVariable :: "fval \<Rightarrow> string \<Rightarrow> fval option" where
  "setEnvironmentVariable (FString _) value = Some (FString value)"
| "setEnvironmentVariable (FInt w _) value = map_option (SetInt w) (ParseInt value)"
| "setEnvironmentVariable (FBool _) value = map_option FBool (ParseBool value)"
| "setEnvironmentVariable (FStrings _) value = Some (FStrings (Split '','' [] value))"
| "setEnvironmentVariable v value = Some v"

section \<open>URL parameters\<close>

type_synonym url_values = "(string, string list) gomap"

definition Values_Get :: "url_values \<Rightarrow> string \<Rightarrow> string" where
  "Values_Get vs key = (case mget vs key of Some (v # _) \<Rightarrow> v | _ \<Rightarrow> [])"

definition Values_Add :: "string \<Rightarrow> string \<Rightarrow> url_values \<Rightarrow> url_values" where
  "Values_Add key val vs = mput key (case mget vs key of None \<Rightarrow> [val] | Some old \<Rightarrow> old @ [val]) vs"

text \<open>
  The fields in order; an error leaves those before it set. A field that is not exported cannot be set,
  which \<open>setField\<close> takes for success.
\<close>

definition unmarshall_field :: "url_values \<Rightarrow> field \<Rightarrow> field option" where
  "unmarshall_field vs f =
     (case Lookup f ''param'' of
        None \<Rightarrow> Some f
      | Some tag \<Rightarrow>
          let value = (if mget vs tag = None then [] else Values_Get vs tag)
          in if value = [] \<or> \<not> fd_exported f then Some f
             else map_option (\<lambda>v. f\<lparr>fd_val := v\<rparr>) (setField (fd_val f) value))"

fun each_field :: "(field \<Rightarrow> field option) \<Rightarrow> field list \<Rightarrow> bool \<times> field list" where
  "each_field set_it [] = (True, [])"
| "each_field set_it (f # fs) =
     (case set_it f of
        None \<Rightarrow> (False, f # fs)
      | Some f \<Rightarrow> let (ok, fs) = each_field set_it fs in (ok, f # fs))"

fun UnMarshallParams :: "url_values \<Rightarrow> dest \<Rightarrow> bool \<times> dest" where
  "UnMarshallParams vs NotStruct = (False, NotStruct)"
| "UnMarshallParams vs (Struct fs) = (let (ok, fs) = each_field (unmarshall_field vs) fs in (ok, Struct fs))"

text \<open>Reading a tagged field that is not exported panics; only strings are kept.\<close>

fun marshall_fields :: "field list \<Rightarrow> url_values \<Rightarrow> url_values res" where
  "marshall_fields [] values = Ok values"
| "marshall_fields (f # fs) values =
     (case Lookup f ''param'' of
        None \<Rightarrow> marshall_fields fs values
      | Some tag \<Rightarrow>
          if \<not> fd_exported f then Panic UnexportedField
          else (case fd_val f of
              FString val \<Rightarrow> marshall_fields fs (Values_Add tag val values)
            | _ \<Rightarrow> marshall_fields fs values))"

fun MarshallParams :: "dest \<Rightarrow> url_values res" where
  "MarshallParams NotStruct = Ok []"
| "MarshallParams (Struct fs) = marshall_fields fs []"

section \<open>Properties\<close>

text \<open>What no setter changes of a field, and the range of integers.\<close>

definition same_shape :: "field \<Rightarrow> field \<Rightarrow> bool" where
  "same_shape f g \<longleftrightarrow> fd_name g = fd_name f \<and> fd_tags g = fd_tags f \<and> fd_exported g = fd_exported f \<and>
     Kind (fd_val g) = Kind (fd_val f) \<and> (\<not> fd_exported f \<longrightarrow> g = f)"

fun in_range :: "fval \<Rightarrow> bool" where
  "in_range (FInt w n) \<longleftrightarrow> 0 < w \<and> w \<le> 64 \<and> - (2 ^ (w - 1)) \<le> n \<and> n < 2 ^ (w - 1)"
| "in_range v = True"

lemma SetInt_in_range: "0 < w \<Longrightarrow> w \<le> 64 \<Longrightarrow> in_range (SetInt w n)"
proof -
  assume w: "0 < w" "w \<le> 64"
  have "(2 :: int) ^ w = 2 * 2 ^ (w - 1)" using w(1) by (simp add: power_eq_if)
  then have "(n + 2 ^ (w - 1)) mod 2 ^ w < 2 * 2 ^ (w - 1)" by (metis pos_mod_bound zero_less_numeral zero_less_power)
  then show ?thesis using w by (simp add: SetInt_def)
qed

lemma Kind_SetInt [simp]: "Kind (SetInt w n) = KInt w"
  by (simp add: SetInt_def)

lemma setEnvironmentVariable_typed:
  "setEnvironmentVariable v s = Some v' \<Longrightarrow> Kind v' = Kind v \<and> (in_range v \<longrightarrow> in_range v')"
  by (cases v) (auto simp: SetInt_in_range)

lemma setField_typed: "setField v s = Some v' \<Longrightarrow> Kind v' = Kind v \<and> (in_range v \<longrightarrow> in_range v')"
  by (cases v) (auto simp: SetInt_in_range)

lemma same_shape_refl [simp]: "same_shape f f"
  by (simp add: same_shape_def)

lemma same_shape_trans: "same_shape f g \<Longrightarrow> same_shape g h \<Longrightarrow> same_shape f h"
  by (auto simp: same_shape_def)

text \<open>A property of every single field holds of a whole struct, whether or not the loop stopped at an error.\<close>

lemma each_field_rel:
  assumes "\<And>f g. set_it f = Some g \<Longrightarrow> R f g" "\<And>f. R f f"
  shows "each_field set_it fs = (ok, gs) \<Longrightarrow> list_all2 R fs gs"
proof (induction fs arbitrary: ok gs)
  case (Cons f fs)
  then show ?case
    by (auto simp: assms list_all2_refl split: option.splits prod.splits)
qed simp

lemma each_field_total:
  "(\<And>f. f \<in> set fs \<Longrightarrow> set_it f = Some (g f)) \<Longrightarrow> each_field set_it fs = (True, map g fs)"
  by (induction fs) auto

definition typed :: "field \<Rightarrow> field \<Rightarrow> bool" where
  "typed f g \<longleftrightarrow> same_shape f g \<and> (in_range (fd_val f) \<longrightarrow> in_range (fd_val g))"

lemma typed_refl [simp]: "typed f f"
  by (simp add: typed_def)

lemma typed_trans: "typed f g \<Longrightarrow> typed g h \<Longrightarrow> typed f h"
  by (auto simp: typed_def intro: same_shape_trans)

lemma typed_update:
  "fd_exported f \<Longrightarrow> Kind v = Kind (fd_val f) \<Longrightarrow> (in_range (fd_val f) \<Longrightarrow> in_range v) \<Longrightarrow> typed f (f\<lparr>fd_val := v\<rparr>)"
  by (simp add: typed_def same_shape_def)

lemma unmarshall_field_typed: "unmarshall_field vs f = Some g \<Longrightarrow> typed f g"
  by (auto simp: unmarshall_field_def Let_def dest: setField_typed intro: typed_update split: option.splits if_splits)

subsection \<open>Marshalling and reading back\<close>

definition param_of :: "field \<Rightarrow> (string \<times> string) option" where
  "param_of f = (case (Lookup f ''param'', fd_val f) of (Some tag, FString val) \<Rightarrow> Some (tag, val) | _ \<Rightarrow> None)"

lemma marshall_fields_lookup:
  assumes "\<forall>f \<in> set fs. Lookup f ''param'' \<noteq> None \<longrightarrow> fd_exported f"
  shows "\<exists>out. marshall_fields fs vs = Ok out \<and>
    (\<forall>tag. tag \<notin> fst ` set (List.map_filter param_of fs) \<longrightarrow> mget out tag = mget vs tag) \<and>
    (distinct (map fst (List.map_filter param_of fs)) \<and> (\<forall>f tag val. f \<in> set fs \<longrightarrow> param_of f = Some (tag, val) \<longrightarrow> mget vs tag = None) \<longrightarrow>
      (\<forall>f tag val. f \<in> set fs \<longrightarrow> param_of f = Some (tag, val) \<longrightarrow> mget out tag = Some [val]))"
  using assms
proof (induction fs arbitrary: vs)
  case (Cons f fs)
  show ?case
  proof (cases "param_of f")
    case None
    then have step: "marshall_fields (f # fs) vs = marshall_fields fs vs"
      using Cons.prems by (auto simp: param_of_def split: option.splits fval.splits)
    have mf: "List.map_filter param_of (f # fs) = List.map_filter param_of fs"
      using None by (simp add: map_filter_simps)
    show ?thesis
      using Cons.IH[of vs] Cons.prems None unfolding step mf by auto
  next
    case (Some p)
    obtain tag val where p: "p = (tag, val)" by (cases p)
    then have f: "Lookup f ''param'' = Some tag" "fd_val f = FString val"
      using Some by (auto simp: param_of_def split: option.splits fval.splits)
    have step: "marshall_fields (f # fs) vs = marshall_fields fs (Values_Add tag val vs)"
      using Cons.prems f by auto
    have mf: "List.map_filter param_of (f # fs) = (tag, val) # List.map_filter param_of fs"
      using Some p by (simp add: map_filter_simps)
    obtain out where out: "marshall_fields fs (Values_Add tag val vs) = Ok out"
      and frame: "\<forall>t. t \<notin> fst ` set (List.map_filter param_of fs) \<longrightarrow> mget out t = mget (Values_Add tag val vs) t"
      and hit: "distinct (map fst (List.map_filter param_of fs)) \<and>
        (\<forall>f t v. f \<in> set fs \<longrightarrow> param_of f = Some (t, v) \<longrightarrow> mget (Values_Add tag val vs) t = None) \<longrightarrow>
        (\<forall>f t v. f \<in> set fs \<longrightarrow> param_of f = Some (t, v) \<longrightarrow> mget out t = Some [v])"
      using Cons.IH[of "Values_Add tag val vs"] Cons.prems by auto
    have in_fs: "t \<in> fst ` set (List.map_filter param_of fs)" if "f' \<in> set fs" "param_of f' = Some (t, v)" for f' t v
      using that by (force simp: List.map_filter_def)
    show ?thesis
      unfolding step mf
    proof (intro exI[of _ out] conjI allI impI)
      show "marshall_fields fs (Values_Add tag val vs) = Ok out" by (rule out)
    next
      fix t assume "t \<notin> fst ` set ((tag, val) # List.map_filter param_of fs)"
      then show "mget out t = mget vs t" using frame by (auto simp: Values_Add_def mget_mput)
    next
      fix f' t v
      assume d: "distinct (map fst ((tag, val) # List.map_filter param_of fs)) \<and>
          (\<forall>f' t v. f' \<in> set (f # fs) \<longrightarrow> param_of f' = Some (t, v) \<longrightarrow> mget vs t = None)"
        and f': "f' \<in> set (f # fs)" "param_of f' = Some (t, v)"
      have new: "tag \<notin> fst ` set (List.map_filter param_of fs)" "mget vs tag = None"
        using d Some p by auto
      have "\<forall>f t v. f \<in> set fs \<longrightarrow> param_of f = Some (t, v) \<longrightarrow> mget (Values_Add tag val vs) t = None"
        using d new(1) in_fs by (auto simp: Values_Add_def mget_mput)
      moreover have "mget out tag = Some [val]"
        using frame new by (simp add: Values_Add_def mget_mput)
      ultimately show "mget out t = Some [v]" using f' hit d Some p by auto
    qed
  qed
qed (simp add: map_filter_simps)

abbreviation param_tags :: "field list \<Rightarrow> string list" where
  "param_tags fs \<equiv> List.map_filter (\<lambda>f. Lookup f ''param'') fs"

lemma map_filter_distinct_eq:
  "distinct (List.map_filter g xs) \<Longrightarrow> x \<in> set xs \<Longrightarrow> y \<in> set xs \<Longrightarrow> g x = Some t \<Longrightarrow> g y = Some t \<Longrightarrow> x = y"
proof (induction xs)
  case (Cons a xs)
  have mem: "t \<in> set (List.map_filter g xs)" if "z \<in> set xs" "g z = Some t" for z
    using that by (force simp: List.map_filter_def)
  show ?case
  proof (cases "g a")
    case None
    then show ?thesis using Cons by (auto simp: map_filter_simps)
  next
    case (Some u)
    then have "u \<notin> set (List.map_filter g xs)" "distinct (List.map_filter g xs)"
      using Cons.prems(1) by (simp_all add: map_filter_simps)
    then show ?thesis using Cons mem Some by auto
  qed
qed simp

lemma param_of_tag: "param_of f = Some (tag, val) \<Longrightarrow> Lookup f ''param'' = Some tag"
  by (auto simp: param_of_def split: option.splits fval.splits)

lemma param_of_names: "fst ` set (List.map_filter param_of fs) \<subseteq> set (param_tags fs)"
  by (force simp: List.map_filter_def dest: param_of_tag)

lemma param_of_distinct: "distinct (param_tags fs) \<Longrightarrow> distinct (map fst (List.map_filter param_of fs))"
proof (induction fs)
  case (Cons f fs)
  show ?case
  proof (cases "param_of f")
    case None
    then show ?thesis using Cons by (auto simp: map_filter_simps split: option.splits)
  next
    case (Some p)
    then have "Lookup f ''param'' = Some (fst p)" by (metis param_of_tag prod.collapse)
    then show ?thesis
      using Cons Some param_of_names[of fs] by (auto simp: map_filter_simps)
  qed
qed (simp add: map_filter_simps)

text \<open>What the values of \<open>f\<close> make of a field \<open>d\<close> of the same type: only non-empty strings arrive.\<close>

definition received :: "field \<Rightarrow> field \<Rightarrow> field" where
  "received f d = (case param_of f of Some (tag, val) \<Rightarrow> if val = [] then d else d\<lparr>fd_val := FString val\<rparr> | None \<Rightarrow> d)"

definition same_type :: "field \<Rightarrow> field \<Rightarrow> bool" where
  "same_type f d \<longleftrightarrow> fd_tags d = fd_tags f \<and> fd_exported d = fd_exported f \<and> Kind (fd_val d) = Kind (fd_val f)"

definition carries :: "url_values \<Rightarrow> field \<Rightarrow> bool" where
  "carries vs f \<longleftrightarrow> (\<forall>tag. Lookup f ''param'' = Some tag \<longrightarrow>
     fd_exported f \<and> mget vs tag = (case fd_val f of FString val \<Rightarrow> Some [val] | _ \<Rightarrow> None))"

lemma unmarshall_received:
  assumes "carries vs f" "same_type f d"
  shows "unmarshall_field vs d = Some (received f d)"
  using assms
  by (cases "fd_val f"; cases "fd_val d")
    (auto simp: unmarshall_field_def received_def param_of_def carries_def same_type_def Values_Get_def Let_def split: option.splits)

lemma unmarshall_all:
  "list_all2 same_type fs ds \<Longrightarrow> list_all (carries vs) fs \<Longrightarrow>
    each_field (unmarshall_field vs) ds = (True, map2 received fs ds)"
  by (induction rule: list_all2_induct) (auto simp: unmarshall_received)

text \<open>
  Marshalling a struct into URL parameters and reading them into a struct of the same type transfers exactly
  the non-empty strings: other fields, empty strings included, keep what the destination had.
\<close>

theorem params_roundtrip:
  assumes exported: "\<forall>f \<in> set fs. Lookup f ''param'' \<noteq> None \<longrightarrow> fd_exported f"
    and distinct: "distinct (param_tags fs)"
    and types: "list_all2 same_type fs ds"
  shows "\<exists>vs. MarshallParams (Struct fs) = Ok vs \<and>
    UnMarshallParams vs (Struct ds) = (True, Struct (map2 received fs ds))"
proof -
  obtain vs where vs: "marshall_fields fs [] = Ok vs"
    and other: "\<And>tag. tag \<notin> fst ` set (List.map_filter param_of fs) \<Longrightarrow> mget vs tag = None"
    and hit: "\<And>f tag val. f \<in> set fs \<Longrightarrow> param_of f = Some (tag, val) \<Longrightarrow> mget vs tag = Some [val]"
    using marshall_fields_lookup[OF exported, of "[]"] param_of_distinct[OF distinct] by auto
  have "carries vs f" if f: "f \<in> set fs" for f
    unfolding carries_def
  proof (intro allI impI)
    fix tag assume tag: "Lookup f ''param'' = Some tag"
    show "fd_exported f \<and> mget vs tag = (case fd_val f of FString val \<Rightarrow> Some [val] | _ \<Rightarrow> None)"
    proof (cases "param_of f")
      case (Some p)
      then have "p = (tag, the (case fd_val f of FString val \<Rightarrow> Some val | _ \<Rightarrow> None))" "\<exists>val. fd_val f = FString val"
        using tag by (auto simp: param_of_def split: fval.splits)
      then show ?thesis using hit[OF f, of tag] exported f tag Some by auto
    next
      case None
      have "tag \<notin> fst ` set (List.map_filter param_of fs)"
      proof
        assume "tag \<in> fst ` set (List.map_filter param_of fs)"
        then obtain f' val where "f' \<in> set fs" "param_of f' = Some (tag, val)"
          by (force simp: List.map_filter_def)
        then show False using map_filter_distinct_eq[OF distinct f, of f' tag] tag param_of_tag None by auto
      qed
      then show ?thesis using other exported f tag None by (auto simp: param_of_def split: fval.splits)
    qed
  qed
  then show ?thesis using vs unmarshall_all[OF types, of vs] by (auto simp: list_all_iff)
qed

text \<open>The struct of the repository's own test.\<close>

definition test_params :: "int \<Rightarrow> string \<Rightarrow> bool \<Rightarrow> field list" where
  "test_params a b c =
     [\<lparr>fd_name = ''Arg1'', fd_tags = [(''param'', ''arg1'')], fd_exported = True, fd_val = FInt 64 a\<rparr>,
      \<lparr>fd_name = ''Arg2'', fd_tags = [(''param'', ''arg2'')], fd_exported = True, fd_val = FString b\<rparr>,
      \<lparr>fd_name = ''Arg3'', fd_tags = [(''param'', ''arg3'')], fd_exported = True, fd_val = FBool c\<rparr>]"

theorem params_roundtrip_witness:
  "\<exists>vs. MarshallParams (Struct (test_params 1 ''hello'' True)) = Ok vs \<and>
    UnMarshallParams vs (Struct (test_params 7 ''old'' False)) = (True, Struct (test_params 7 ''hello'' False))"
proof -
  have "map2 received (test_params 1 ''hello'' True) (test_params 7 ''old'' False) = test_params 7 ''hello'' False"
    by (simp add: test_params_def received_def param_of_def)
  moreover have "list_all2 same_type (test_params 1 ''hello'' True) (test_params 7 ''old'' False)"
    "distinct (param_tags (test_params 1 ''hello'' True))"
    "\<forall>f \<in> set (test_params 1 ''hello'' True). Lookup f ''param'' \<noteq> None \<longrightarrow> fd_exported f"
    by (simp_all add: test_params_def same_type_def map_filter_simps)
  ultimately show ?thesis
    using params_roundtrip[of "test_params 1 ''hello'' True" "test_params 7 ''old'' False"] by simp
qed

end
