(* ===== verification/HttpClient.thy ===== *)
theory HttpClient
  imports Reflect
begin

text \<open>
  \<^verbatim>\<open>pkg/rest/request\<close>: requests and the client that sends them. A request is a mutable object: sending it
  may change its headers (re-authentication) and reads its body, so every step returns the request as it is
  afterwards. \<open>'w\<close> is the world, with the network; \<open>http_do\<close> is what \<^verbatim>\<open>http.Client.Do\<close> makes of a transport
  (redirects, the timeout), a parameter.
\<close>

section \<open>Transports\<close>

record Request =
  rq_method :: string
  rq_url :: string
  rq_header :: "(string, string list) gomap"
  rq_body :: "string option"

record Response = rp_StatusCode :: int

text \<open>None is an error.\<close>

type_synonym answer = "Response option"
type_synonym 'w trip = "Request \<Rightarrow> 'w \<Rightarrow> answer \<times> Request \<times> 'w"
type_synonym 'w reauth = "Request \<Rightarrow> 'w \<Rightarrow> Request \<times> 'w"

datatype log_event = MakingRequest | RequestFailed | RequestSucceeded int

type_synonym 'w logger = "log_event \<Rightarrow> Request \<Rightarrow> 'w \<Rightarrow> 'w"

definition AuthInterceptor_RoundTrip :: "'w trip \<Rightarrow> 'w trip option \<Rightarrow> 'w reauth \<Rightarrow> 'w trip" where
  "AuthInterceptor_RoundTrip DefaultTransport transport reAuth = (\<lambda>req w.
     (let trip = (case transport of None \<Rightarrow> DefaultTransport | Some t \<Rightarrow> t);
          (resp, req, w) = trip req w
      in case resp of
           None \<Rightarrow> (None, req, w)
         | Some r \<Rightarrow>
             if rp_StatusCode r = 401 \<or> rp_StatusCode r = 403
             then let (req, w) = reAuth req w in trip req w
             else (Some r, req, w)))"

definition LogInterception_RoundTrip :: "'w trip \<Rightarrow> 'w logger \<Rightarrow> 'w trip option \<Rightarrow> 'w trip" where
  "LogInterception_RoundTrip DefaultTransport logger transport = (\<lambda>req w.
     (let trip = (case transport of None \<Rightarrow> DefaultTransport | Some t \<Rightarrow> t);
          (resp, req, w) = trip req (logger MakingRequest req w)
      in (resp, req, logger (case resp of None \<Rightarrow> RequestFailed | Some r \<Rightarrow> RequestSucceeded (rp_StatusCode r)) req w)))"

section \<open>The retrying client\<close>

record Retry =
  rt_Retryable :: "answer \<Rightarrow> bool"
  rt_MaxRetries :: int

datatype retryOption = MaxRetries int | RetryFunc "(answer \<Rightarrow> bool) option"

fun apply_retry_option :: "retryOption \<Rightarrow> Retry \<Rightarrow> Retry option" where
  "apply_retry_option (MaxRetries n) c = (if n < 0 then None else Some (c\<lparr>rt_MaxRetries := n\<rparr>))"
| "apply_retry_option (RetryFunc f) c = map_option (\<lambda>f. c\<lparr>rt_Retryable := f\<rparr>) f"

fun apply_retry_options :: "retryOption list \<Rightarrow> Retry \<Rightarrow> Retry option" where
  "apply_retry_options [] c = Some c"
| "apply_retry_options (opt # opts) c = Option.bind (apply_retry_option opt c) (apply_retry_options opts)"

definition NewRetryClient :: "retryOption list \<Rightarrow> Retry option" where
  "NewRetryClient opts = apply_retry_options opts \<lparr>rt_Retryable = (\<lambda>_. False), rt_MaxRetries = 3\<rparr>"

text \<open>
  The interface \<^verbatim>\<open>HTTPClient\<close>; None is a call that never returns. The counter of the loop is compared with the
  bound and never counted up.
\<close>

type_synonym 'w client = "Request \<Rightarrow> 'w \<Rightarrow> (answer \<times> Request \<times> 'w) option"

partial_function (option) redo_loop ::
  "'w client \<Rightarrow> Retry \<Rightarrow> int \<Rightarrow> answer \<times> Request \<times> 'w \<Rightarrow> (answer \<times> Request \<times> 'w) option" where
  "redo_loop do c count st =
     (if rt_Retryable c (fst st) \<and> count < rt_MaxRetries c
      then Option.bind (do (fst (snd st)) (snd (snd st))) (\<lambda>st. redo_loop do c count st)
      else Some st)"

definition Retry_Do :: "'w client \<Rightarrow> Retry \<Rightarrow> 'w client" where
  "Retry_Do do c req w = Option.bind (do req w) (\<lambda>st. redo_loop do c 0 st)"

section \<open>Building a client\<close>

text \<open>The base client with its transport, and the retrying clients around it, the outermost first.\<close>

record 'w Client =
  cl_Transport :: "'w trip option"
  cl_retries :: "Retry list"

datatype 'w clientOption =
    WithRetry int "retryOption list"
  | WithAuthInterception "'w reauth option"
  | WithRequestLogging "'w logger option"

fun apply_client_option :: "'w trip \<Rightarrow> 'w clientOption \<Rightarrow> 'w Client \<Rightarrow> 'w Client option" where
  "apply_client_option dt (WithRetry n opts) ctx =
     map_option (\<lambda>c. ctx\<lparr>cl_retries := c # cl_retries ctx\<rparr>) (NewRetryClient (MaxRetries n # opts))"
| "apply_client_option dt (WithAuthInterception reAuth) ctx =
     (let base = (case cl_Transport ctx of None \<Rightarrow> dt | Some t \<Rightarrow> t)
      in map_option (\<lambda>r. ctx\<lparr>cl_Transport := Some (AuthInterceptor_RoundTrip dt (Some base) r)\<rparr>) reAuth)"
| "apply_client_option dt (WithRequestLogging logger) ctx =
     (let base = (case cl_Transport ctx of None \<Rightarrow> dt | Some t \<Rightarrow> t)
      in map_option (\<lambda>l. ctx\<lparr>cl_Transport := Some (LogInterception_RoundTrip dt l (Some base))\<rparr>) logger)"

fun apply_client_options :: "'w trip \<Rightarrow> 'w clientOption list \<Rightarrow> 'w Client \<Rightarrow> 'w Client option" where
  "apply_client_options dt [] ctx = Some ctx"
| "apply_client_options dt (opt # opts) ctx = Option.bind (apply_client_option dt opt ctx) (apply_client_options dt opts)"

text \<open>\<open>own\<close> is the transport the constructor sets, \<open>dt\<close> the default one.\<close>

definition NewClient :: "'w trip \<Rightarrow> 'w trip \<Rightarrow> 'w clientOption list \<Rightarrow> 'w Client option" where
  "NewClient own dt opts = apply_client_options dt opts \<lparr>cl_Transport = Some own, cl_retries = []\<rparr>"

definition base_Do :: "('w trip \<Rightarrow> 'w trip) \<Rightarrow> 'w trip \<Rightarrow> 'w Client \<Rightarrow> 'w client" where
  "base_Do http_do dt cl req w =
     Some (http_do (case cl_Transport cl of None \<Rightarrow> dt | Some t \<Rightarrow> t) req w)"

definition Client_Do :: "('w trip \<Rightarrow> 'w trip) \<Rightarrow> 'w trip \<Rightarrow> 'w Client \<Rightarrow> 'w client" where
  "Client_Do http_do dt cl = foldr (\<lambda>c do. Retry_Do do c) (cl_retries cl) (base_Do http_do dt cl)"

section \<open>Building a request\<close>

record Builder =
  b_protocol :: string
  b_host :: string
  b_url :: string
  b_urlParams :: url_values
  b_method :: string
  b_header :: "(string, string list) gomap"
  b_body :: "string option"

definition NewBuilder :: "string \<Rightarrow> Builder" where
  "NewBuilder host = \<lparr>b_protocol = ''http'', b_host = host, b_url = [], b_urlParams = [], b_method = ''GET'',
     b_header = [], b_body = None\<rparr>"

text \<open>\<^verbatim>\<open>textproto.CanonicalMIMEHeaderKey\<close>.\<close>

definition upper :: "char \<Rightarrow> char" where
  "upper c = (if CHR ''a'' \<le> c \<and> c \<le> CHR ''z'' then char_of (of_char c - 32 :: nat) else c)"

definition lower :: "char \<Rightarrow> char" where
  "lower c = (if CHR ''A'' \<le> c \<and> c \<le> CHR ''Z'' then char_of (of_char c + 32 :: nat) else c)"

abbreviation between :: "char \<Rightarrow> char \<Rightarrow> char \<Rightarrow> bool" where
  "between lo hi c \<equiv> lo \<le> c \<and> c \<le> hi"

definition is_alnum :: "char \<Rightarrow> bool" where
  "is_alnum c \<longleftrightarrow> between CHR ''a'' CHR ''z'' c \<or> between CHR ''A'' CHR ''Z'' c \<or> is_decimal c"

definition is_token :: "char \<Rightarrow> bool" where
  "is_token c \<longleftrightarrow> is_alnum c \<or> c \<in> set (CHR 0x27 # ''!#$%&*+-.^_`|~'')"

fun canon :: "bool \<Rightarrow> string \<Rightarrow> string" where
  "canon up [] = []"
| "canon up (c # cs) = (if up then upper c else lower c) # canon (c = CHR ''-'') cs"

definition CanonicalHeaderKey :: "string \<Rightarrow> string" where
  "CanonicalHeaderKey s = (if list_all is_token s then canon True s else s)"

definition Header_Set :: "string \<Rightarrow> string \<Rightarrow> (string, string list) gomap \<Rightarrow> (string, string list) gomap" where
  "Header_Set key val h = mput (CanonicalHeaderKey key) [val] h"

definition Header_Get :: "(string, string list) gomap \<Rightarrow> string \<Rightarrow> string" where
  "Header_Get h key = (case mget h (CanonicalHeaderKey key) of Some (v # _) \<Rightarrow> v | _ \<Rightarrow> [])"

text \<open>\<^verbatim>\<open>url.QueryEscape\<close> and \<^verbatim>\<open>Values.Encode\<close>.\<close>

definition hex :: "nat \<Rightarrow> char" where
  "hex n = ''0123456789ABCDEF'' ! n"

definition escape_char :: "char \<Rightarrow> string" where
  "escape_char c =
     (if is_alnum c \<or> c \<in> set ''-_.~'' then [c]
      else if c = CHR '' '' then ''+''
      else [CHR ''%'', hex (of_char c div 16), hex (of_char c mod 16)])"

definition QueryEscape :: "string \<Rightarrow> string" where
  "QueryEscape s = concat (map escape_char s)"

fun join :: "string \<Rightarrow> string list \<Rightarrow> string" where
  "join sep [] = []"
| "join sep [s] = s"
| "join sep (s # ss) = s @ sep @ join sep ss"

definition Encode :: "url_values \<Rightarrow> string" where
  "Encode vs = join ''&'' (concat (map (\<lambda>key.
     map (\<lambda>v. QueryEscape key @ ''='' @ QueryEscape v) (case mget vs key of None \<Rightarrow> [] | Some l \<Rightarrow> l)) (sort (map fst vs))))"

text \<open>Whether a method and a URL make a request is for \<^verbatim>\<open>http.NewRequest\<close> to say: \<open>valid\<close>.\<close>

definition request_url :: "Builder \<Rightarrow> string" where
  "request_url b = b_protocol b @ ''://'' @ b_host b @ b_url b @ Encode (b_urlParams b)"

definition Build :: "(string \<Rightarrow> string \<Rightarrow> bool) \<Rightarrow> Builder \<Rightarrow> Request option" where
  "Build valid b =
     (if \<not> valid (b_method b) (request_url b) then None
      else Some \<lparr>rq_method = b_method b, rq_url = request_url b,
        rq_header = foldl (\<lambda>h key. Header_Set key (Header_Get (b_header b) key) h) [] (map fst (b_header b)),
        rq_body = b_body b\<rparr>)"

definition UnSecure :: "Builder \<Rightarrow> Builder" where "UnSecure b = b\<lparr>b_protocol := ''http''\<rparr>"
definition Secure :: "Builder \<Rightarrow> Builder" where "Secure b = b\<lparr>b_protocol := ''https''\<rparr>"
definition URL :: "string \<Rightarrow> Builder \<Rightarrow> Builder" where "URL url b = b\<lparr>b_url := url\<rparr>"

text \<open>
  \<^verbatim>\<open>MarshallParams(&params)\<close> on a parameter of type \<^verbatim>\<open>any\<close> sees an interface, not the struct in it.
\<close>

definition WithURLParams :: "dest \<Rightarrow> Builder \<Rightarrow> Builder res" where
  "WithURLParams params b = bind (MarshallParams NotStruct) (\<lambda>vs. Ok (b\<lparr>b_urlParams := vs\<rparr>))"

definition QueryParameter :: "string \<Rightarrow> string \<Rightarrow> Builder \<Rightarrow> Builder" where
  "QueryParameter key val b = b\<lparr>b_urlParams := Values_Add key val (b_urlParams b)\<rparr>"

definition Method :: "string \<Rightarrow> Builder \<Rightarrow> Builder" where "Method m b = b\<lparr>b_method := m\<rparr>"

definition SetHeader :: "string \<Rightarrow> string \<Rightarrow> Builder \<Rightarrow> Builder" where
  "SetHeader key val b = b\<lparr>b_header := Header_Set key val (b_header b)\<rparr>"

definition WithJSONContentType :: "Builder \<Rightarrow> Builder" where
  "WithJSONContentType b = SetHeader ''Content-Type'' ''application/json'' b"

text \<open>A body that cannot be marshalled is the empty one.\<close>

definition Body :: "string option \<Rightarrow> Builder \<Rightarrow> Builder" where
  "Body data b = WithJSONContentType (b\<lparr>b_body := Some (case data of None \<Rightarrow> [] | Some d \<Rightarrow> d)\<rparr>)"

section \<open>Properties\<close>

subsection \<open>Retries\<close>

text \<open>One attempt after another on a client that returns.\<close>

definition again :: "'w trip \<Rightarrow> answer \<times> Request \<times> 'w \<Rightarrow> answer \<times> Request \<times> 'w" where
  "again trip st = trip (fst (snd st)) (snd (snd st))"

definition attempt :: "'w trip \<Rightarrow> Request \<Rightarrow> 'w \<Rightarrow> nat \<Rightarrow> answer \<times> Request \<times> 'w" where
  "attempt trip req w n = (again trip ^^ n) (trip req w)"

abbreviation total :: "'w trip \<Rightarrow> 'w client" where
  "total trip \<equiv> (\<lambda>req w. Some (trip req w))"

definition settles :: "'w trip \<Rightarrow> Retry \<Rightarrow> answer \<times> Request \<times> 'w \<Rightarrow> answer \<times> Request \<times> 'w \<Rightarrow> bool" where
  "settles trip c st y \<longleftrightarrow>
     (\<exists>n. y = (again trip ^^ n) st \<and> \<not> rt_Retryable c (fst y) \<and> (\<forall>i < n. rt_Retryable c (fst ((again trip ^^ i) st))))"

lemma settles_again:
  assumes "settles trip c (again trip st) y" "rt_Retryable c (fst st)" shows "settles trip c st y"
proof -
  obtain n where n: "y = (again trip ^^ n) (again trip st)" "\<not> rt_Retryable c (fst y)"
    "\<forall>i < n. rt_Retryable c (fst ((again trip ^^ i) (again trip st)))"
    using assms(1) unfolding settles_def by blast
  have shift: "(again trip ^^ i) (again trip st) = (again trip ^^ Suc i) st" for i by (simp add: funpow_swap1)
  have "rt_Retryable c (fst ((again trip ^^ i) st))" if "i < Suc n" for i
    using that assms(2) n(3) shift by (cases i) auto
  then show ?thesis
    unfolding settles_def using n(1,2) shift by (intro exI[of _ "Suc n"]) simp
qed

lemma redo_loop_result:
  assumes ret: "redo_loop (total trip) c count st = Some y" and bound: "count < rt_MaxRetries c"
  shows "settles trip c st y"
proof -
  have "\<forall>trip. do = total trip \<longrightarrow> count < rt_MaxRetries c \<longrightarrow> settles trip c st y"
    if "redo_loop do c count st = Some y" for do c count st and y :: "answer \<times> Request \<times> 'w"
  proof (rule redo_loop.raw_induct
      [where P = "\<lambda>do c count st y. \<forall>trip. do = total trip \<longrightarrow> count < rt_MaxRetries c \<longrightarrow> settles trip c st y", OF _ that])
    fix loop :: "'w client \<Rightarrow> Retry \<Rightarrow> int \<Rightarrow> answer \<times> Request \<times> 'w \<Rightarrow> (answer \<times> Request \<times> 'w) option"
      and do :: "'w client" and c count st y
    assume IH: "\<And>do c count st y. loop do c count st = Some y \<Longrightarrow>
        \<forall>trip. do = total trip \<longrightarrow> count < rt_MaxRetries c \<longrightarrow> settles trip c st y"
      and eq: "(if rt_Retryable c (fst st) \<and> count < rt_MaxRetries c
        then Option.bind (do (fst (snd st)) (snd (snd st))) (loop do c count) else Some st) = Some y"
    show "\<forall>trip. do = total trip \<longrightarrow> count < rt_MaxRetries c \<longrightarrow> settles trip c st y"
    proof (intro allI impI)
      fix trip assume do: "do = total trip" and bound: "count < rt_MaxRetries c"
      show "settles trip c st y"
      proof (cases "rt_Retryable c (fst st)")
        case False
        then show ?thesis using eq by (auto simp: settles_def intro: exI[of _ 0])
      next
        case True
        then have "loop do c count (again trip st) = Some y" using eq do bound by (simp add: again_def)
        from IH[OF this] do bound True show ?thesis by (blast intro: settles_again)
      qed
    qed
  qed
  from this[OF ret] bound show ?thesis by blast
qed

lemma redo_loop_returns:
  assumes "\<not> rt_Retryable c (fst ((again trip ^^ n) st))" "\<forall>i < n. rt_Retryable c (fst ((again trip ^^ i) st))"
    and "count < rt_MaxRetries c"
  shows "redo_loop (total trip) c count st = Some ((again trip ^^ n) st)"
  using assms
proof (induction n arbitrary: st)
  case 0
  then show ?case by (subst redo_loop.simps) simp
next
  case (Suc n)
  have shift: "(again trip ^^ i) (again trip st) = (again trip ^^ Suc i) st" for i by (simp add: funpow_swap1)
  have "redo_loop (total trip) c count (again trip st) = Some ((again trip ^^ n) (again trip st))"
    using Suc.prems by (intro Suc.IH) (auto simp: shift simp del: funpow.simps)
  moreover have "rt_Retryable c (fst st)" using Suc.prems(2) by auto
  ultimately show ?case
    using Suc.prems(3) unfolding shift by (subst redo_loop.simps) (simp add: again_def)
qed

text \<open>
  C12. The bound on retries does not bound them: with a positive bound, whatever it is, the retrying client returns
  exactly if some attempt, however late, settles the request, and it returns the first such attempt; if every attempt
  may be retried it never returns. Without retries it returns the first attempt.
\<close>

theorem retries_are_unbounded:
  "Retry_Do (total trip) c req w =
    (if rt_MaxRetries c \<le> 0 then Some (trip req w)
     else if \<exists>n. \<not> rt_Retryable c (fst (attempt trip req w n))
       then Some (attempt trip req w (LEAST n. \<not> rt_Retryable c (fst (attempt trip req w n))))
     else None)"
proof -
  let ?st = "trip req w" and ?P = "\<lambda>n. \<not> rt_Retryable c (fst (attempt trip req w n))"
  have run: "Retry_Do (total trip) c req w = redo_loop (total trip) c 0 ?st" by (simp add: Retry_Do_def)
  consider "rt_MaxRetries c \<le> 0" | "0 < rt_MaxRetries c" "\<exists>n. ?P n" | "0 < rt_MaxRetries c" "\<not> (\<exists>n. ?P n)" by fastforce
  then show ?thesis
  proof cases
    case 1
    then show ?thesis unfolding run by (subst redo_loop.simps) simp
  next
    case 2
    have "redo_loop (total trip) c 0 ?st = Some ((again trip ^^ (LEAST n. ?P n)) ?st)"
      using LeastI_ex[OF 2(2)] not_less_Least[of _ ?P] 2(1)
      by (intro redo_loop_returns) (auto simp: attempt_def)
    then show ?thesis using 2 by (simp add: run attempt_def)
  next
    case 3
    have "redo_loop (total trip) c 0 ?st = None"
    proof (rule ccontr)
      assume "redo_loop (total trip) c 0 ?st \<noteq> None"
      then obtain y where "redo_loop (total trip) c 0 ?st = Some y" by blast
      from redo_loop_result[OF this 3(1)] show False using 3(2) by (auto simp: attempt_def settles_def)
    qed
    then show ?thesis using 3 by (simp add: run)
  qed
qed

text \<open>A server whose answers are listed in the world; after the last it refuses.\<close>

definition listed :: "int list trip" where
  "listed req w = (case w of [] \<Rightarrow> (None, req, []) | c # cs \<Rightarrow> (Some \<lparr>rp_StatusCode = c\<rparr>, req, cs))"

subsection \<open>Options\<close>

fun is_retry :: "'w clientOption \<Rightarrow> bool" where
  "is_retry (WithRetry n opts) = True"
| "is_retry opt = False"

lemma options_swap:
  assumes "is_retry r" "\<not> is_retry t"
  shows "Option.bind (apply_client_option dt t ctx) (apply_client_option dt r) =
    Option.bind (apply_client_option dt r ctx) (apply_client_option dt t)"
proof -
  obtain n opts where r: "r = WithRetry n opts" using assms(1) by (cases r) auto
  show ?thesis
  proof (cases "NewRetryClient (MaxRetries n # opts)")
    case None
    then show ?thesis using assms(2) unfolding r by (cases t) (auto split: Option.bind_split)
  next
    case (Some c)
    then show ?thesis
      using assms(2) unfolding r
      by (cases t) (auto simp: Let_def split: Option.bind_split option.splits)
  qed
qed

lemma options_append:
  "apply_client_options dt (as @ bs) ctx = Option.bind (apply_client_options dt as ctx) (apply_client_options dt bs)"
  by (induction as arbitrary: ctx) (auto split: Option.bind_split)

lemma options_move:
  assumes "\<forall>r \<in> set rs. is_retry r" "\<not> is_retry t"
  shows "apply_client_options dt (t # rs) ctx = apply_client_options dt (rs @ [t]) ctx"
  using assms(1)
proof (induction rs arbitrary: ctx)
  case (Cons r rs)
  have "apply_client_options dt (t # r # rs) ctx =
      Option.bind (Option.bind (apply_client_option dt t ctx) (apply_client_option dt r)) (apply_client_options dt rs)"
    by (auto split: Option.bind_split)
  also have "\<dots> = Option.bind (apply_client_option dt r ctx) (apply_client_options dt (t # rs))"
    using Cons.prems assms(2) by (subst options_swap) (auto split: Option.bind_split)
  also have "\<dots> = apply_client_options dt (r # rs @ [t]) ctx"
    using Cons.IH Cons.prems by (auto split: Option.bind_split)
  finally show ?case by simp
qed simp

text \<open>
  The order of options on different parts of a client does not matter: a retrying client always ends up around
  the base client, whose transport the interceptors wrap in their own order; and a bad option fails wherever it is.
\<close>

theorem client_options_commute:
  "NewClient own dt opts = NewClient own dt (filter is_retry opts @ filter (\<lambda>opt. \<not> is_retry opt) opts)"
proof -
  have "apply_client_options dt opts ctx =
      apply_client_options dt (filter is_retry opts @ filter (\<lambda>opt. \<not> is_retry opt) opts) ctx" for ctx
  proof (induction opts arbitrary: ctx)
    case (Cons opt opts)
    show ?case
    proof (cases "is_retry opt")
      case True
      then show ?thesis using Cons by (auto split: Option.bind_split)
    next
      case False
      let ?rs = "filter is_retry opts" and ?ts = "filter (\<lambda>opt. \<not> is_retry opt) opts"
      have "apply_client_options dt (opt # opts) ctx = apply_client_options dt ((opt # ?rs) @ ?ts) ctx"
        using Cons by (auto split: Option.bind_split)
      also have "\<dots> = apply_client_options dt ((?rs @ [opt]) @ ?ts) ctx"
      proof -
        have "apply_client_options dt (opt # ?rs) ctx = apply_client_options dt (?rs @ [opt]) ctx"
          by (rule options_move) (simp_all add: False)
        then show ?thesis by (simp only: options_append[of dt _ ?ts])
      qed
      finally show ?thesis using False by simp
    qed
  qed simp
  then show ?thesis by (simp add: NewClient_def)
qed

subsection \<open>Query parameters\<close>

lemma hex_plain: "n < 16 \<Longrightarrow> CHR ''?'' \<noteq> hex n"
proof
  assume "n < 16" "CHR ''?'' = hex n"
  moreover from this(1) have "hex n \<in> set ''0123456789ABCDEF''" unfolding hex_def by (intro nth_mem) simp
  ultimately have "CHR ''?'' \<in> set ''0123456789ABCDEF''" by metis
  then show False by simp
qed

lemma escape_char_plain: "CHR ''?'' \<notin> set (escape_char c)"
proof (cases "is_alnum c \<or> c \<in> set ''-_.~''")
  case True
  moreover have "\<not> is_alnum (CHR ''?'')" by (simp add: is_alnum_def is_decimal_alt less_eq_char_def)
  ultimately have "CHR ''?'' \<noteq> c" by auto
  with True show ?thesis by (simp add: escape_char_def)
next
  case False
  have "CHR ''?'' \<noteq> hex (of_char c div 16)" "CHR ''?'' \<noteq> hex (of_char c mod 16)"
    by (intro hex_plain less_mult_imp_div_less; simp)+
  with False show ?thesis unfolding escape_char_def by simp
qed

lemma QueryEscape_plain: "CHR ''?'' \<notin> set (QueryEscape s)"
  using escape_char_plain by (simp add: QueryEscape_def)

lemma join_set: "set (join sep ss) \<subseteq> set sep \<union> \<Union> (set ` set ss)"
  by (induction sep ss rule: join.induct) auto

lemma Encode_plain: "CHR ''?'' \<notin> set (Encode vs)"
proof
  assume "CHR ''?'' \<in> set (Encode vs)"
  then show False
    using join_set[of "''&''"] QueryEscape_plain unfolding Encode_def by fastforce
qed

definition query_of :: "string \<Rightarrow> string" where
  "query_of url = tl (dropWhile (\<lambda>c. c \<noteq> CHR ''?'') url)"

lemma no_query: "CHR ''?'' \<notin> set url \<Longrightarrow> query_of url = []"
  by (induction url) (auto simp: query_of_def)

text \<open>
  Query parameters never reach the server as such: those of a struct are dropped when they are set, and the
  others are glued to the path without a question mark, so that the URL of every request has an empty query.
\<close>

theorem query_parameters_lost:
  assumes "CHR ''?'' \<notin> set (b_protocol b) \<union> set (b_host b) \<union> set (b_url b)"
  shows "WithURLParams params b = Ok (b\<lparr>b_urlParams := []\<rparr>) \<and>
    (\<forall>req. Build valid (QueryParameter key val b) = Some req \<longrightarrow> query_of (rq_url req) = [])"
proof -
  have "CHR ''?'' \<notin> set (request_url (QueryParameter key val b))"
    using assms Encode_plain by (auto simp: request_url_def QueryParameter_def)
  then have "query_of (request_url (QueryParameter key val b)) = []" by (rule no_query)
  then show ?thesis by (auto simp: WithURLParams_def Build_def split: if_splits)
qed

theorem query_parameters_lost_witness:
  "\<exists>req. Build (\<lambda>m u. True) (QueryParameter ''page'' ''2'' (URL ''/spoofs'' (NewBuilder ''host''))) = Some req \<and>
    rq_url req = ''http://host/spoofspage=2'' \<and> query_of (rq_url req) = []"
proof -
  let ?b = "URL ''/spoofs'' (NewBuilder ''host'')"
  have "CHR ''?'' \<notin> set (b_protocol ?b) \<union> set (b_host ?b) \<union> set (b_url ?b)" by (simp add: URL_def NewBuilder_def)
  note lost = query_parameters_lost[OF this, of "NotStruct" "\<lambda>m u. True" "''page''" "''2''"]
  have "QueryEscape ''page'' = ''page''" "QueryEscape ''2'' = ''2''"
    by (simp_all add: QueryEscape_def escape_char_def is_alnum_def is_decimal_alt less_eq_char_def)
  then have "Encode [(''page'', [''2''])] = ''page=2''" by (simp add: Encode_def)
  then have "request_url (QueryParameter ''page'' ''2'' ?b) = ''http://host/spoofspage=2''"
    by (simp add: request_url_def QueryParameter_def URL_def NewBuilder_def Values_Add_def)
  then show ?thesis using lost by (simp add: Build_def)
qed

end
