(* ===== verification/Config.thy ===== *)
theory Config
  imports Reflect
begin

text \<open>
  \<^verbatim>\<open>pkg/loaders\<close> and \<^verbatim>\<open>internal/config\<close>: the configuration from the environment, from files and from
  defaults. The parser of \<^verbatim>\<open>.env\<close> files is a third-party package and, like JSON decoding, a parameter.
\<close>

section \<open>Loaders\<close>

text \<open>
  The file system: a file with its contents, which may be unreadable, or a directory with the files that a walk
  visits in order, None when the walk fails.
\<close>

datatype node = RegularFile "string option" | Directory "string list option"

record Ext =
  x_env :: "string \<Rightarrow> string option"
  x_stat :: "string \<Rightarrow> node option"
  x_godotenv :: "string \<Rightarrow> (string, string) gomap option"
  x_json :: "string \<Rightarrow> dest \<Rightarrow> bool \<times> dest"

definition ReadFile :: "Ext \<Rightarrow> string \<Rightarrow> string option" where
  "ReadFile x file = (case x_stat x file of Some (RegularFile contents) \<Rightarrow> contents | _ \<Rightarrow> None)"

definition Contains :: "string \<Rightarrow> string \<Rightarrow> bool" where
  "Contains s sub = list_ex (\<lambda>t. take (length sub) t = sub) (suffixes_of s)"

definition HasSuffix :: "string \<Rightarrow> string \<Rightarrow> bool" where
  "HasSuffix s suffix \<longleftrightarrow> length suffix \<le> length s \<and> drop (length s - length suffix) s = suffix"

text \<open>A field takes the value a source has for its tag.\<close>

definition load_field :: "(string \<Rightarrow> string option) \<Rightarrow> field \<Rightarrow> field option" where
  "load_field src f =
     (if \<not> fd_exported f then Some f
      else (case Lookup f ''env'' of
          None \<Rightarrow> Some f
        | Some tag \<Rightarrow>
            (case src tag of
               None \<Rightarrow> Some f
             | Some value \<Rightarrow> map_option (\<lambda>v. f\<lparr>fd_val := v\<rparr>) (setEnvironmentVariable (fd_val f) value))))"

fun load_struct :: "(string \<Rightarrow> string option) \<Rightarrow> dest \<Rightarrow> bool \<times> dest" where
  "load_struct src NotStruct = (False, NotStruct)"
| "load_struct src (Struct fs) = (let (ok, fs) = each_field (load_field src) fs in (ok, Struct fs))"

definition EnvLoader_Load :: "Ext \<Rightarrow> dest \<Rightarrow> bool \<times> dest" where
  "EnvLoader_Load x d = load_struct (x_env x) d"

text \<open>Files that do not exist are dropped; the files of a directory take its place.\<close>

fun NewFileLoader :: "Ext \<Rightarrow> string list \<Rightarrow> string list option" where
  "NewFileLoader x [] = Some []"
| "NewFileLoader x (file # fileNames) =
     (case x_stat x file of
        None \<Rightarrow> NewFileLoader x fileNames
      | Some (RegularFile _) \<Rightarrow> map_option (\<lambda>names. file # names) (NewFileLoader x fileNames)
      | Some (Directory None) \<Rightarrow> None
      | Some (Directory (Some paths)) \<Rightarrow> map_option (\<lambda>names. paths @ names) (NewFileLoader x fileNames))"

definition loadDotEnv :: "Ext \<Rightarrow> dest \<Rightarrow> string \<Rightarrow> bool \<times> dest" where
  "loadDotEnv x d file =
     (if d = NotStruct then (False, d)
      else (case Option.bind (ReadFile x file) (x_godotenv x) of
          None \<Rightarrow> (False, d)
        | Some cfg \<Rightarrow> load_struct (mget cfg) d))"

definition loadJSON :: "Ext \<Rightarrow> dest \<Rightarrow> string \<Rightarrow> bool \<times> dest" where
  "loadJSON x d file = (case ReadFile x file of None \<Rightarrow> (False, d) | Some data \<Rightarrow> x_json x data d)"

definition loadPlainText :: "Ext \<Rightarrow> dest \<Rightarrow> string \<Rightarrow> bool \<times> dest" where
  "loadPlainText x d file =
     (case x_stat x file of
        None \<Rightarrow> (False, d)
      | Some (Directory _) \<Rightarrow> (True, d)
      | Some (RegularFile _) \<Rightarrow>
          if d = NotStruct then (False, d)
          else (case ReadFile x file of
              None \<Rightarrow> (False, d)
            | Some data \<Rightarrow> load_struct (\<lambda>tag. if Contains file tag then Some data else None) d))"

definition load_file :: "Ext \<Rightarrow> string \<Rightarrow> dest \<Rightarrow> bool \<times> dest" where
  "load_file x file d =
     (if HasSuffix file ''.env'' then loadDotEnv x d file
      else if HasSuffix file ''.json'' then loadJSON x d file
      else loadPlainText x d file)"

text \<open>Both loops stop at the first error and leave what was loaded before it.\<close>

fun load_each :: "('a \<Rightarrow> dest \<Rightarrow> bool \<times> dest) \<Rightarrow> 'a list \<Rightarrow> dest \<Rightarrow> bool \<times> dest" where
  "load_each load [] d = (True, d)"
| "load_each load (a # as) d = (let (ok, d) = load a d in if ok then load_each load as d else (False, d))"

definition FileLoader_Load :: "Ext \<Rightarrow> string list \<Rightarrow> dest \<Rightarrow> bool \<times> dest" where
  "FileLoader_Load x fileNames = load_each (load_file x) fileNames"

definition ChainLoader_Load :: "(dest \<Rightarrow> bool \<times> dest) list \<Rightarrow> dest \<Rightarrow> bool \<times> dest" where
  "ChainLoader_Load loaders = load_each (\<lambda>load. load) loaders"

text \<open>The constructor of the flag loader returns a file loader without files.\<close>

definition NewFlagLoader :: "Ext \<Rightarrow> dest \<Rightarrow> bool \<times> dest" where
  "NewFlagLoader x = FileLoader_Load x []"

section \<open>The configuration\<close>

definition tagged :: "string \<Rightarrow> string \<Rightarrow> string \<Rightarrow> field" where
  "tagged name tag val = \<lparr>fd_name = name, fd_tags = [(''env'', tag)], fd_exported = True, fd_val = FString val\<rparr>"

definition serverCfg :: "field list" where
  "serverCfg = [tagged ''ENV'' ''SRV_ENV'' ''prod'', tagged ''LUA_SANDBOX'' ''SRV_LUA_SANDBOX'' []]"

definition apiCfg :: "field list" where
  "apiCfg = [tagged ''PORT'' ''API_PORT'' '':8080'']"

definition gslbCfg :: "field list" where
  "gslbCfg = [tagged ''ZONE'' ''GSLB_ZONE'' [], tagged ''NAMESERVER'' ''GSLB_NAMESERVER'' [],
     tagged ''POLLINTERVAL'' ''GSLB_POLL_INTERVAL'' ''1m'', tagged ''UPDATERHOST'' ''GSLB_UPDATER_HOST'' [],
     tagged ''SERVERS'' ''GSLB_DNSDIST_SERVERS_FILE'' []]"

definition jwtCfg :: "field list" where
  "jwtCfg = [tagged ''SECRET'' ''JWT_SECRET'' [], tagged ''USER'' ''JWT_USER'' []]"

record Config =
  c_server :: dest
  c_api :: dest
  c_gslb :: dest
  c_jwt :: dest

definition the_loader :: "Ext \<Rightarrow> string list \<Rightarrow> dest \<Rightarrow> bool \<times> dest" where
  "the_loader x files = ChainLoader_Load [EnvLoader_Load x, FileLoader_Load x files, NewFlagLoader x]"

fun load_configs :: "(dest \<Rightarrow> bool \<times> dest) \<Rightarrow> dest list \<Rightarrow> dest list option" where
  "load_configs load [] = Some []"
| "load_configs load (d # ds) =
     (let (ok, d) = load d in if ok then map_option (\<lambda>ds. d # ds) (load_configs load ds) else None)"

definition newConfig :: "Ext \<Rightarrow> Config option" where
  "newConfig x =
     (case NewFileLoader x [''.env'', ''./secrets''] of
        None \<Rightarrow> None
      | Some files \<Rightarrow>
          (case load_configs (the_loader x files) [Struct serverCfg, Struct apiCfg, Struct gslbCfg, Struct jwtCfg] of
             Some [server, api, gslb, jwt] \<Rightarrow> Some \<lparr>c_server = server, c_api = api, c_gslb = gslb, c_jwt = jwt\<rparr>
           | _ \<Rightarrow> None))"

fun get_string :: "dest \<Rightarrow> string \<Rightarrow> string" where
  "get_string (Struct fs) name =
     (case find (\<lambda>f. fd_name f = name) fs of Some f \<Rightarrow> (case fd_val f of FString s \<Rightarrow> s | _ \<Rightarrow> []) | None \<Rightarrow> [])"
| "get_string NotStruct name = []"

definition Env :: "Config \<Rightarrow> string" where "Env c = get_string (c_server c) ''ENV''"
definition LuaSandbox :: "Config \<Rightarrow> string" where "LuaSandbox c = get_string (c_server c) ''LUA_SANDBOX''"
definition Port :: "Config \<Rightarrow> string" where "Port c = get_string (c_api c) ''PORT''"
definition Zone_name :: "Config \<Rightarrow> string" where "Zone_name c = get_string (c_gslb c) ''ZONE''"
definition NameServer :: "Config \<Rightarrow> string" where "NameServer c = get_string (c_gslb c) ''NAMESERVER''"
definition UpdaterHost :: "Config \<Rightarrow> string" where "UpdaterHost c = get_string (c_gslb c) ''UPDATERHOST''"
definition Servers :: "Config \<Rightarrow> string" where "Servers c = get_string (c_gslb c) ''SERVERS''"
definition poll_interval_text :: "Config \<Rightarrow> string" where "poll_interval_text c = get_string (c_gslb c) ''POLLINTERVAL''"
definition Secret :: "Config \<Rightarrow> string" where "Secret c = get_string (c_jwt c) ''SECRET''"
definition User :: "Config \<Rightarrow> string" where "User c = get_string (c_jwt c) ''USER''"

text \<open>The handler of the logs by environment.\<close>

datatype log_handler = TextDebug | DevMode | JSONInfo

definition init_handler :: "Config \<Rightarrow> log_handler" where
  "init_handler cfg =
     (if Env cfg \<in> {''dev'', ''development'', ''DEV'', ''DEVELOPMENT''} then DevMode
      else if Env cfg \<in> {''prod'', ''production'', ''PROD'', ''PRODUCTION''} then JSONInfo
      else TextDebug)"

section \<open>Loaders keep the type of what they fill\<close>

fun typed_dest :: "dest \<Rightarrow> dest \<Rightarrow> bool" where
  "typed_dest (Struct fs) (Struct gs) \<longleftrightarrow> list_all2 typed fs gs"
| "typed_dest NotStruct NotStruct \<longleftrightarrow> True"
| "typed_dest _ _ \<longleftrightarrow> False"

lemma typed_dest_refl [simp]: "typed_dest d d"
  by (cases d) (simp_all add: list_all2_refl)

lemma typed_dest_trans: "typed_dest a b \<Longrightarrow> typed_dest b c \<Longrightarrow> typed_dest a c"
  by (cases a; cases b; cases c) (auto intro: list_all2_trans[of typed typed typed] typed_trans)

lemma load_field_typed: "load_field src f = Some g \<Longrightarrow> typed f g"
  by (auto simp: load_field_def dest: setEnvironmentVariable_typed intro: typed_update split: option.splits if_splits)

lemma load_struct_typed: "typed_dest d (snd (load_struct src d))"
  by (cases d) (auto split: prod.splits intro: each_field_rel[OF load_field_typed])

text \<open>The interface \<^verbatim>\<open>Loader\<close>: what a loader may do to its destination.\<close>

locale typed_loader =
  fixes load :: "dest \<Rightarrow> bool \<times> dest"
  assumes keeps: "typed_dest d (snd (load d))"
begin

lemma struct_stays: "\<exists>gs. snd (load (Struct fs)) = Struct gs \<and> list_all2 typed fs gs"
  using keeps[of "Struct fs"] by (cases "snd (load (Struct fs))") auto

end

lemma load_each_typed:
  assumes "\<And>a. a \<in> set as \<Longrightarrow> typed_loader (load a)" shows "typed_loader (load_each load as)"
proof
  fix d show "typed_dest d (snd (load_each load as d))"
    using assms
  proof (induction as arbitrary: d)
    case (Cons a as)
    have a: "typed_dest d (snd (load a d))" using Cons.prems[of a] by (simp add: typed_loader_def)
    have "typed_dest d' (snd (load_each load as d'))" for d' using Cons.prems by (intro Cons.IH) simp
    with a show ?case by (auto split: prod.splits intro: typed_dest_trans)
  qed simp
qed

lemma ChainLoader_typed: "(\<And>l. l \<in> set loaders \<Longrightarrow> typed_loader l) \<Longrightarrow> typed_loader (ChainLoader_Load loaders)"
  unfolding ChainLoader_Load_def by (rule load_each_typed)

interpretation env_loader: typed_loader "EnvLoader_Load x" for x
  by unfold_locales (simp add: EnvLoader_Load_def load_struct_typed)

interpretation flag_loader: typed_loader "NewFlagLoader x" for x
  by unfold_locales (simp add: NewFlagLoader_def FileLoader_Load_def)

lemma load_file_typed:
  assumes "\<And>data d. typed_dest d (snd (x_json x data d))" shows "typed_loader (load_file x file)"
  by unfold_locales
    (auto simp: load_file_def loadDotEnv_def loadJSON_def loadPlainText_def assms load_struct_typed split: option.splits node.splits)

lemma the_loader_typed:
  assumes "\<And>data d. typed_dest d (snd (x_json x data d))" shows "typed_loader (the_loader x files)"
proof -
  have "typed_loader (FileLoader_Load x files)"
    unfolding FileLoader_Load_def by (intro load_each_typed load_file_typed assms)
  then show ?thesis
    unfolding the_loader_def
    by (intro ChainLoader_typed) (auto intro: env_loader.typed_loader_axioms flag_loader.typed_loader_axioms)
qed


definition no_files :: "(string \<Rightarrow> string option) \<Rightarrow> Ext" where
  "no_files env = \<lparr>x_env = env, x_stat = (\<lambda>_. None), x_godotenv = (\<lambda>_. None), x_json = (\<lambda>_ d. (False, d))\<rparr>"

definition small_int :: "int \<Rightarrow> field" where
  "small_int n = \<lparr>fd_name = ''N'', fd_tags = [(''env'', ''N'')], fd_exported = True, fd_val = FInt 8 n\<rparr>"


section \<open>Where a setting comes from\<close>

definition file_source :: "Ext \<Rightarrow> string \<Rightarrow> string \<Rightarrow> string option" where
  "file_source x file tag =
     (if HasSuffix file ''.env''
      then Option.bind (Option.bind (ReadFile x file) (x_godotenv x)) (\<lambda>cfg. mget cfg tag)
      else if Contains file tag then ReadFile x file else None)"

definition over :: "string \<Rightarrow> string option \<Rightarrow> string" where
  "over v src = (case src of None \<Rightarrow> v | Some s \<Rightarrow> s)"

text \<open>The last file that has the setting, else the environment, else the default.\<close>

definition resolve :: "Ext \<Rightarrow> string list \<Rightarrow> string \<Rightarrow> string \<Rightarrow> string" where
  "resolve x files tag dflt = foldl (\<lambda>v file. over v (file_source x file tag)) (over dflt (x_env x tag)) files"

definition loads :: "Ext \<Rightarrow> string \<Rightarrow> bool" where
  "loads x file \<longleftrightarrow>
     (if HasSuffix file ''.env'' then Option.bind (ReadFile x file) (x_godotenv x) \<noteq> None
      else (case x_stat x file of None \<Rightarrow> False | Some (Directory _) \<Rightarrow> True | Some (RegularFile c) \<Rightarrow> c \<noteq> None))"

abbreviation not_json :: "string \<Rightarrow> bool" where
  "not_json file \<equiv> HasSuffix file ''.env'' \<or> \<not> HasSuffix file ''.json''"

text \<open>A struct of tagged strings, by its table of names, tags and values.\<close>

definition strings :: "(string \<times> string \<times> string) list \<Rightarrow> dest" where
  "strings table = Struct (map (\<lambda>(name, tag, val). tagged name tag val) table)"

definition set_all :: "(string \<Rightarrow> string \<Rightarrow> string) \<Rightarrow> (string \<times> string \<times> string) list \<Rightarrow> (string \<times> string \<times> string) list" where
  "set_all r table = map (\<lambda>(name, tag, val). (name, tag, r tag val)) table"

lemma set_all_set_all: "set_all r (set_all q table) = set_all (\<lambda>tag val. r tag (q tag val)) table"
  by (simp add: set_all_def o_def split_def)

lemma set_all_id: "set_all (\<lambda>tag val. val) table = table"
  by (simp add: set_all_def map_idI split_def)

lemma load_field_tagged: "load_field src (tagged name tag val) = Some (tagged name tag (over val (src tag)))"
  by (simp add: load_field_def tagged_def over_def split: option.split)

lemma load_strings: "load_struct src (strings table) = (True, strings (set_all (\<lambda>tag val. over val (src tag)) table))"
proof -
  have "each_field (load_field src) (map (\<lambda>(name, tag, val). tagged name tag val) table) =
      (True, map (\<lambda>(name, tag, val). tagged name tag (over val (src tag))) table)"
    by (induction table) (auto simp: load_field_tagged)
  then show ?thesis by (simp add: strings_def set_all_def o_def split_def)
qed

lemma strings_not [simp]: "strings table \<noteq> NotStruct"
  by (simp add: strings_def)

lemma load_file_strings:
  assumes "not_json file"
  shows "load_file x file (strings table) =
    (loads x file, if loads x file then strings (set_all (\<lambda>tag val. over val (file_source x file tag)) table) else strings table)"
proof (cases "HasSuffix file ''.env''")
  case True
  show ?thesis
  proof (cases "ReadFile x file")
    case None
    then show ?thesis using True by (simp add: load_file_def loads_def loadDotEnv_def)
  next
    case (Some data)
    then show ?thesis using True
      by (cases "x_godotenv x data") (simp_all add: load_file_def loads_def loadDotEnv_def file_source_def load_strings)
  qed
next
  case False
  have "load_file x file (strings table) = loadPlainText x (strings table) file"
    using False assms by (simp add: load_file_def)
  moreover have "(\<lambda>tag val. over val (if Contains file tag then None else None)) = (\<lambda>tag val. val)"
    by (simp add: over_def)
  ultimately show ?thesis
    using False
    by (auto simp: loads_def loadPlainText_def file_source_def ReadFile_def load_strings set_all_id
        split: option.splits node.splits cong del: if_weak_cong)
qed

lemma load_files_strings:
  "(\<forall>file \<in> set files. not_json file) \<Longrightarrow> (\<forall>file \<in> set files. loads x file) \<Longrightarrow>
    FileLoader_Load x files (strings table) =
      (True, strings (set_all (\<lambda>tag val. foldl (\<lambda>v file. over v (file_source x file tag)) val files) table))"
  unfolding FileLoader_Load_def
  by (induction files arbitrary: table) (simp_all add: load_file_strings set_all_set_all set_all_id)

lemma load_files_fail:
  "(\<forall>file \<in> set files. not_json file) \<Longrightarrow> \<not> (\<forall>file \<in> set files. loads x file) \<Longrightarrow>
    \<not> fst (FileLoader_Load x files (strings table))"
  unfolding FileLoader_Load_def
  by (induction files arbitrary: table) (auto simp: load_file_strings split: prod.splits if_splits)

lemma the_loader_strings:
  assumes "\<forall>file \<in> set files. not_json file"
  shows "fst (the_loader x files (strings table)) = (\<forall>file \<in> set files. loads x file)"
    "(\<forall>file \<in> set files. loads x file) \<Longrightarrow> snd (the_loader x files (strings table)) = strings (set_all (resolve x files) table)"
proof -
  let ?t = "set_all (\<lambda>tag val. over val (x_env x tag)) table"
  have "the_loader x files (strings table) =
      (let (ok, d) = FileLoader_Load x files (strings ?t) in if ok then (True, d) else (False, d))"
    by (simp add: the_loader_def ChainLoader_Load_def EnvLoader_Load_def NewFlagLoader_def FileLoader_Load_def load_strings
        split: prod.splits)
  then have *: "the_loader x files (strings table) = FileLoader_Load x files (strings ?t)"
    by (simp split: prod.splits)
  show "fst (the_loader x files (strings table)) = (\<forall>file \<in> set files. loads x file)"
    using load_files_strings[OF assms, of x ?t] load_files_fail[OF assms, of x ?t] by (auto simp: *)
  show "snd (the_loader x files (strings table)) = strings (set_all (resolve x files) table)"
    if "\<forall>file \<in> set files. loads x file"
  proof -
    have "resolve x files = (\<lambda>tag val. foldl (\<lambda>v file. over v (file_source x file tag)) (over val (x_env x tag)) files)"
      by (intro ext) (simp add: resolve_def)
    then show ?thesis using load_files_strings[OF assms that, of ?t] by (simp add: * set_all_set_all)
  qed
qed

lemma load_configs_all:
  "load_configs load ds = (if \<forall>d \<in> set ds. fst (load d) then Some (map (\<lambda>d. snd (load d)) ds) else None)"
  by (induction ds) (auto split: prod.splits)

definition server_table :: "(string \<times> string \<times> string) list" where
  "server_table = [(''ENV'', ''SRV_ENV'', ''prod''), (''LUA_SANDBOX'', ''SRV_LUA_SANDBOX'', [])]"
definition api_table :: "(string \<times> string \<times> string) list" where
  "api_table = [(''PORT'', ''API_PORT'', '':8080'')]"
definition gslb_table :: "(string \<times> string \<times> string) list" where
  "gslb_table = [(''ZONE'', ''GSLB_ZONE'', []), (''NAMESERVER'', ''GSLB_NAMESERVER'', []),
     (''POLLINTERVAL'', ''GSLB_POLL_INTERVAL'', ''1m''), (''UPDATERHOST'', ''GSLB_UPDATER_HOST'', []),
     (''SERVERS'', ''GSLB_DNSDIST_SERVERS_FILE'', [])]"
definition jwt_table :: "(string \<times> string \<times> string) list" where
  "jwt_table = [(''SECRET'', ''JWT_SECRET'', []), (''USER'', ''JWT_USER'', [])]"

lemmas tables = server_table_def api_table_def gslb_table_def jwt_table_def

lemma config_structs:
  "Struct serverCfg = strings server_table" "Struct apiCfg = strings api_table"
  "Struct gslbCfg = strings gslb_table" "Struct jwtCfg = strings jwt_table"
  by (simp_all add: strings_def tables serverCfg_def apiCfg_def gslbCfg_def jwtCfg_def)

lemma newConfig_eq:
  assumes "NewFileLoader x [''.env'', ''./secrets''] = Some files" "\<forall>file \<in> set files. not_json file"
  shows "newConfig x =
    (if \<forall>file \<in> set files. loads x file
     then Some \<lparr>c_server = strings (set_all (resolve x files) server_table), c_api = strings (set_all (resolve x files) api_table),
        c_gslb = strings (set_all (resolve x files) gslb_table), c_jwt = strings (set_all (resolve x files) jwt_table)\<rparr>
     else None)"
  using the_loader_strings[OF assms(2), of x]
  by (simp add: newConfig_def assms(1) load_configs_all config_structs del: NewFileLoader.simps)

lemma get_string_tables:
  "c = \<lparr>c_server = strings (set_all r server_table), c_api = strings (set_all r api_table),
        c_gslb = strings (set_all r gslb_table), c_jwt = strings (set_all r jwt_table)\<rparr> \<Longrightarrow>
    Env c = r ''SRV_ENV'' ''prod'' \<and> LuaSandbox c = r ''SRV_LUA_SANDBOX'' [] \<and> Port c = r ''API_PORT'' '':8080'' \<and>
    Zone_name c = r ''GSLB_ZONE'' [] \<and> NameServer c = r ''GSLB_NAMESERVER'' [] \<and>
    poll_interval_text c = r ''GSLB_POLL_INTERVAL'' ''1m'' \<and> UpdaterHost c = r ''GSLB_UPDATER_HOST'' [] \<and>
    Servers c = r ''GSLB_DNSDIST_SERVERS_FILE'' [] \<and> Secret c = r ''JWT_SECRET'' [] \<and> User c = r ''JWT_USER'' []"
  by (simp add: strings_def set_all_def tables tagged_def Env_def LuaSandbox_def Port_def Zone_name_def NameServer_def
      poll_interval_text_def UpdaterHost_def Servers_def Secret_def User_def)


text \<open>A mounted secret and a variable of the same name.\<close>

definition secret_files :: "string \<Rightarrow> Ext" where
  "secret_files user =
     \<lparr>x_env = [''JWT_USER'' \<mapsto> ''from-env'', ''API_PORT'' \<mapsto> '':9090''],
      x_stat = [''./secrets'' \<mapsto> Directory (Some [''secrets/JWT_USER'']), ''secrets/JWT_USER'' \<mapsto> RegularFile (Some user)],
      x_godotenv = (\<lambda>_. None), x_json = (\<lambda>_ d. (False, d))\<rparr>"

lemma secret_files_loader:
  "NewFileLoader (secret_files user) [''.env'', ''./secrets''] = Some [''secrets/JWT_USER'']"
  "not_json ''secrets/JWT_USER''"
  by (simp_all add: secret_files_def HasSuffix_def)

lemma secret_files_resolve:
  "loads (secret_files user) ''secrets/JWT_USER''" "resolve (secret_files user) [''secrets/JWT_USER''] ''JWT_USER'' [] = user"
  "resolve (secret_files user) [''secrets/JWT_USER''] ''API_PORT'' d = '':9090''"
  by (simp_all add: resolve_def file_source_def over_def loads_def secret_files_def HasSuffix_def Contains_def ReadFile_def)


end
