(* ===== verification/RestUpdater.thy ===== *)
theory RestUpdater
  imports HttpClient Config Spoofs
begin

text \<open>
  \<^verbatim>\<open>internal/dns/update/rest.go\<close>: the updater that tells a server of spoofs over HTTP, with the token of
  \<open>Auth\<close> and the client of \<open>HttpClient\<close>. The builder is one object for all requests, so that what one request
  sets is there for the next. \<open>marshal\<close> is the JSON of a spoof, \<open>valid\<close> the check of method and URL in
  \<^verbatim>\<open>http.NewRequest\<close>.
\<close>

record 'w RESTUpdater =
  ru_Server :: string
  ru_client :: "'w client"
  ru_builder :: Builder

datatype 'w updaterOption = UpdaterWithServer string | UpdaterWithClient "'w client"

fun apply_updater_option :: "'w updaterOption \<Rightarrow> 'w RESTUpdater \<Rightarrow> 'w RESTUpdater" where
  "apply_updater_option (UpdaterWithServer server) u = u\<lparr>ru_Server := server\<rparr>"
| "apply_updater_option (UpdaterWithClient c) u = u\<lparr>ru_client := c\<rparr>"

definition NewUpdater ::
  "('w trip \<Rightarrow> 'w trip) \<Rightarrow> 'w trip \<Rightarrow> 'w trip \<Rightarrow> 'w logger \<Rightarrow> Config \<Rightarrow> 'w updaterOption list \<Rightarrow> 'w RESTUpdater option" where
  "NewUpdater http_do own dt slog cfg opts =
     (case NewClient own dt [WithRetry 3 [], WithRequestLogging (Some slog)] of
        None \<Rightarrow> None
      | Some c \<Rightarrow>
          let u = fold apply_updater_option opts
                \<lparr>ru_Server = UpdaterHost cfg, ru_client = Client_Do http_do dt c, ru_builder = NewBuilder []\<rparr>
          in Some (u\<lparr>ru_builder := SetHeader ''User-Agent'' (User cfg) (NewBuilder (ru_Server u))\<rparr>))"

text \<open>Sending what the builder holds; the body that was read stays read.\<close>

definition send ::
  "(string \<Rightarrow> string \<Rightarrow> bool) \<Rightarrow> Builder \<Rightarrow> 'w RESTUpdater \<Rightarrow> 'w \<Rightarrow> (answer \<times> 'w RESTUpdater \<times> 'w) option" where
  "send valid b u w =
     (case Build valid b of
        None \<Rightarrow> Some (None, u\<lparr>ru_builder := b\<rparr>, w)
      | Some req \<Rightarrow>
          Option.bind (ru_client u req w) (\<lambda>(resp, req, w). Some (resp, u\<lparr>ru_builder := b\<lparr>b_body := rq_body req\<rparr>\<rparr>, w)))"

definition down_builder :: "Service \<Rightarrow> string \<Rightarrow> Builder \<Rightarrow> Builder" where
  "down_builder svc token b =
     URL (''/spoofs/'' @ svc_MemberOf svc @ '':'' @ svc_Datacenter svc) (SetHeader ''Authorization'' token (Method ''DELETE'' b))"

definition up_builder :: "(Spoof \<Rightarrow> string option) \<Rightarrow> Service \<Rightarrow> string \<Rightarrow> Builder \<Rightarrow> Builder" where
  "up_builder marshal svc token b =
     Body (marshal \<lparr>sp_FQDN = svc_MemberOf svc, sp_IP = GetIP svc, sp_DC = svc_Datacenter svc\<rparr>)
       (URL ''/spoofs'' (SetHeader ''Authorization'' token (Method ''POST'' b)))"

text \<open>The first component is whether the call returns without an error.\<close>

type_synonym 'w updated = "(bool \<times> 'w RESTUpdater \<times> TokenManager option \<times> 'w) option"

definition ServiceDown ::
  "signer \<Rightarrow> (string \<Rightarrow> string \<Rightarrow> bool) \<Rightarrow> int \<times> int \<times> int \<Rightarrow> Service \<Rightarrow>
    'w RESTUpdater \<Rightarrow> TokenManager option \<Rightarrow> 'w \<Rightarrow> 'w updated" where
  "ServiceDown sign valid clock svc u mgrInstance w =
     (case GetServiceToken sign clock mgrInstance of
        (None, mgrInstance) \<Rightarrow> Some (False, u, mgrInstance, w)
      | (Some token, mgrInstance) \<Rightarrow>
          Option.bind (send valid (down_builder svc token (ru_builder u)) u w) (\<lambda>(resp, u, w).
            Some (case resp of None \<Rightarrow> False | Some r \<Rightarrow> 200 \<le> rp_StatusCode r \<and> rp_StatusCode r \<le> 299, u, mgrInstance, w)))"

definition ServiceUp ::
  "signer \<Rightarrow> (string \<Rightarrow> string \<Rightarrow> bool) \<Rightarrow> (Spoof \<Rightarrow> string option) \<Rightarrow> int \<times> int \<times> int \<Rightarrow> Service \<Rightarrow>
    'w RESTUpdater \<Rightarrow> TokenManager option \<Rightarrow> 'w \<Rightarrow> 'w updated" where
  "ServiceUp sign valid marshal clock svc u mgrInstance w =
     (case GetServiceToken sign clock mgrInstance of
        (None, mgrInstance) \<Rightarrow> Some (False, u, mgrInstance, w)
      | (Some token, mgrInstance) \<Rightarrow>
          Option.bind (send valid (up_builder marshal svc token (ru_builder u)) u w) (\<lambda>(resp, u, w).
            Some (resp \<noteq> None, u, mgrInstance, w)))"

section \<open>Properties\<close>

text \<open>The retries that the constructor asks for never happen: nothing is retryable by default.\<close>

definition logged :: "('w trip \<Rightarrow> 'w trip) \<Rightarrow> 'w trip \<Rightarrow> 'w trip \<Rightarrow> 'w logger \<Rightarrow> 'w trip" where
  "logged http_do own dt slog = http_do (LogInterception_RoundTrip dt slog (Some own))"

lemma Retry_never: "rt_Retryable c = (\<lambda>_. False) \<Longrightarrow> Retry_Do (total trip) c = total trip"
  by (intro ext) (simp add: Retry_Do_def redo_loop.simps)

lemma NewUpdater_client:
  assumes "NewUpdater http_do own dt slog cfg opts = Some u" "\<forall>c. UpdaterWithClient c \<notin> set opts"
  shows "ru_client u = total (logged http_do own dt slog)"
proof -
  have opts: "ru_client (fold apply_updater_option opts u') = ru_client u'" for u'
    using assms(2)
  proof (induction opts arbitrary: u')
    case (Cons opt opts)
    then show ?case by (cases opt) auto
  qed simp
  have base: "base_Do http_do dt \<lparr>cl_Transport = Some (LogInterception_RoundTrip dt slog (Some own)), cl_retries = rs\<rparr>
      = total (logged http_do own dt slog)" for rs
    by (intro ext) (simp add: base_Do_def logged_def)
  show ?thesis
    using assms(1) by (auto simp: NewUpdater_def NewClient_def NewRetryClient_def Client_Do_def base Retry_never opts Let_def)
qed

lemma send_total:
  assumes "ru_client u = total trip"
  shows "\<exists>u' w'. send valid b u w =
    Some (case Build valid b of None \<Rightarrow> None | Some req \<Rightarrow> fst (trip req w), u', w') \<and>
    w' = (case Build valid b of None \<Rightarrow> w | Some req \<Rightarrow> snd (snd (trip req w)))"
  using assms by (auto simp: send_def split: option.splits prod.splits)

text \<open>
  What the updater reports: the client of the constructor makes one attempt. A deletion succeeds exactly if it is
  answered with a status from 200 to 299; a creation succeeds with any answer, refusals and server errors included.
\<close>

theorem rest_updates_report:
  assumes "NewUpdater http_do own dt slog cfg opts = Some u" "\<forall>c. UpdaterWithClient c \<notin> set opts"
    and "GetServiceToken sign clock mgr = (Some token, mgr')"
    and "Build valid (up_builder marshal svc token (ru_builder u)) = Some up_req"
    and "Build valid (down_builder svc token (ru_builder u)) = Some down_req"
  shows "(\<exists>u'. ServiceUp sign valid marshal clock svc u mgr w =
      Some (fst (logged http_do own dt slog up_req w) \<noteq> None, u', mgr', snd (snd (logged http_do own dt slog up_req w)))) \<and>
    (\<exists>u'. ServiceDown sign valid clock svc u mgr w =
      Some (case fst (logged http_do own dt slog down_req w) of None \<Rightarrow> False | Some r \<Rightarrow> 200 \<le> rp_StatusCode r \<and> rp_StatusCode r \<le> 299,
        u', mgr', snd (snd (logged http_do own dt slog down_req w))))"
  using send_total[OF NewUpdater_client[OF assms(1,2)], of valid "up_builder marshal svc token (ru_builder u)" w]
    send_total[OF NewUpdater_client[OF assms(1,2)], of valid "down_builder svc token (ru_builder u)" w] assms(3-5)
  by (auto simp: ServiceUp_def ServiceDown_def)

text \<open>A server that fails with status 500 accepts a creation and refuses a deletion.\<close>

definition quiet :: "'w logger" where "quiet e req w = w"

definition host_config :: Config where
  "host_config = \<lparr>c_server = Struct serverCfg, c_api = Struct apiCfg,
     c_gslb = Struct [tagged ''UPDATERHOST'' ''GSLB_UPDATER_HOST'' ''host''], c_jwt = Struct jwtCfg\<rparr>"

definition demo_tm :: TokenManager where
  "demo_tm = \<lparr>tm_userClaims = \<lparr>uc_Name = ''OVERRIDER'', uc_AllowedMethods = [], uc_AllowedRoutes = []\<rparr>,
     tm_expiresAt = 10 ^ 15, tm_current = ''tok'', tm_renewalBuffer = 5 * minute\<rparr>"

theorem rest_updates_report_witness:
  "\<exists>u u1 u2. NewUpdater (\<lambda>t. t) listed listed quiet host_config [] = Some u \<and>
     ServiceUp unary_sign (\<lambda>_ _. True) (\<lambda>_. Some []) (1, 2, 3) svc u (Some demo_tm) [500] = Some (True, u1, Some demo_tm, []) \<and>
     ServiceDown unary_sign (\<lambda>_ _. True) (1, 2, 3) svc u (Some demo_tm) [500] = Some (False, u2, Some demo_tm, [])"
proof -
  obtain u where u: "NewUpdater (\<lambda>t. t) listed listed quiet host_config [] = Some u"
    by (simp add: NewUpdater_def NewClient_def NewRetryClient_def)
  have tok: "GetServiceToken unary_sign (1, 2, 3) (Some demo_tm) = (Some (''Bearer '' @ ''tok''), Some demo_tm)"
    by (simp add: GetServiceToken_def demo_tm_def minute_def)
  have "fst (logged (\<lambda>t. t) listed listed quiet req [500]) = Some \<lparr>rp_StatusCode = 500\<rparr>"
    "snd (snd (logged (\<lambda>t. t) listed listed quiet req [500])) = []" for req
    by (simp_all add: logged_def LogInterception_RoundTrip_def quiet_def listed_def)
  moreover have "\<exists>req. Build (\<lambda>_ _. True) b = Some req" for b by (simp add: Build_def)
  ultimately show ?thesis
    using rest_updates_report[OF u _ tok, of "\<lambda>_ _. True" "\<lambda>_. Some []" svc _ _ "[500]"] u
    by simp metis
qed

end
