(* ===== verification/LuaChecks.thy ===== *)
theory LuaChecks
  imports Prelude
begin

text \<open>
  \<^verbatim>\<open>internal/checks/lua.go\<close> and \<^verbatim>\<open>pkg/lua\<close>: a health check may judge a response by a script. The
  interpreter is a third-party package: \<open>compile\<close> is its compiler and \<open>run\<close> what a call of the compiled script
  ends with, given the sandbox table it runs in. All interpreters share one sandbox table.
\<close>

section \<open>Validation\<close>

record Sandbox =
  sb_status_code :: "int option"
  sb_body :: "string option"
  sb_headers :: "(string, string) gomap option"

definition clean_sandbox :: Sandbox where
  "clean_sandbox = \<lparr>sb_status_code = None, sb_body = None, sb_headers = None\<rparr>"

datatype lua_value = LNil | LFalse | LOther

text \<open>A call returns a value, fails (the execution timeout included), or panics.\<close>

datatype run_result = Returned lua_value | ScriptError | ScriptPanic

text \<open>The bytes of a body that can be read before its end, which may be an error.\<close>

record Body =
  bd_data :: string
  bd_fails :: bool

record HttpResponse =
  hr_StatusCode :: int
  hr_Header :: "(string, string list) gomap"
  hr_Body :: Body

record 'f LuaValidator =
  lv_script :: string
  lv_compiled :: "'f option"

definition maxBodySize :: nat where "maxBodySize = 1 * 1024 * 1024"

definition unableToLoad :: string where "unableToLoad = ''unable-to-load''"

text \<open>At most \<open>maxBodySize\<close> bytes are read, then one more to see whether there are any.\<close>

definition readBody :: "Body \<Rightarrow> string \<times> bool" where
  "readBody body =
     (if length (bd_data body) < maxBodySize \<and> bd_fails body then (unableToLoad, False)
      else let rawBody = take maxBodySize (bd_data body)
           in if length rawBody = maxBodySize \<and> drop maxBodySize (bd_data body) \<noteq> [] then (unableToLoad, False)
              else (rawBody, True))"

fun first_values :: "(string, string list) gomap \<Rightarrow> (string, string) gomap" where
  "first_values [] = []"
| "first_values ((key, []) # h) = first_values h"
| "first_values ((key, v # vs) # h) = (key, v) # first_values h"

datatype check_error = CompileError | BodyError | ScriptFailed | NilValue | FalseValue | Recovered

text \<open>Compiling, once for each validator.\<close>

definition compile_script :: "(string \<Rightarrow> 'f option) \<Rightarrow> 'f LuaValidator \<Rightarrow> 'f LuaValidator option" where
  "compile_script compile l =
     (case lv_compiled l of
        Some f \<Rightarrow> Some l
      | None \<Rightarrow> map_option (\<lambda>f. l\<lparr>lv_compiled := Some f\<rparr>) (compile (lv_script l)))"

definition populate :: "HttpResponse \<Rightarrow> Sandbox \<Rightarrow> Sandbox" where
  "populate resp sandbox =
     sandbox\<lparr>sb_status_code := Some (hr_StatusCode resp), sb_body := Some (fst (readBody (hr_Body resp))),
       sb_headers := Some (first_values (hr_Header resp))\<rparr>"

text \<open>
  What a call makes of the verdict and of the sandbox. A script that ran is judged by its value, and then by whether
  the body could be read; a panic skips the cleaning.
\<close>

definition judge :: "bool \<Rightarrow> run_result \<Rightarrow> Sandbox \<Rightarrow> (check_error + unit) \<times> Sandbox" where
  "judge body_ok r sandbox =
     (case r of
        ScriptPanic \<Rightarrow> (Inl Recovered, sandbox)
      | ScriptError \<Rightarrow> (Inl ScriptFailed, clean_sandbox)
      | Returned LNil \<Rightarrow> (Inl NilValue, clean_sandbox)
      | Returned LFalse \<Rightarrow> (Inl FalseValue, clean_sandbox)
      | Returned LOther \<Rightarrow> (if body_ok then Inr () else Inl BodyError, clean_sandbox))"

definition Validate_response ::
  "(string \<Rightarrow> 'f option) \<Rightarrow> ('f \<Rightarrow> Sandbox \<Rightarrow> run_result) \<Rightarrow> HttpResponse \<Rightarrow> 'f LuaValidator \<Rightarrow> Sandbox
    \<Rightarrow> (check_error + unit) \<times> 'f LuaValidator \<times> Sandbox" where
  "Validate_response compile run resp l sandbox =
     (case compile_script compile l of
        None \<Rightarrow> (Inl CompileError, l, sandbox)
      | Some l \<Rightarrow>
          let sandbox = populate resp sandbox;
              (v, sandbox) = judge (snd (readBody (hr_Body resp))) (run (the (lv_compiled l)) sandbox) sandbox
          in (v, l, sandbox))"

section \<open>The bucket of interpreters\<close>

text \<open>
  Every check takes an interpreter out of the bucket and puts it back. Both take the mutex first, and taking waits
  for an interpreter with the mutex held. \<^verbatim>\<open>Shutdown\<close> closes interpreters for ever.
\<close>

datatype caller_pc =
    Away | WantGet | InGet | Using nat | WantPut nat | InPut nat | WantShutdown | InShutdown

record Bucket =
  lb_max :: nat
  lb_vms :: "nat list"
  lb_mu :: "nat option"
  lb_pc :: "nat \<Rightarrow> caller_pc"

text \<open>The bucket after \<^verbatim>\<open>LoadSandboxConfig\<close> has filled it.\<close>

definition LoadSandboxConfig :: "nat \<Rightarrow> Bucket" where
  "LoadSandboxConfig n = \<lparr>lb_max = n, lb_vms = [0..<n], lb_mu = None, lb_pc = (\<lambda>_. Away)\<rparr>"

inductive bucket_step :: "Bucket \<Rightarrow> Bucket \<Rightarrow> bool" where
  call_get: "lb_pc b c = Away \<Longrightarrow> bucket_step b (b\<lparr>lb_pc := (lb_pc b)(c := WantGet)\<rparr>)"
| lock_get: "lb_pc b c = WantGet \<Longrightarrow> lb_mu b = None \<Longrightarrow>
    bucket_step b (b\<lparr>lb_mu := Some c, lb_pc := (lb_pc b)(c := InGet)\<rparr>)"
| receive: "lb_pc b c = InGet \<Longrightarrow> lb_vms b = vm # vms \<Longrightarrow>
    bucket_step b (b\<lparr>lb_vms := vms, lb_mu := None, lb_pc := (lb_pc b)(c := Using vm)\<rparr>)"
| call_put: "lb_pc b c = Using vm \<Longrightarrow> bucket_step b (b\<lparr>lb_pc := (lb_pc b)(c := WantPut vm)\<rparr>)"
| lock_put: "lb_pc b c = WantPut vm \<Longrightarrow> lb_mu b = None \<Longrightarrow>
    bucket_step b (b\<lparr>lb_mu := Some c, lb_pc := (lb_pc b)(c := InPut vm)\<rparr>)"
| send: "lb_pc b c = InPut vm \<Longrightarrow> length (lb_vms b) < lb_max b \<Longrightarrow>
    bucket_step b (b\<lparr>lb_vms := lb_vms b @ [vm], lb_mu := None, lb_pc := (lb_pc b)(c := Away)\<rparr>)"
| call_shutdown: "lb_pc b c = Away \<Longrightarrow> bucket_step b (b\<lparr>lb_pc := (lb_pc b)(c := WantShutdown)\<rparr>)"
| lock_shutdown: "lb_pc b c = WantShutdown \<Longrightarrow> lb_mu b = None \<Longrightarrow>
    bucket_step b (b\<lparr>lb_mu := Some c, lb_pc := (lb_pc b)(c := InShutdown)\<rparr>)"
| close_vm: "lb_pc b c = InShutdown \<Longrightarrow> lb_vms b = vm # vms \<Longrightarrow> bucket_step b (b\<lparr>lb_vms := vms\<rparr>)"

abbreviation bucket_steps :: "Bucket \<Rightarrow> Bucket \<Rightarrow> bool" where
  "bucket_steps \<equiv> bucket_step\<^sup>*\<^sup>*"

fun holds :: "caller_pc \<Rightarrow> nat option" where
  "holds (Using vm) = Some vm"
| "holds (WantPut vm) = Some vm"
| "holds (InPut vm) = Some vm"
| "holds _ = None"

fun locked :: "caller_pc \<Rightarrow> bool" where
  "locked InGet = True"
| "locked (InPut vm) = True"
| "locked InShutdown = True"
| "locked _ = False"

section \<open>Properties\<close>

lemma readBody_ok: "snd (readBody body) \<longleftrightarrow> length (bd_data body) \<le> maxBodySize \<and> (bd_fails body \<longrightarrow> length (bd_data body) = maxBodySize)"
  by (auto simp: readBody_def Let_def)

lemma readBody_text: "snd (readBody body) \<Longrightarrow> fst (readBody body) = bd_data body"
  by (auto simp: readBody_def Let_def split: if_splits)

text \<open>
  The verdict of a script: a response passes exactly if the script compiles, the body could be read and is no
  longer than the limit, and the script, run on status, body and headers of this response, returns a value other than
  nil and false.
\<close>

theorem script_verdict:
  "fst (Validate_response compile run resp l sandbox) = Inr () \<longleftrightarrow>
    (\<exists>f. (lv_compiled l = Some f \<or> lv_compiled l = None \<and> compile (lv_script l) = Some f) \<and>
      (if bd_fails (hr_Body resp) then length (bd_data (hr_Body resp)) = maxBodySize
       else length (bd_data (hr_Body resp)) \<le> maxBodySize) \<and>
      run f (sandbox\<lparr>sb_status_code := Some (hr_StatusCode resp), sb_body := Some (bd_data (hr_Body resp)),
        sb_headers := Some (first_values (hr_Header resp))\<rparr>) = Returned LOther)"
proof (cases "snd (readBody (hr_Body resp))")
  case True
  then show ?thesis
    using readBody_text[OF True] readBody_ok[of "hr_Body resp"]
    by (auto simp: Validate_response_def compile_script_def judge_def populate_def Let_def
        split: option.splits run_result.splits lua_value.splits prod.splits)
next
  case False
  then show ?thesis
    using readBody_ok[of "hr_Body resp"]
    by (auto simp: Validate_response_def compile_script_def judge_def populate_def Let_def
        split: option.splits run_result.splits lua_value.splits prod.splits)
qed

text \<open>Two checks at the same time, with the one sandbox between them.\<close>

datatype validation = Ready HttpResponse | Populated HttpResponse | Finished "check_error + unit"

inductive validation_step ::
  "(Sandbox \<Rightarrow> run_result) \<Rightarrow> Sandbox \<times> (nat \<Rightarrow> validation) \<Rightarrow> Sandbox \<times> (nat \<Rightarrow> validation) \<Rightarrow> bool" for run where
  populating: "vs c = Ready resp \<Longrightarrow> validation_step run (sandbox, vs) (populate resp sandbox, vs(c := Populated resp))"
| running: "vs c = Populated resp \<Longrightarrow> judge (snd (readBody (hr_Body resp))) (run sandbox) sandbox = (v, sandbox') \<Longrightarrow>
    validation_step run (sandbox, vs) (sandbox', vs(c := Finished v))"

lemma populate_overwrites: "populate a (populate b s) = populate a s"
  by (simp add: populate_def)

text \<open>
  C35. The sandbox is shared: if a script accepts one response, then a check of any other response whose body can be
  read may pass as well, whatever the script makes of it, because the values of the first may be in the sandbox when
  the script of the second runs.
\<close>

theorem verdict_of_another_response:
  assumes "run (populate good sandbox) = Returned LOther" "snd (readBody (hr_Body bad))" "c \<noteq> d"
  shows "\<exists>sandbox' vs'. (validation_step run)\<^sup>*\<^sup>* (sandbox, (\<lambda>_. Ready good)(d := Ready bad)) (sandbox', vs') \<and> vs' d = Finished (Inr ())"
proof -
  let ?vs = "(\<lambda>_. Ready good)(d := Ready bad)"
  let ?vs1 = "?vs(d := Populated bad)" and ?s1 = "populate bad sandbox"
  let ?vs2 = "?vs1(c := Populated good)" and ?s2 = "populate good ?s1"
  have s2: "?s2 = populate good sandbox" by (rule populate_overwrites)
  have "validation_step run (sandbox, ?vs) (?s1, ?vs1)" by (rule populating) simp
  moreover have "validation_step run (?s1, ?vs1) (?s2, ?vs2)" by (rule populating) (simp add: assms(3))
  moreover have "validation_step run (?s2, ?vs2) (clean_sandbox, ?vs2(d := Finished (Inr ())))"
  proof (rule running)
    show "?vs2 d = Populated bad" using assms(3) by simp
    show "judge (snd (readBody (hr_Body bad))) (run ?s2) ?s2 = (Inr (), clean_sandbox)"
      unfolding s2 by (simp add: judge_def assms(1,2))
  qed
  ultimately have "(validation_step run)\<^sup>*\<^sup>* (sandbox, ?vs) (clean_sandbox, ?vs2(d := Finished (Inr ())))"
    by (meson converse_rtranclp_into_rtranclp r_into_rtranclp)
  moreover have "(?vs2(d := Finished (Inr ()))) d = Finished (Inr ())" by simp
  ultimately show ?thesis by blast
qed

definition with_status :: "int \<Rightarrow> HttpResponse" where
  "with_status code = \<lparr>hr_StatusCode = code, hr_Header = [], hr_Body = \<lparr>bd_data = [], bd_fails = False\<rparr>\<rparr>"

definition is_200 :: "Sandbox \<Rightarrow> run_result" where
  "is_200 s = Returned (if sb_status_code s = Some 200 then LOther else LFalse)"

theorem verdict_of_another_response_witness:
  "is_200 (populate (with_status 500) clean_sandbox) = Returned LFalse \<and>
   (\<exists>sandbox' vs'. (validation_step is_200)\<^sup>*\<^sup>* (clean_sandbox, (\<lambda>_. Ready (with_status 200))(1 := Ready (with_status 500))) (sandbox', vs')
     \<and> vs' 1 = Finished (Inr ()))"
proof
  show "is_200 (populate (with_status 500) clean_sandbox) = Returned LFalse"
    by (simp add: is_200_def populate_def with_status_def)
  show "\<exists>sandbox' vs'. (validation_step is_200)\<^sup>*\<^sup>* (clean_sandbox, (\<lambda>_. Ready (with_status 200))(1 := Ready (with_status 500))) (sandbox', vs')
     \<and> vs' 1 = Finished (Inr ())"
    by (rule verdict_of_another_response[of is_200 "with_status 200" clean_sandbox "with_status 500" 0 1])
      (simp_all add: is_200_def populate_def with_status_def readBody_def maxBodySize_def)
qed

subsection \<open>The bucket\<close>

definition bucket_inv :: "Bucket \<Rightarrow> bool" where
  "bucket_inv b \<longleftrightarrow> distinct (lb_vms b) \<and> (\<forall>c vm. holds (lb_pc b c) = Some vm \<longrightarrow> vm \<notin> set (lb_vms b)) \<and>
     (\<forall>c d vm. holds (lb_pc b c) = Some vm \<longrightarrow> holds (lb_pc b d) = Some vm \<longrightarrow> c = d)"

lemma holder_out: "bucket_inv b \<Longrightarrow> holds (lb_pc b c) = Some vm \<Longrightarrow> vm \<notin> set (lb_vms b)"
  unfolding bucket_inv_def by blast

lemma bucket_step_inv: "bucket_step b b' \<Longrightarrow> bucket_inv b \<Longrightarrow> bucket_inv b'"
proof (induction rule: bucket_step.induct)
  case (receive b c vm vms)
  then have "holds (lb_pc b d) \<noteq> Some vm" for d unfolding bucket_inv_def by auto
  with receive show ?case unfolding bucket_inv_def by auto
next
  case (send b c vm)
  then have h: "holds (lb_pc b c) = Some vm" by simp
  with send show ?case unfolding bucket_inv_def by (auto simp: holder_out[OF send.prems h] split: if_splits)
next
  case (call_put b c vm)
  then have h: "holds (lb_pc b c) = Some vm" by simp
  with call_put show ?case unfolding bucket_inv_def by (auto simp: holder_out[OF call_put.prems h] split: if_splits)
next
  case (lock_put b c vm)
  then have h: "holds (lb_pc b c) = Some vm" by simp
  with lock_put show ?case unfolding bucket_inv_def by (auto simp: holder_out[OF lock_put.prems h] split: if_splits)
qed (auto simp: bucket_inv_def split: if_splits)

text \<open>
  C40. No interpreter is shared: in every interleaving of checks and shutdowns, an interpreter is in the bucket or
  with one check, never both and never with two.
\<close>

theorem interpreters_are_exclusive:
  assumes "bucket_steps (LoadSandboxConfig n) b" "holds (lb_pc b c) = Some vm"
  shows "vm \<notin> set (lb_vms b) \<and> (holds (lb_pc b d) = Some vm \<longrightarrow> d = c)"
proof -
  have "bucket_inv b"
    using assms(1)
  proof (induction rule: rtranclp_induct)
    case base
    show ?case by (simp add: bucket_inv_def LoadSandboxConfig_def)
  qed (rule bucket_step_inv)
  with assms(2) show ?thesis unfolding bucket_inv_def by blast
qed

text \<open>A caller that waits for an interpreter with the mutex in its hands.\<close>

definition stuck :: "nat \<Rightarrow> Bucket \<Rightarrow> bool" where
  "stuck c b \<longleftrightarrow> lb_vms b = [] \<and> lb_mu b = Some c \<and> lb_pc b c = InGet \<and> (\<forall>d. locked (lb_pc b d) \<longrightarrow> d = c)"

lemma stuck_step: "bucket_step b b' \<Longrightarrow> stuck c b \<Longrightarrow> stuck c b' \<and> holds \<circ> lb_pc b' = holds \<circ> lb_pc b"
proof (induction rule: bucket_step.induct)
  case (send b d vm)
  then have "locked (lb_pc b d)" by simp
  then have "d = c" using send.prems unfolding stuck_def by blast
  with send show ?case by (simp add: stuck_def)
qed (auto simp: stuck_def fun_eq_iff split: if_splits)

lemma stuck_steps: "bucket_steps b b' \<Longrightarrow> stuck c b \<Longrightarrow> stuck c b' \<and> holds \<circ> lb_pc b' = holds \<circ> lb_pc b"
  by (induction rule: rtranclp_induct) (auto dest: stuck_step)

definition taken :: "nat \<Rightarrow> nat \<Rightarrow> Bucket" where
  "taken n k = \<lparr>lb_max = n, lb_vms = [k..<n], lb_mu = None, lb_pc = (\<lambda>c. if c < k then Using c else Away)\<rparr>"

text \<open>The three steps of a caller that takes an interpreter.\<close>

lemma get_steps:
  assumes "lb_pc b c = Away" "lb_mu b = None"
  shows "bucket_steps b (b\<lparr>lb_mu := Some c, lb_pc := (lb_pc b)(c := InGet)\<rparr>)"
proof -
  have "bucket_step b (b\<lparr>lb_pc := (lb_pc b)(c := WantGet)\<rparr>)" by (rule call_get[OF assms(1)])
  moreover have "bucket_step (b\<lparr>lb_pc := (lb_pc b)(c := WantGet)\<rparr>) (b\<lparr>lb_mu := Some c, lb_pc := (lb_pc b)(c := InGet)\<rparr>)"
    using lock_get[of "b\<lparr>lb_pc := (lb_pc b)(c := WantGet)\<rparr>" c] assms(2) by (simp add: fun_upd_idem)
  ultimately show ?thesis by (meson converse_rtranclp_into_rtranclp r_into_rtranclp)
qed

lemma taken_reachable: "k \<le> n \<Longrightarrow> bucket_steps (LoadSandboxConfig n) (taken n k)"
proof (induction k)
  case 0
  then show ?case by (simp add: taken_def LoadSandboxConfig_def)
next
  case (Suc k)
  let ?b = "(taken n k)\<lparr>lb_mu := Some k, lb_pc := (lb_pc (taken n k))(k := InGet)\<rparr>"
  have "bucket_steps (taken n k) ?b" by (rule get_steps) (simp_all add: taken_def)
  then have "bucket_steps (LoadSandboxConfig n) ?b" using Suc.IH Suc.prems by (meson Suc_leD rtranclp_trans)
  moreover have "bucket_step ?b (?b\<lparr>lb_vms := [Suc k..<n], lb_mu := None, lb_pc := (lb_pc ?b)(k := Using k)\<rparr>)"
    using Suc.prems by (intro receive) (simp_all add: taken_def upt_conv_Cons)
  moreover have "?b\<lparr>lb_vms := [Suc k..<n], lb_mu := None, lb_pc := (lb_pc ?b)(k := Using k)\<rparr> = taken n (Suc k)"
    by (intro Bucket.equality) (auto simp: taken_def less_Suc_eq)
  ultimately show ?case by (metis rtranclp.rtrancl_into_rtrancl)
qed

theorem interpreters_are_exclusive_witness:
  "holds (lb_pc (taken 2 1) 0) = Some 0 \<and> 0 \<notin> set (lb_vms (taken 2 1)) \<and> holds (lb_pc (taken 2 1) 1) \<noteq> Some 0"
proof -
  have h: "holds (lb_pc (taken 2 1) 0) = Some 0" by (simp add: taken_def)
  from interpreters_are_exclusive[OF taken_reachable[of 1 2] this, of 1] h show ?thesis by simp
qed

text \<open>
  C7. One check too many stops all: whatever the number of interpreters, when all of them are with checks and one
  more check asks for one, it waits with the mutex held, so that from then on no interpreter is ever put back or
  handed out.
\<close>

theorem exhausted_bucket_deadlocks:
  "\<exists>b. bucket_steps (LoadSandboxConfig n) b \<and> (\<lambda>c. holds (lb_pc b c)) = (\<lambda>c. if c < n then Some c else None) \<and>
    {b'. bucket_steps b b'} \<subseteq>
      {b'. lb_mu b' = Some n \<and> lb_vms b' = [] \<and> (\<lambda>c. holds (lb_pc b' c)) = (\<lambda>c. holds (lb_pc b c))}"
proof -
  let ?b = "(taken n n)\<lparr>lb_mu := Some n, lb_pc := (lb_pc (taken n n))(n := InGet)\<rparr>"
  have "bucket_steps (taken n n) ?b" by (rule get_steps) (simp_all add: taken_def)
  then have "bucket_steps (LoadSandboxConfig n) ?b" using taken_reachable[of n n] by simp
  moreover have "stuck n ?b" by (auto simp: stuck_def taken_def)
  then have "{b'. bucket_steps ?b b'} \<subseteq>
      {b'. lb_mu b' = Some n \<and> lb_vms b' = [] \<and> (\<lambda>c. holds (lb_pc b' c)) = (\<lambda>c. holds (lb_pc ?b c))}"
    using stuck_steps unfolding stuck_def comp_def by blast
  moreover have "(\<lambda>c. holds (lb_pc ?b c)) = (\<lambda>c. if c < n then Some c else None)" by (auto simp: taken_def)
  ultimately show ?thesis by blast
qed

end
