(* ===== verification/Api.thy ===== *)
theory Api
  imports Spoofs Config
begin

text \<open>
  The HTTP API as \<^verbatim>\<open>cmd/main.go\<close> wires it: the routes of \<^verbatim>\<open>internal/api/routes\<close>, each with its
  middleware and handler, and the pattern matching of Go's \<^verbatim>\<open>ServeMux\<close> for them. An answer is its status;
  the handlers and their answers in full are in \<open>Spoofs\<close>.
\<close>

section \<open>Requests\<close>

text \<open>
  The path is the list of its segments, the last one empty for a trailing slash; paths are clean (the mux redirects
  others) and need no escaping. A body is what JSON decoding makes
  of it for each type a handler decodes.
\<close>

record Failover =
  fo_NextHealthy :: bool
  fo_Datacenter :: string

record HttpRequest =
  hq_Method :: string
  hq_Path :: "string list"
  hq_RawQuery :: string
  hq_Authorization :: string
  hq_Override :: "Override option"
  hq_Failover :: "Failover option"
  hq_id :: "string option"

definition URL_String :: "HttpRequest \<Rightarrow> string" where
  "URL_String r = concat (map (\<lambda>s. ''/'' @ s) (hq_Path r)) @ (if hq_RawQuery r = [] then [] else ''?'' @ hq_RawQuery r)"

text \<open>A handler may panic; the server then drops the connection.\<close>

type_synonym 's HandlerFunc = "HttpRequest \<Rightarrow> 's Manager \<Rightarrow> (int \<times> 's Manager) res"
type_synonym 's MiddlewareFunc = "'s HandlerFunc \<Rightarrow> 's HandlerFunc"

fun Chain_from :: "'s MiddlewareFunc list \<Rightarrow> 's HandlerFunc \<Rightarrow> 's HandlerFunc" where
  "Chain_from [] next = next"
| "Chain_from (mw # mws) next = Chain_from mws (mw next)"

text \<open>The loop runs from the last middleware to the first.\<close>

definition Chain :: "'s MiddlewareFunc list \<Rightarrow> 's MiddlewareFunc" where
  "Chain mws next = Chain_from (rev mws) next"

definition WithIncomingRequestLogging :: "string option \<Rightarrow> 's MiddlewareFunc" where
  "WithIncomingRequestLogging uuid next = (\<lambda>r m.
     next (r\<lparr>hq_id := Some (case uuid of None \<Rightarrow> ''N/A'' | Some i \<Rightarrow> i)\<rparr>) m)"

text \<open>What the middleware of \<open>Auth\<close> needs: the parser of tokens, the token manager and the time.\<close>

record AuthEnv =
  ae_parse :: "int \<Rightarrow> string \<Rightarrow> string option"
  ae_mgrInstance :: "TokenManager option"
  ae_now :: int

definition token_middleware :: "AuthEnv \<Rightarrow> 's MiddlewareFunc" where
  "token_middleware ae next = (\<lambda>r m.
     bind (WithTokenValidation (ae_parse ae) (ae_mgrInstance ae) (ae_now ae) (hq_Authorization r) (hq_Method r) (URL_String r))
       (\<lambda>out. case out of Answered code \<Rightarrow> Ok (code, m) | PassedOn \<Rightarrow> next r m))"

section \<open>Handlers\<close>

text \<open>\<^verbatim>\<open>NewPaginationParams\<close>, filled from the query.\<close>

definition pagination_fields :: "PaginationParams \<Rightarrow> field list" where
  "pagination_fields p =
     [\<lparr>fd_name = ''Page'', fd_tags = [(''param'', ''page'')], fd_exported = True, fd_val = FInt 64 (pp_Page p)\<rparr>,
      \<lparr>fd_name = ''PageSize'', fd_tags = [(''param'', ''pageSize'')], fd_exported = True, fd_val = FInt 64 (pp_PageSize p)\<rparr>]"

definition get_int :: "field list \<Rightarrow> string \<Rightarrow> int" where
  "get_int fs name = (case find (\<lambda>f. fd_name f = name) fs of Some f \<Rightarrow> (case fd_val f of FInt w n \<Rightarrow> n | _ \<Rightarrow> 0) | None \<Rightarrow> 0)"

definition query_params :: "url_values \<Rightarrow> PaginationParams option" where
  "query_params vs =
     (case UnMarshallParams vs (Struct (pagination_fields NewPaginationParams)) of
        (True, Struct fs) \<Rightarrow> Some \<lparr>pp_Page = get_int fs ''Page'', pp_PageSize = get_int fs ''PageSize''\<rparr>
      | _ \<Rightarrow> None)"

definition FailoverService :: "string \<Rightarrow> 's HandlerFunc" where
  "FailoverService fqdn = (\<lambda>r m.
     (if fqdn = [] then Ok (400, m)
      else (case hq_Failover r of
          None \<Rightarrow> Ok (400, m)
        | Some fo \<Rightarrow> Ok (if Manager.Failover fqdn (fo_Datacenter fo) m = None then 201 else 400, m))))"

datatype handler =
    HFailover | HGetSpoofs | HGetFQDNSpoof | HGetSpoofsHash | HGetOverride | HUpdateOverride | HCreateOverride
  | HDeleteOverride | HMetrics

record 's ApiEnv =
  ap_env :: "'s MEnv"
  ap_auth :: AuthEnv
  ap_digest :: "Spoof list \<Rightarrow> string"
  ap_query :: "string \<Rightarrow> url_values"
  ap_uuid :: "string option"

text \<open>A handler with the value of the wildcard in its pattern. The metrics handler is a third-party package.\<close>

fun run_handler :: "'s ApiEnv \<Rightarrow> handler \<Rightarrow> string \<Rightarrow> 's HandlerFunc" where
  "run_handler ap HFailover var r m = FailoverService var r m"
| "run_handler ap HGetSpoofs var r m =
     bind (GetSpoofs (ap_env ap) (query_params (ap_query ap (hq_RawQuery r))) m) (\<lambda>((code, _), m). Ok (int code, m))"
| "run_handler ap HGetFQDNSpoof var r m = (let ((code, _), m) = GetFQDNSpoof (ap_env ap) var m in Ok (int code, m))"
| "run_handler ap HGetSpoofsHash var r m = (let ((code, _), m) = GetSpoofsHash (ap_digest ap) (ap_env ap) m in Ok (int code, m))"
| "run_handler ap HGetOverride var r m = (let ((code, _), m) = GetOverride (ap_env ap) var m in Ok (int code, m))"
| "run_handler ap HUpdateOverride var r m = (let (code, m) = UpdateOverride (ap_env ap) (hq_Override r) m in Ok (int code, m))"
| "run_handler ap HCreateOverride var r m = (let (code, m) = CreateOverride (ap_env ap) (hq_Override r) m in Ok (int code, m))"
| "run_handler ap HDeleteOverride var r m =
     bind (DeleteOverride (ap_env ap) (hq_Override r) m) (\<lambda>(code, m). Ok (int code, m))"
| "run_handler ap HMetrics var r m = Ok (200, m)"

section \<open>Routes\<close>

datatype seg = Lit string | Wild string

record route =
  rt_method :: "string option"
  rt_segs :: "seg list"
  rt_auth :: bool
  rt_logged :: bool
  rt_handler :: handler

definition api_route :: "string \<Rightarrow> seg list \<Rightarrow> bool \<Rightarrow> handler \<Rightarrow> route" where
  "api_route meth segs auth h = \<lparr>rt_method = Some meth, rt_segs = segs, rt_auth = auth, rt_logged = True, rt_handler = h\<rparr>"

definition api :: "route list" where
  "api =
     [api_route ''POST'' [Lit ''failover'', Wild ''fqdn''] False HFailover,
      api_route ''GET'' [Lit ''spoofs''] True HGetSpoofs,
      api_route ''GET'' [Lit ''spoofs'', Wild ''fqdn''] True HGetFQDNSpoof,
      api_route ''GET'' [Lit ''spoofs'', Lit ''hash''] True HGetSpoofsHash,
      api_route ''GET'' [Lit ''spoofs'', Lit ''override'', Wild ''memberOf''] False HGetOverride,
      api_route ''PUT'' [Lit ''spoofs'', Lit ''override'', Wild ''fqdn''] False HUpdateOverride,
      api_route ''POST'' [Lit ''spoofs'', Lit ''override''] False HCreateOverride,
      api_route ''DELETE'' [Lit ''spoofs'', Lit ''override''] False HDeleteOverride,
      \<lparr>rt_method = None, rt_segs = [Lit ''metrics''], rt_auth = False, rt_logged = False, rt_handler = HMetrics\<rparr>]"

text \<open>
  A wildcard matches one segment that is not empty, and a literal is preferred to it at the first place where two
  patterns differ.
\<close>

fun seg_matches :: "seg \<Rightarrow> string \<Rightarrow> bool" where
  "seg_matches (Lit l) s = (s = l)"
| "seg_matches (Wild n) s = (s \<noteq> [])"

fun literal_first :: "seg list \<Rightarrow> seg list \<Rightarrow> bool" where
  "literal_first (Lit a # as) (Wild b # bs) = True"
| "literal_first (Lit a # as) (Lit b # bs) = literal_first as bs"
| "literal_first (Wild a # as) (Wild b # bs) = literal_first as bs"
| "literal_first _ _ = False"

fun most_specific :: "route list \<Rightarrow> route option" where
  "most_specific [] = None"
| "most_specific (r # rs) =
     (case most_specific rs of
        None \<Rightarrow> Some r
      | Some q \<Rightarrow> Some (if literal_first (rt_segs q) (rt_segs r) then q else r))"

definition matching :: "string option \<Rightarrow> string list \<Rightarrow> route list" where
  "matching meth path = filter (\<lambda>r. rt_method r = meth \<and> list_all2 seg_matches (rt_segs r) path) api"

definition find_route :: "string \<Rightarrow> string list \<Rightarrow> route option" where
  "find_route meth path =
     (case most_specific (matching (Some meth) path) of
        Some r \<Rightarrow> Some r
      | None \<Rightarrow>
          (case if meth = ''HEAD'' then most_specific (matching (Some ''GET'') path) else None of
             Some r \<Rightarrow> Some r
           | None \<Rightarrow> most_specific (matching None path)))"

fun wildcard :: "seg list \<Rightarrow> string list \<Rightarrow> string" where
  "wildcard (Wild n # segs) (s # path) = s"
| "wildcard (Lit l # segs) (s # path) = wildcard segs path"
| "wildcard _ _ = []"

definition route_handler :: "'s ApiEnv \<Rightarrow> route \<Rightarrow> string list \<Rightarrow> 's HandlerFunc" where
  "route_handler ap rt path =
     Chain ((if rt_logged rt then [WithIncomingRequestLogging (ap_uuid ap)] else []) @
            (if rt_auth rt then [token_middleware (ap_auth ap)] else []))
       (run_handler ap (rt_handler rt) (wildcard (rt_segs rt) path))"

definition ServeHTTP :: "'s ApiEnv \<Rightarrow> 's HandlerFunc" where
  "ServeHTTP ap = (\<lambda>r m.
     (case find_route (hq_Method r) (hq_Path r) of
        Some rt \<Rightarrow> route_handler ap rt (hq_Path r) r m
      | None \<Rightarrow> Ok (if \<exists>rt \<in> set api. list_all2 seg_matches (rt_segs rt) (hq_Path r) then 405 else 404, m)))"

text \<open>The token manager that \<^verbatim>\<open>main\<close> sets up, dropping the error.\<close>

definition main_tokens :: "signer \<Rightarrow> int \<Rightarrow> int \<Rightarrow> Config \<Rightarrow> TokenManager option" where
  "main_tokens sign now issued cfg = snd (InitServiceTokenManager sign now issued (User cfg) None)"

section \<open>Properties\<close>

lemma Chain_pair: "Chain [a, b] next = a (b next)" "Chain [a] next = a next"
  by (simp_all add: Chain_def)

lemma routes [simp]:
  "find_route ''POST'' [''spoofs'', ''override''] = Some (api_route ''POST'' [Lit ''spoofs'', Lit ''override''] False HCreateOverride)"
  "find_route ''GET'' [''spoofs''] = Some (api_route ''GET'' [Lit ''spoofs''] True HGetSpoofs)"
  by (simp_all add: find_route_def matching_def api_def api_route_def)

lemma all_logged: "find_route meth path = Some rt \<Longrightarrow> rt_auth rt \<Longrightarrow> rt_logged rt"
proof -
  have "most_specific rs = Some q \<Longrightarrow> q \<in> set rs" for rs q
    by (induction rs arbitrary: q) (auto split: option.splits if_splits)
  moreover assume "find_route meth path = Some rt" "rt_auth rt"
  ultimately have "rt \<in> set api"
    by (auto simp: find_route_def matching_def split: option.splits if_splits) (blast dest: filter_is_subset[THEN subsetD])+
  then show "rt_logged rt" using \<open>rt_auth rt\<close> by (auto simp: api_def api_route_def)
qed

abbreviation identified :: "'s ApiEnv \<Rightarrow> HttpRequest \<Rightarrow> HttpRequest" where
  "identified ap r \<equiv> r\<lparr>hq_id := Some (case ap_uuid ap of None \<Rightarrow> ''N/A'' | Some i \<Rightarrow> i)\<rparr>"

lemma URL_String_id [simp]: "URL_String (r\<lparr>hq_id := i\<rparr>) = URL_String r"
  by (simp add: URL_String_def)

lemma ServeHTTP_open:
  assumes "find_route (hq_Method r) (hq_Path r) = Some rt" "\<not> rt_auth rt" "rt_logged rt"
  shows "ServeHTTP ap r m = run_handler ap (rt_handler rt) (wildcard (rt_segs rt) (hq_Path r)) (identified ap r) m"
  using assms by (simp add: ServeHTTP_def route_handler_def Chain_pair WithIncomingRequestLogging_def)

lemma ServeHTTP_protected:
  assumes "find_route (hq_Method r) (hq_Path r) = Some rt" "rt_auth rt"
  shows "ServeHTTP ap r m =
    bind (WithTokenValidation (ae_parse (ap_auth ap)) (ae_mgrInstance (ap_auth ap)) (ae_now (ap_auth ap)) (hq_Authorization r)
        (hq_Method r) (URL_String r))
      (\<lambda>out. case out of Answered code \<Rightarrow> Ok (code, m)
         | PassedOn \<Rightarrow> run_handler ap (rt_handler rt) (wildcard (rt_segs rt) (hq_Path r)) (identified ap r) m)"
  using assms all_logged[OF assms]
  by (simp add: ServeHTTP_def route_handler_def Chain_pair WithIncomingRequestLogging_def token_middleware_def)

lemma WithTokenValidation_plain:
  assumes "plain_token tok"
  shows "WithTokenValidation parse (Some tm) now (''Bearer '' @ tok) meth url =
    Ok (case Validate_body (parse now) (Some meth) (Some url) (CHR '' '' # tok) of
        Inl e \<Rightarrow> Answered (error_Code e) | Inr _ \<Rightarrow> PassedOn)"
  unfolding WithTokenValidation_def Split_bearer[OF assms] by (simp add: Validate_def split: sum.split)

text \<open>An instance for the witnesses.\<close>

definition demo_api :: "(int \<Rightarrow> string \<Rightarrow> string option) \<Rightarrow> TokenManager option \<Rightarrow> GSLBServiceGroup FileStore ApiEnv" where
  "demo_api parse tm = \<lparr>ap_env = demo_menv, ap_auth = \<lparr>ae_parse = parse, ae_mgrInstance = tm, ae_now = 0\<rparr>,
     ap_digest = (\<lambda>_. []), ap_query = (\<lambda>_. []), ap_uuid = None\<rparr>"

definition api_tm :: TokenManager where
  "api_tm = \<lparr>tm_userClaims = \<lparr>uc_Name = [], uc_AllowedMethods = [], uc_AllowedRoutes = []\<rparr>, tm_expiresAt = 0,
     tm_current = [], tm_renewalBuffer = 0\<rparr>"

definition demo_request :: "string \<Rightarrow> string list \<Rightarrow> string \<Rightarrow> string \<Rightarrow> HttpRequest" where
  "demo_request meth path query auth = \<lparr>hq_Method = meth, hq_Path = path, hq_RawQuery = query, hq_Authorization = auth,
     hq_Override = Some \<lparr>ov_MemberOf = ''example'', ov_IP = ''9.9.9.9''\<rparr>, hq_Failover = None, hq_id = None\<rparr>"

lemma plain_tok: "plain_token ''tok''"
proof -
  have "''tok'' \<noteq> a @ ''Bearer'' @ b" for a b :: string
  proof
    assume "''tok'' = a @ ''Bearer'' @ b"
    then have "length ''tok'' = length (a @ ''Bearer'' @ b)" by (rule arg_cong)
    then show False by simp
  qed
  then show ?thesis by (simp add: plain_token_def)
qed



text \<open>
  The worker cannot page: a request for the list of spoofs with any query is refused with 403, whoever signed the
  token, because the policy of the worker is matched against the URL with its query.
\<close>

theorem worker_query_is_refused:
  assumes "hq_Method r = ''GET''" "hq_Path r = [''spoofs'']" "hq_RawQuery r \<noteq> []"
    and "ae_mgrInstance (ap_auth ap) = Some tm" "hq_Authorization r = ''Bearer '' @ tok" "plain_token tok"
    and "ae_parse (ap_auth ap) (ae_now (ap_auth ap)) tok = Some ''DNSDIST-WORKER''"
  shows "ServeHTTP ap r m = Ok (403, m)"
proof -
  have url: "URL_String r = ''/spoofs?'' @ hq_RawQuery r" using assms(2,3) by (simp add: URL_String_def)
  have "Validate_body (ae_parse (ap_auth ap) (ae_now (ap_auth ap))) (Some ''GET'') (Some (''/spoofs?'' @ hq_RawQuery r)) (CHR '' '' # tok)
      = Inl ErrForbidden"
    by (simp add: Validate_body_def Trim_plain[OF assms(6)] assms(7) getUserClaims_cases MatchString_word route_defs
        del: MatchString.simps word_rx.simps)
  moreover have "find_route (hq_Method r) (hq_Path r) = Some (api_route ''GET'' [Lit ''spoofs''] True HGetSpoofs)"
    using assms(1,2) by simp
  ultimately show ?thesis
    by (simp add: ServeHTTP_protected api_route_def assms(1,4,5) WithTokenValidation_plain[OF assms(6)] url del: append_Cons)
qed

theorem worker_query_is_refused_witness:
  "ServeHTTP (demo_api (\<lambda>_ _. Some ''DNSDIST-WORKER'') (Some api_tm)) (demo_request ''GET'' [''spoofs''] ''page=2'' ''Bearer tok'') demo_manager
    = Ok (403, demo_manager)"
  by (rule worker_query_is_refused[of _ _ api_tm "''tok''"]) (simp_all add: demo_request_def demo_api_def plain_tok)



text \<open>
  A secret file that ends with a newline disables the API: no registered name contains one, so the token manager
  is never made, and every request with a bearer token to a protected route panics.
\<close>

theorem newline_in_secret_disables_api:
  assumes "newConfig (secret_files (name @ [CHR 0x0A])) = Some cfg"
    and "ae_mgrInstance (ap_auth ap) = main_tokens sign now issued cfg"
    and "find_route (hq_Method r) (hq_Path r) = Some rt" "rt_auth rt" "hq_Authorization r = ''Bearer '' @ tok" "plain_token tok"
  shows "ServeHTTP ap r m = Panic NilDeref"
proof -
  let ?user = "name @ [CHR 0x0A]"
  have "\<forall>file \<in> set [''secrets/JWT_USER'']. not_json file" using secret_files_loader(2) by simp
  from newConfig_eq[OF secret_files_loader(1) this, of ?user] assms(1)
  have "User cfg = resolve (secret_files ?user) [''secrets/JWT_USER''] ''JWT_USER'' []"
    using get_string_tables[of cfg "resolve (secret_files ?user) [''secrets/JWT_USER'']"] by (simp split: if_splits)
  then have "User cfg = ?user" by (simp add: secret_files_resolve)
  moreover have "getUserClaims ?user = None"
  proof (rule ccontr)
    assume "getUserClaims ?user \<noteq> None"
    then have "?user \<in> {''ADMIN'', ''DNSDIST-WORKER'', ''OVERRIDER'', ''GSLB-OPERATOR''}"
      by (auto simp: getUserClaims_cases split: if_splits)
    then have "List.last ?user \<in> List.last ` {''ADMIN'', ''DNSDIST-WORKER'', ''OVERRIDER'', ''GSLB-OPERATOR''}" by blast
    then show False by simp
  qed
  ultimately have "ae_mgrInstance (ap_auth ap) = None"
    using assms(2) by (simp add: main_tokens_def InitServiceTokenManager_def)
  then show ?thesis
    unfolding ServeHTTP_protected[OF assms(3,4)] assms(5) WithTokenValidation_def Split_bearer[OF assms(6)]
    by (simp add: Validate_def)
qed

theorem newline_in_secret_disables_api_witness:
  "ServeHTTP (demo_api (\<lambda>_ _. Some ''ADMIN'')
      (main_tokens unary_sign 0 0 (the (newConfig (secret_files (''GSLB-OPERATOR'' @ [CHR 0x0A]))))))
    (demo_request ''GET'' [''spoofs''] [] ''Bearer tok'') demo_manager = Panic NilDeref"
proof -
  have "\<forall>file \<in> set [''secrets/JWT_USER'']. not_json file" using secret_files_loader(2) by simp
  from newConfig_eq[OF secret_files_loader(1) this]
  have "newConfig (secret_files (''GSLB-OPERATOR'' @ [CHR 0x0A])) = Some (the (newConfig (secret_files (''GSLB-OPERATOR'' @ [CHR 0x0A]))))"
    by (simp add: secret_files_resolve)
  from newline_in_secret_disables_api[OF this, where tok = "''tok''" and sign = unary_sign and now = 0 and issued = 0
      and r = "demo_request ''GET'' [''spoofs''] [] ''Bearer tok''" and rt = "api_route ''GET'' [Lit ''spoofs''] True HGetSpoofs"
      and ap = "demo_api (\<lambda>_ _. Some ''ADMIN'')
        (main_tokens unary_sign 0 0 (the (newConfig (secret_files (''GSLB-OPERATOR'' @ [CHR 0x0A])))))" and m = demo_manager]
  show ?thesis by (simp add: demo_request_def demo_api_def api_route_def plain_tok)
qed

end
