(* ===== verification/Polling.thy ===== *)
theory Polling
  imports DnsHandler Config DurationText
begin

text \<open>
  \<^verbatim>\<open>internal/dns/zone-fetcher.go\<close> and the wiring of \<^verbatim>\<open>internal/dns/handler.go\<close>: the goroutine that polls
  the zone, the channels to the handler, and what \<^verbatim>\<open>Start\<close> and \<^verbatim>\<open>Stop\<close> do to them. The steps interleave
  the poller, the handler, finished health checks and the shutdown. \<open>server n\<close> is what the name server does in
  the \<open>n\<close>-th transfer: \<open>None\<close> if it cannot be started, else the events of its channel in order.
\<close>

section \<open>The fetcher\<close>

record ZoneFetcher =
  zf_Zone :: string
  zf_Server :: string
  zf_interval :: Duration
  zf_timeout :: Duration

definition DEFAULT_POLL_INTERVAL :: Duration where "DEFAULT_POLL_INTERVAL = 300 * Second"

definition PollInterval :: "Config \<Rightarrow> Duration option" where
  "PollInterval cfg = FromString (poll_interval_text cfg)"

datatype fetcherOption = WithZone string | WithServer string | WithFetchInterval Duration | WithTimeout Duration

fun fetcher_option :: "fetcherOption \<Rightarrow> ZoneFetcher \<Rightarrow> ZoneFetcher" where
  "fetcher_option (WithZone z) f = f\<lparr>zf_Zone := z\<rparr>"
| "fetcher_option (WithServer s) f = f\<lparr>zf_Server := s\<rparr>"
| "fetcher_option (WithFetchInterval d) f = f\<lparr>zf_interval := d\<rparr>"
| "fetcher_option (WithTimeout d) f = f\<lparr>zf_timeout := d\<rparr>"

definition NewZoneFetcherWithAutoPoll :: "Config \<Rightarrow> fetcherOption list \<Rightarrow> ZoneFetcher" where
  "NewZoneFetcherWithAutoPoll cfg opts =
     fold fetcher_option opts
       \<lparr>zf_Zone = Zone_name cfg, zf_Server = NameServer cfg,
        zf_interval = (case PollInterval cfg of None \<Rightarrow> DEFAULT_POLL_INTERVAL | Some d \<Rightarrow> d),
        zf_timeout = 5 * Second\<rparr>"

section \<open>State\<close>

text \<open>
  Where the goroutine is: about to call \<^verbatim>\<open>AXFRTransfer\<close>, in \<^verbatim>\<open>TransferIn\<close>, sending the error of a transfer
  that did not start, collecting records (with the events the server has still to send; none on the nil
  channel after such an error), sending the records, sending an error of the server, waiting for the ticker, or
  closing the channels.
\<close>

datatype fetch_pc = Begin | Dialling | ReportStart | Collecting "RR list" "transfer_event list" |
  Publishing "RR list" | ReportEnvelope | Waiting | CloseErrors | CloseZone | Finished

datatype shutdown_pc = Serving | Cancelled | StopClosed | ManagerStopped

record 's Poll =
  po_transfers :: nat
  po_fetch :: fetch_pc
  po_tick :: bool
  po_zone :: "RR list list"
  po_zoneClosed :: bool
  po_errorsClosed :: bool
  po_shutdown :: shutdown_pc
  po_busy :: "RR list option"
  po_handler :: Handler
  po_manager :: "'s Manager"
  po_published :: "(nat \<times> RR list) list"
  po_trace :: "operator_event list"

text \<open>The context is cancelled first, then the stop channel is closed.\<close>

definition ctx_done :: "'s Poll \<Rightarrow> bool" where
  "ctx_done p \<longleftrightarrow> po_shutdown p \<noteq> Serving"

definition reporting :: "fetch_pc \<Rightarrow> bool" where
  "reporting pc \<longleftrightarrow> pc = ReportStart \<or> pc = ReportEnvelope"

text \<open>\<^verbatim>\<open>time.NewTicker\<close> panics on an interval that is not positive; the pool is running by then.\<close>

definition handler_Start :: "ZoneFetcher \<Rightarrow> 's Manager \<Rightarrow> 's Poll res" where
  "handler_Start f m =
     (if zf_interval f \<le> 0 then Panic NonPositiveInterval
      else Ok \<lparr>po_transfers = 0, po_fetch = Begin, po_tick = False, po_zone = [], po_zoneClosed = False,
        po_errorsClosed = False, po_shutdown = Serving, po_busy = None, po_handler = NewHandler,
        po_manager = start_manager m,
        po_published = [], po_trace = []\<rparr>)"

text \<open>An event for the handler's loop.\<close>

definition handled :: "zone_event \<Rightarrow> Handler \<times> 's Manager \<Rightarrow> 's Poll \<Rightarrow> 's Poll" where
  "handled ev hm p = p\<lparr>po_handler := fst hm, po_manager := snd hm, po_trace := po_trace p @ [Zone ev]\<rparr>"

definition listening :: "'s Poll \<Rightarrow> bool" where
  "listening p \<longleftrightarrow> h_running (po_handler p) \<and> po_busy p = None"

section \<open>Steps\<close>

inductive poll_step :: "'s MEnv \<Rightarrow> decoder \<Rightarrow> (nat \<Rightarrow> transfer_event list option) \<Rightarrow> 's Poll \<Rightarrow> 's Poll \<Rightarrow> bool"
  for env decode server where
  tick: "po_fetch p \<notin> {CloseErrors, CloseZone, Finished} \<Longrightarrow> poll_step env decode server p (p\<lparr>po_tick := True\<rparr>)"
| begin_cancelled: "po_fetch p = Begin \<Longrightarrow> ctx_done p \<Longrightarrow> poll_step env decode server p (p\<lparr>po_fetch := Waiting\<rparr>)"
| begin_transfer: "po_fetch p = Begin \<Longrightarrow> \<not> ctx_done p \<Longrightarrow> poll_step env decode server p (p\<lparr>po_fetch := Dialling\<rparr>)"
| dial: "po_fetch p = Dialling \<Longrightarrow> server (po_transfers p) = Some evs \<Longrightarrow>
    poll_step env decode server p (p\<lparr>po_fetch := Collecting [] evs, po_transfers := Suc (po_transfers p)\<rparr>)"
| dial_fails: "po_fetch p = Dialling \<Longrightarrow> server (po_transfers p) = None \<or> ctx_done p \<Longrightarrow>
    poll_step env decode server p (p\<lparr>po_fetch := ReportStart, po_transfers := Suc (po_transfers p)\<rparr>)"
| cancelled: "po_fetch p = Collecting records evs \<Longrightarrow> ctx_done p \<Longrightarrow>
    poll_step env decode server p (p\<lparr>po_fetch := Waiting\<rparr>)"
| timed_out: "po_fetch p = Collecting records evs \<Longrightarrow> poll_step env decode server p (p\<lparr>po_fetch := Waiting\<rparr>)"
| envelope: "po_fetch p = Collecting records (Envelope answer # evs) \<Longrightarrow>
    poll_step env decode server p (p\<lparr>po_fetch := Collecting (records @ answer) evs\<rparr>)"
| envelope_error: "po_fetch p = Collecting records (EnvelopeError # evs) \<Longrightarrow>
    poll_step env decode server p (p\<lparr>po_fetch := ReportEnvelope\<rparr>)"
| transferred: "po_fetch p = Collecting records (TransferDone # evs) \<Longrightarrow>
    poll_step env decode server p (p\<lparr>po_fetch := Publishing records\<rparr>)"
| publish_cancelled: "po_fetch p = Publishing records \<Longrightarrow> ctx_done p \<Longrightarrow>
    poll_step env decode server p (p\<lparr>po_fetch := Waiting\<rparr>)"
| publish_timed_out: "po_fetch p = Publishing records \<Longrightarrow> poll_step env decode server p (p\<lparr>po_fetch := Waiting\<rparr>)"
| publish: "po_fetch p = Publishing records \<Longrightarrow> po_zone p = [] \<Longrightarrow>
    poll_step env decode server p (p\<lparr>po_fetch := Waiting, po_zone := [records],
      po_published := po_published p @ [(po_transfers p - 1, records)]\<rparr>)"
| poll: "po_fetch p = Waiting \<Longrightarrow> po_tick p \<Longrightarrow>
    poll_step env decode server p (p\<lparr>po_fetch := Begin, po_tick := False\<rparr>)"
| poll_ends: "po_fetch p = Waiting \<Longrightarrow> ctx_done p \<Longrightarrow> poll_step env decode server p (p\<lparr>po_fetch := CloseErrors\<rparr>)"
| close_errors: "po_fetch p = CloseErrors \<Longrightarrow>
    poll_step env decode server p (p\<lparr>po_fetch := CloseZone, po_errorsClosed := True\<rparr>)"
| close_zone: "po_fetch p = CloseZone \<Longrightarrow>
    poll_step env decode server p (p\<lparr>po_fetch := Finished, po_zoneClosed := True\<rparr>)"
| take_zone: "listening p \<Longrightarrow> po_zone p = records # zs \<Longrightarrow>
    poll_step env decode server p (p\<lparr>po_zone := zs, po_busy := Some records\<rparr>)"
| handle: "po_busy p = Some records \<Longrightarrow>
    handleZoneUpdates env decode (Records records) (po_handler p) (po_manager p) = Ok hm \<Longrightarrow>
    poll_step env decode server p (handled (Records records) hm (p\<lparr>po_busy := None\<rparr>))"
| take_error: "listening p \<Longrightarrow> reporting (po_fetch p) \<Longrightarrow>
    handleZoneUpdates env decode PollError (po_handler p) (po_manager p) = Ok hm \<Longrightarrow>
    poll_step env decode server p (handled PollError hm
      (p\<lparr>po_fetch := (if po_fetch p = ReportStart then Collecting [] [] else Waiting)\<rparr>))"
| zone_closed: "listening p \<Longrightarrow> po_zone p = [] \<Longrightarrow> po_zoneClosed p \<Longrightarrow>
    handleZoneUpdates env decode ZoneClosed (po_handler p) (po_manager p) = Ok hm \<Longrightarrow>
    poll_step env decode server p (handled ZoneClosed hm p)"
| errors_closed: "listening p \<Longrightarrow> po_errorsClosed p \<Longrightarrow>
    handleZoneUpdates env decode ErrorsClosed (po_handler p) (po_manager p) = Ok hm \<Longrightarrow>
    poll_step env decode server p (handled ErrorsClosed hm p)"
| stop_signal: "listening p \<Longrightarrow> po_shutdown p = StopClosed \<Longrightarrow>
    handleZoneUpdates env decode StopSignal (po_handler p) (po_manager p) = Ok hm \<Longrightarrow>
    poll_step env decode server p (handled StopSignal hm p)"
| check: "po_shutdown p \<noteq> ManagerStopped \<Longrightarrow> checkDone env svc ok (po_manager p) = Ok m \<Longrightarrow>
    poll_step env decode server p (p\<lparr>po_manager := m, po_trace := po_trace p @ [CheckDone svc ok]\<rparr>)"
| stop_cancel: "po_shutdown p = Serving \<Longrightarrow> poll_step env decode server p (p\<lparr>po_shutdown := Cancelled\<rparr>)"
| stop_close: "po_shutdown p = Cancelled \<Longrightarrow> poll_step env decode server p (p\<lparr>po_shutdown := StopClosed\<rparr>)"
| stop_manager: "po_shutdown p = StopClosed \<Longrightarrow> \<not> h_running (po_handler p) \<Longrightarrow> manager_Stop env (po_manager p) = Ok m \<Longrightarrow>
    poll_step env decode server p (p\<lparr>po_shutdown := ManagerStopped, po_manager := m\<rparr>)"


text \<open>The zones the handler was given.\<close>

fun zones_of :: "operator_event list \<Rightarrow> RR list list" where
  "zones_of [] = []"
| "zones_of (Zone (Records rs) # evs) = rs # zones_of evs"
| "zones_of (_ # evs) = zones_of evs"

lemma zones_of_append [simp]: "zones_of (xs @ ys) = zones_of xs @ zones_of ys"
  by (induction xs rule: zones_of.induct) simp_all

definition published_by :: "(nat \<Rightarrow> transfer_event list option) \<Rightarrow> nat \<times> RR list \<Rightarrow> bool" where
  "published_by server = (\<lambda>(n, zone). \<exists>evs. server n = Some evs \<and>
     AXFRTransfer False True Taken evs = Some \<lparr>tr_published = Some zone, tr_errors = 0\<rparr>)"

text \<open>What is known of the transfer under way, and how many transfers are over.\<close>

fun transfer_inv :: "(nat \<Rightarrow> transfer_event list option) \<Rightarrow> nat \<Rightarrow> fetch_pc \<Rightarrow> bool" where
  "transfer_inv server n (Collecting records evs) \<longleftrightarrow> n \<noteq> 0 \<and>
     (evs = [] \<or> (\<exists>s. server (n - 1) = Some s \<and> transfer_loop Taken s [] 0 = transfer_loop Taken evs records 0))"
| "transfer_inv server n (Publishing records) \<longleftrightarrow> n \<noteq> 0 \<and> published_by server (n - 1, records)"
| "transfer_inv server n ReportStart \<longleftrightarrow> n \<noteq> 0"
| "transfer_inv server n _ \<longleftrightarrow> True"

fun transfers_over :: "nat \<Rightarrow> fetch_pc \<Rightarrow> nat" where
  "transfers_over n (Collecting records evs) = n - 1"
| "transfers_over n (Publishing records) = n - 1"
| "transfers_over n ReportStart = n - 1"
| "transfers_over n _ = n"

definition published_inv :: "(nat \<Rightarrow> transfer_event list option) \<Rightarrow> 's Poll \<Rightarrow> bool" where
  "published_inv server p \<longleftrightarrow>
     transfer_inv server (po_transfers p) (po_fetch p) \<and> list_all (published_by server) (po_published p) \<and>
     sorted_wrt (<) (map fst (po_published p)) \<and>
     list_all (\<lambda>x. fst x < transfers_over (po_transfers p) (po_fetch p)) (po_published p)"

definition channel_inv :: "'s Poll \<Rightarrow> bool" where
  "channel_inv p \<longleftrightarrow>
     map snd (po_published p) = zones_of (po_trace p) @ (case po_busy p of None \<Rightarrow> [] | Some z \<Rightarrow> [z]) @ po_zone p \<and>
     length (po_zone p) \<le> 1 \<and> (po_busy p \<noteq> None \<longrightarrow> h_running (po_handler p))"

lemma published_inv_step:
  "poll_step env decode server p p' \<Longrightarrow> published_inv server p \<Longrightarrow> published_inv server p'"
proof (induction rule: poll_step.induct)
  case (dial p evs)
  then show ?case by (cases evs) (auto simp: published_inv_def)
next
  case (publish p records)
  then show ?case by (auto simp: published_inv_def sorted_wrt_append list_all_iff)
next
  case (transferred p records evs)
  then show ?case by (auto simp: published_inv_def published_by_def AXFRTransfer_def)
next
  case (take_error p hm)
  then show ?case by (auto simp: published_inv_def handled_def reporting_def)
qed (auto simp: published_inv_def handled_def list_all_iff intro: less_SucI)


lemma handled_running:
  "handleZoneUpdates env decode ev h m = Ok hm \<Longrightarrow> h_running h \<Longrightarrow>
    (h_running (fst hm) \<longleftrightarrow> (\<exists>rs. ev = Records rs) \<or> ev = PollError)"
  by (cases ev) (auto simp: handleZoneUpdates_def bind_eq_Ok)

lemma channel_inv_step:
  "poll_step env decode server p p' \<Longrightarrow> channel_inv p \<Longrightarrow> channel_inv p'"
proof (induction rule: poll_step.induct)
  case (take_zone p records zs)
  then show ?case by (auto simp: channel_inv_def listening_def)
next
  case (handle p records hm)
  then show ?case by (auto simp: channel_inv_def handled_def)
next
  case (take_error p hm)
  then show ?case by (auto simp: channel_inv_def handled_def listening_def)
next
  case (zone_closed p hm)
  then show ?case by (auto simp: channel_inv_def handled_def listening_def)
next
  case (errors_closed p hm)
  then show ?case by (auto simp: channel_inv_def handled_def listening_def)
next
  case (stop_signal p hm)
  then show ?case by (auto simp: channel_inv_def handled_def listening_def)
qed (auto simp: channel_inv_def)

text \<open>The handler and the manager are where the events so far lead, until the manager is stopped.\<close>

definition run_inv :: "'s MEnv \<Rightarrow> decoder \<Rightarrow> 's Manager \<Rightarrow> 's Poll \<Rightarrow> bool" where
  "run_inv env decode m0 p \<longleftrightarrow>
     (if po_shutdown p = ManagerStopped
      then \<not> h_running (po_handler p) \<and> po_busy p = None
      else operator_run env decode (po_trace p) NewHandler m0 = Ok (po_handler p, po_manager p))"

lemma run_handled:
  assumes "handleZoneUpdates env decode ev (po_handler p) (po_manager p) = Ok hm" "run_inv env decode m0 p"
    "po_shutdown p \<noteq> ManagerStopped" "po_shutdown q = po_shutdown p" "po_trace q = po_trace p"
  shows "run_inv env decode m0 (handled ev hm q)"
  using assms by (cases hm) (simp add: run_inv_def handled_def operator_run_append)

lemma run_inv_step:
  "poll_step env decode server p p' \<Longrightarrow> run_inv env decode m0 p \<Longrightarrow> channel_inv p \<Longrightarrow> run_inv env decode m0 p'"
proof (induction rule: poll_step.induct)
  case (check p svc ok m)
  then show ?case by (simp add: run_inv_def operator_run_append)
next
  case (take_zone p records zs)
  then show ?case by (auto simp: run_inv_def listening_def)
next
  case (handle p records hm)
  then have "po_shutdown p \<noteq> ManagerStopped" by (auto simp: run_inv_def)
  then show ?case using handle by (intro run_handled[of env decode _ p]) auto
next
  case (stop_manager p m)
  then show ?case by (auto simp: run_inv_def channel_inv_def)
next
  case (take_error p hm)
  then show ?case by (intro run_handled[of env decode _ p]) (auto simp: run_inv_def listening_def split: if_splits)
next
  case (zone_closed p hm)
  then show ?case by (intro run_handled[of env decode _ p]) (auto simp: run_inv_def listening_def split: if_splits)
next
  case (errors_closed p hm)
  then show ?case by (intro run_handled[of env decode _ p]) (auto simp: run_inv_def listening_def split: if_splits)
next
  case (stop_signal p hm)
  then show ?case by (intro run_handled[of env decode _ p]) (auto simp: run_inv_def listening_def split: if_splits)
qed (auto simp: run_inv_def)

abbreviation poll_steps :: "'s MEnv \<Rightarrow> decoder \<Rightarrow> (nat \<Rightarrow> transfer_event list option) \<Rightarrow> 's Poll \<Rightarrow> 's Poll \<Rightarrow> bool" where
  "poll_steps env decode server \<equiv> (poll_step env decode server)\<^sup>*\<^sup>*"

lemma handler_Start_inv:
  assumes "handler_Start f m0 = Ok p0"
  shows "published_inv server p0" "channel_inv p0" "run_inv env decode (start_manager m0) p0"
  using assms
  by (auto simp: handler_Start_def published_inv_def channel_inv_def run_inv_def split: if_splits)

lemma poll_steps_inv:
  assumes "poll_steps env decode server p0 p" "handler_Start f m0 = Ok p0"
  shows "published_inv server p \<and> channel_inv p \<and> run_inv env decode (start_manager m0) p"
  using assms(1)
proof (induction rule: rtranclp_induct)
  case base
  show ?case using handler_Start_inv[OF assms(2)] by blast
next
  case (step p p')
  then show ?case using published_inv_step channel_inv_step run_inv_step by blast
qed



section \<open>Shutdown\<close>

definition finishes :: "'s MEnv \<Rightarrow> decoder \<Rightarrow> (nat \<Rightarrow> transfer_event list option) \<Rightarrow> 's Poll \<Rightarrow> bool" where
  "finishes env decode server p \<longleftrightarrow> (\<exists>p'. poll_steps env decode server p p' \<and> po_fetch p' = Finished)"

lemma poll_into:
  "poll_step env decode server p q \<Longrightarrow> poll_steps env decode server q r \<Longrightarrow> poll_steps env decode server p r"
  by (rule converse_rtranclp_into_rtranclp)

lemma finishes_step: "poll_step env decode server p q \<Longrightarrow> finishes env decode server q \<Longrightarrow> finishes env decode server p"
  unfolding finishes_def by (meson converse_rtranclp_into_rtranclp)

lemma finishes_closing:
  "po_fetch p = Finished \<Longrightarrow> finishes env decode server p"
  "po_fetch p = CloseZone \<Longrightarrow> finishes env decode server p"
  "po_fetch p = CloseErrors \<Longrightarrow> finishes env decode server p"
proof -
  have 0: "po_fetch p = Finished \<Longrightarrow> finishes env decode server p" for p by (auto simp: finishes_def)
  have 1: "po_fetch p = CloseZone \<Longrightarrow> finishes env decode server p" for p
    by (rule finishes_step[OF close_zone]) (auto intro: 0)
  have 2: "po_fetch p = CloseErrors \<Longrightarrow> finishes env decode server p" for p
    by (rule finishes_step[OF close_errors]) (auto intro: 1)
  show "po_fetch p = Finished \<Longrightarrow> finishes env decode server p"
    "po_fetch p = CloseZone \<Longrightarrow> finishes env decode server p"
    "po_fetch p = CloseErrors \<Longrightarrow> finishes env decode server p" by (fact 0 1 2)+
qed

lemma finishes_waiting: "po_fetch p = Waiting \<Longrightarrow> ctx_done p \<Longrightarrow> finishes env decode server p"
  by (rule finishes_step[OF poll_ends]) (auto intro: finishes_closing)

lemma finishes_collecting: "po_fetch p = Collecting records evs \<Longrightarrow> ctx_done p \<Longrightarrow> finishes env decode server p"
  by (rule finishes_step[OF cancelled]) (auto intro: finishes_waiting simp: ctx_done_def)

text \<open>An error that somebody takes, or that has to be sent once the context is cancelled.\<close>

definition will_report :: "(nat \<Rightarrow> transfer_event list option) \<Rightarrow> 's Poll \<Rightarrow> bool" where
  "will_report server p \<longleftrightarrow>
     reporting (po_fetch p) \<or> po_fetch p = Dialling \<and> server (po_transfers p) = None"

lemma finishes_reporting:
  assumes "reporting (po_fetch p)" "ctx_done p" "listening p"
  shows "finishes env decode server p"
proof -
  have "handleZoneUpdates env decode PollError (po_handler p) (po_manager p) = Ok (po_handler p, po_manager p)"
    by (simp add: handleZoneUpdates_def)
  from take_error[OF assms(3,1) this] show ?thesis
    by (rule finishes_step)
      (use assms in \<open>auto simp: handled_def reporting_def ctx_done_def intro: finishes_collecting finishes_waiting\<close>)
qed

lemma finishes_unless_unheard:
  assumes "ctx_done p" "will_report server p \<Longrightarrow> listening p"
  shows "finishes env decode server p"
proof (cases "po_fetch p")
  case Begin
  show ?thesis by (rule finishes_step[OF begin_cancelled[OF Begin assms(1)]])
    (use assms in \<open>auto intro: finishes_waiting simp: ctx_done_def\<close>)
next
  case Dialling
  show ?thesis
  proof (cases "server (po_transfers p)")
    case None
    then have "listening p" using assms(2) Dialling by (simp add: will_report_def)
    with assms(1) have "finishes env decode server (p\<lparr>po_fetch := ReportStart, po_transfers := Suc (po_transfers p)\<rparr>)"
      by (intro finishes_reporting) (simp_all add: reporting_def ctx_done_def listening_def)
    moreover have "server (po_transfers p) = None \<or> ctx_done p" using None by simp
    ultimately show ?thesis by (metis dial_fails Dialling finishes_step)
  next
    case (Some evs)
    have "finishes env decode server (p\<lparr>po_fetch := Collecting [] evs, po_transfers := Suc (po_transfers p)\<rparr>)"
      by (rule finishes_collecting[of _ "[]" evs]) (use assms(1) in \<open>simp_all add: ctx_done_def\<close>)
    then show ?thesis by (rule finishes_step[OF dial[where server = server, OF Dialling Some]])
  qed
next
  case (Publishing records)
  show ?thesis by (rule finishes_step[OF publish_cancelled[OF Publishing assms(1)]])
    (use assms in \<open>auto intro: finishes_waiting simp: ctx_done_def\<close>)
next
  case ReportStart
  then show ?thesis using assms by (auto intro: finishes_reporting simp: reporting_def will_report_def)
next
  case ReportEnvelope
  then show ?thesis using assms by (auto intro: finishes_reporting simp: reporting_def will_report_def)
qed (use assms(1) in \<open>blast intro: finishes_closing finishes_waiting finishes_collecting\<close>)+

lemma unheard_step:
  "poll_step env decode server p p' \<Longrightarrow> will_report server p \<and> \<not> h_running (po_handler p) \<and> po_busy p = None \<Longrightarrow>
    will_report server p' \<and> \<not> h_running (po_handler p') \<and> po_busy p' = None \<and>
    po_zoneClosed p' = po_zoneClosed p \<and> po_errorsClosed p' = po_errorsClosed p"
  by (induction rule: poll_step.induct) (auto simp: will_report_def reporting_def listening_def)

lemma unheard_steps:
  "poll_steps env decode server p p' \<Longrightarrow> will_report server p \<and> \<not> h_running (po_handler p) \<and> po_busy p = None \<Longrightarrow>
    will_report server p' \<and> \<not> h_running (po_handler p') \<and> po_busy p' = None \<and>
    po_zoneClosed p' = po_zoneClosed p \<and> po_errorsClosed p' = po_errorsClosed p"
proof (induction rule: rtranclp_induct)
  case (step y z)
  then show ?case using unheard_step[OF step.hyps(2)] by simp
qed simp


text \<open>
  A shutdown can leave the poller behind: whatever the server does, when the context is cancelled while a
  transfer is being started, the error of that transfer may find that the handler has stopped; then the channels
  are never closed, and the goroutine never ends.
\<close>

theorem shutdown_leaves_poller_behind:
  assumes "handler_Start f m0 = Ok p0"
  shows "\<exists>p. poll_steps env decode server p0 p \<and> po_shutdown p = StopClosed \<and>
    {p'. poll_steps env decode server p p'} \<subseteq>
      {p'. will_report server p' \<and> \<not> h_running (po_handler p') \<and> \<not> po_zoneClosed p' \<and> \<not> po_errorsClosed p'}"
proof -
  let ?P = "poll_step env decode server"
  have p0: "po_fetch p0 = Begin" "po_shutdown p0 = Serving" "po_busy p0 = None" "h_running (po_handler p0)"
    "\<not> po_zoneClosed p0" "\<not> po_errorsClosed p0"
    using assms by (auto simp: handler_Start_def NewHandler_def split: if_splits)
  let ?p1 = "p0\<lparr>po_fetch := Dialling\<rparr>" let ?p2 = "?p1\<lparr>po_shutdown := Cancelled\<rparr>"
  let ?p3 = "?p2\<lparr>po_fetch := ReportStart, po_transfers := Suc (po_transfers ?p2)\<rparr>"
  let ?p4 = "?p3\<lparr>po_shutdown := StopClosed\<rparr>"
  let ?hm = "(po_handler p0\<lparr>h_running := False\<rparr>, po_manager p0)"
  have s1: "?P p0 ?p1" using p0 by (intro begin_transfer) (simp_all add: ctx_done_def)
  have s2: "?P ?p1 ?p2" using p0 by (intro stop_cancel) simp
  have s3: "?P ?p2 ?p3" by (rule dial_fails) (simp_all add: ctx_done_def)
  have s4: "?P ?p3 ?p4" by (rule stop_close) simp
  have s5: "?P ?p4 (handled StopSignal ?hm ?p4)"
    using p0 by (intro stop_signal) (simp_all add: listening_def handleZoneUpdates_def)
  have "poll_steps env decode server p0 (handled StopSignal ?hm ?p4)"
    by (rule poll_into[OF s1 poll_into[OF s2 poll_into[OF s3 poll_into[OF s4 poll_into[OF s5 rtranclp.rtrancl_refl]]]]])
  moreover have "will_report server (handled StopSignal ?hm ?p4)" "\<not> h_running (po_handler (handled StopSignal ?hm ?p4))"
    "po_busy (handled StopSignal ?hm ?p4) = None" "po_shutdown (handled StopSignal ?hm ?p4) = StopClosed"
    "\<not> po_zoneClosed (handled StopSignal ?hm ?p4)" "\<not> po_errorsClosed (handled StopSignal ?hm ?p4)"
    using p0 by (simp_all add: handled_def will_report_def reporting_def)
  ultimately show ?thesis using unheard_steps[of env decode server "handled StopSignal ?hm ?p4"] by blast
qed

text \<open>A name server with one zone, and the way of this zone to the handler.\<close>

definition one_zone :: "RR list" where
  "one_zone = [TXT ''example'' [''{}''], OtherRR]"

definition one_transfer :: "nat \<Rightarrow> transfer_event list option" where
  "one_transfer n = (if n = 0 then Some [Envelope one_zone, TransferDone] else None)"

definition demo_fetcher :: ZoneFetcher where
  "demo_fetcher = \<lparr>zf_Zone = ''gslb'', zf_Server = ''ns'', zf_interval = 60 * Second, zf_timeout = 5 * Second\<rparr>"

lemma zone_is_polled:
  assumes "handler_Start f m0 = Ok p0" "handleZoneUpdates env decode (Records one_zone) NewHandler (start_manager m0) = Ok hm"
  obtains p where "poll_steps env decode one_transfer p0 p" "po_shutdown p = Serving"
    "po_trace p = [Zone (Records one_zone)]" "po_published p = [(0, one_zone)]"
proof -
  let ?P = "poll_step env decode one_transfer"
  have p0: "po_fetch p0 = Begin" "po_shutdown p0 = Serving" "po_busy p0 = None" "po_handler p0 = NewHandler"
    "po_transfers p0 = 0" "po_zone p0 = []" "po_manager p0 = start_manager m0" "po_trace p0 = []" "po_published p0 = []"
    using assms by (auto simp: handler_Start_def split: if_splits)
  let ?p1 = "p0\<lparr>po_fetch := Dialling\<rparr>"
  let ?p2 = "?p1\<lparr>po_fetch := Collecting [] [Envelope one_zone, TransferDone], po_transfers := Suc (po_transfers ?p1)\<rparr>"
  let ?p3 = "?p2\<lparr>po_fetch := Collecting ([] @ one_zone) [TransferDone]\<rparr>"
  let ?p4 = "?p3\<lparr>po_fetch := Publishing ([] @ one_zone)\<rparr>"
  let ?p5 = "?p4\<lparr>po_fetch := Waiting, po_zone := [[] @ one_zone],
    po_published := po_published ?p4 @ [(po_transfers ?p4 - 1, [] @ one_zone)]\<rparr>"
  let ?p6 = "?p5\<lparr>po_zone := [], po_busy := Some ([] @ one_zone)\<rparr>"
  let ?p7 = "handled (Records one_zone) hm (?p6\<lparr>po_busy := None\<rparr>)"
  have s1: "?P p0 ?p1" by (rule begin_transfer) (simp_all add: p0 ctx_done_def)
  have s2: "?P ?p1 ?p2" by (rule dial) (simp_all add: p0 one_transfer_def)
  have s3: "?P ?p2 ?p3" by (rule envelope) simp
  have s4: "?P ?p3 ?p4" by (rule transferred) simp
  have s5: "?P ?p4 ?p5" by (rule publish) (simp_all add: p0)
  have s6: "?P ?p5 ?p6" by (rule take_zone) (simp_all add: p0 listening_def NewHandler_def)
  have s7: "?P ?p6 ?p7" by (rule handle) (use assms(2) p0 in simp_all)
  have "poll_steps env decode one_transfer p0 ?p7"
    by (rule poll_into[OF s1 poll_into[OF s2 poll_into[OF s3 poll_into[OF s4 poll_into[OF s5 poll_into[OF s6
            poll_into[OF s7 rtranclp.rtrancl_refl]]]]]]])
  then show thesis by (rule that) (simp_all add: handled_def p0)
qed

lemma demo_batch:
  obtains h m where "handleZoneUpdates demo_menv demo_decode (Records one_zone) NewHandler (start_manager (NewManager False stale_store)) = Ok (h, m)"
    "h_running h"
proof -
  obtain h m where "operator_run demo_menv demo_decode [Zone (Records one_zone)] NewHandler (start_manager (NewManager False stale_store)) = Ok (h, m)"
    "h_running h"
    unfolding one_zone_def by (rule demo_run)
  then show thesis
    using that by (cases "handleZoneUpdates demo_menv demo_decode (Records one_zone) NewHandler (start_manager (NewManager False stale_store))")
      auto
qed

lemma demo_start: "\<exists>p0. handler_Start demo_fetcher m0 = Ok p0"
  by (simp add: handler_Start_def demo_fetcher_def)


theorem shutdown_leaves_poller_behind_witness:
  "\<exists>p0 p. handler_Start demo_fetcher (NewManager False stale_store) = Ok p0 \<and>
    poll_steps demo_menv demo_decode one_transfer p0 p \<and> will_report one_transfer p \<and> \<not> po_errorsClosed p"
proof -
  obtain p0 where p0: "handler_Start demo_fetcher (NewManager False stale_store) = Ok p0" using demo_start by blast
  from shutdown_leaves_poller_behind[OF p0, of demo_menv demo_decode one_transfer] p0 show ?thesis by blast
qed


section \<open>The interval\<close>

text \<open>
  The interval of polling comes from the configuration: when the setting is the text of a duration, the
  poller starts with that interval if it is positive, and the process panics if it is not.
\<close>

theorem configured_interval_is_polled:
  assumes files: "NewFileLoader x [''.env'', ''./secrets''] = Some files" "\<forall>file \<in> set files. not_json file"
    and cfg: "newConfig x = Some cfg"
    and d: "resolve x files ''GSLB_POLL_INTERVAL'' ''1m'' = Duration_String d" "min_int64 \<le> d" "d \<le> max_int64"
  shows "(let f = NewZoneFetcherWithAutoPoll cfg [] in zf_interval f = d \<and> zf_Zone f = resolve x files ''GSLB_ZONE'' [] \<and>
      (is_Ok (handler_Start f m) \<longleftrightarrow> 0 < d) \<and> (handler_Start f m = Panic NonPositiveInterval \<longleftrightarrow> d \<le> 0))"
proof -
  have "cfg = \<lparr>c_server = strings (set_all (resolve x files) server_table), c_api = strings (set_all (resolve x files) api_table),
      c_gslb = strings (set_all (resolve x files) gslb_table), c_jwt = strings (set_all (resolve x files) jwt_table)\<rparr>"
    using newConfig_eq[OF files] cfg by (simp split: if_splits)
  from get_string_tables[OF this] have "poll_interval_text cfg = Duration_String d" "Zone_name cfg = resolve x files ''GSLB_ZONE'' []"
    using d(1) by simp_all
  then show ?thesis
    using ParseDuration_String[OF d(2,3)]
    by (simp add: NewZoneFetcherWithAutoPoll_def PollInterval_def FromString_def handler_Start_def Let_def)
qed

definition interval_env :: "string \<Rightarrow> Ext" where
  "interval_env v = \<lparr>x_env = [''GSLB_POLL_INTERVAL'' \<mapsto> v], x_stat = Map.empty, x_godotenv = (\<lambda>_. None), x_json = (\<lambda>_ d. (False, d))\<rparr>"

theorem configured_interval_is_polled_witness:
  "\<exists>cfg. newConfig (interval_env (Duration_String 0)) = Some cfg \<and>
    handler_Start (NewZoneFetcherWithAutoPoll cfg []) (NewManager False stale_store) = Panic NonPositiveInterval"
proof -
  let ?x = "interval_env (Duration_String 0)"
  have files: "NewFileLoader ?x [''.env'', ''./secrets''] = Some []" by (simp add: interval_env_def)
  then obtain cfg where cfg: "newConfig ?x = Some cfg" using newConfig_eq[OF files] by simp
  have "resolve ?x [] ''GSLB_POLL_INTERVAL'' ''1m'' = Duration_String 0"
    by (simp add: resolve_def over_def interval_env_def Duration_String_def fmt_text_def)
  from configured_interval_is_polled[OF files _ cfg this, of "NewManager False stale_store"] cfg show ?thesis
    by (simp add: Let_def)
qed

end
