(* ===== verification/NetAddr.thy ===== *)
theory NetAddr
  imports Service Decimal
begin

text \<open>
  Go's \<^verbatim>\<open>net\<close> on literal addresses, as far as services and dnsdist servers use it: \<^verbatim>\<open>ParseIP\<close>,
  \<^verbatim>\<open>IP.String\<close> and \<^verbatim>\<open>ResolveTCPAddr\<close>. An address is its eight groups of sixteen bits, the nil address is
  the empty list. Names of ports are looked up by a parameter.
\<close>

section \<open>Reading\<close>

type_synonym IP = "nat list"

text \<open>\<^verbatim>\<open>parseIPv4Fields\<close>: the fs so far, the current field and its number of digits.\<close>

fun v4_fields :: "nat list \<Rightarrow> nat \<Rightarrow> nat \<Rightarrow> string \<Rightarrow> nat list option" where
  "v4_fields fs val digLen [] = (if length fs < 3 then None else Some (fs @ [val]))"
| "v4_fields fs val digLen (c # cs) =
     (if is_decimal c then
        if digLen = 1 \<and> val = 0 then None
        else let val = 10 * val + digit_value c
             in if val > 255 then None else v4_fields fs val (Suc digLen) cs
      else if c = CHR ''.'' then
        if digLen = 0 \<or> cs = [] then None
        else if length fs = 3 then None
        else v4_fields (fs @ [val]) 0 0 cs
      else None)"

definition v4_tail :: "nat list \<Rightarrow> nat list" where
  "v4_tail fs = [256 * fs ! 0 + fs ! 1, 256 * fs ! 2 + fs ! 3]"

definition v4_prefix :: "nat list" where
  "v4_prefix = [0, 0, 0, 0, 0, 0xFFFF]"

definition hex_value :: "char \<Rightarrow> nat option" where
  "hex_value c =
     (if is_decimal c then Some (digit_value c)
      else if CHR ''a'' \<le> c \<and> c \<le> CHR ''f'' then Some (of_char c - 87)
      else if CHR ''A'' \<le> c \<and> c \<le> CHR ''F'' then Some (of_char c - 55)
      else None)"

text \<open>One to four hexadecimal digits and the rest.\<close>

definition hex_group :: "string \<Rightarrow> (nat \<times> string) option" where
  "hex_group s =
     (let ds = takeWhile (\<lambda>c. hex_value c \<noteq> None) s
      in if ds = [] \<or> length ds > 4 then None
         else Some (foldl (\<lambda>n c. 16 * n + the (hex_value c)) 0 ds, dropWhile (\<lambda>c. hex_value c \<noteq> None) s))"

lemma hex_group_shorter: "hex_group s = Some (n, rest) \<Longrightarrow> length rest < length s"
proof -
  assume "hex_group s = Some (n, rest)"
  then have "takeWhile (\<lambda>c. hex_value c \<noteq> None) s \<noteq> []" "rest = dropWhile (\<lambda>c. hex_value c \<noteq> None) s"
    by (auto simp: hex_group_def Let_def split: if_splits)
  then show ?thesis
    by (metis append_eq_conv_conj length_append length_greater_0_conv less_add_same_cancel2 takeWhile_dropWhile_id)
qed

text \<open>The loop of \<^verbatim>\<open>parseIPv6\<close>: the groups so far, the position of the ellipsis, and what is left of the text.\<close>

function v6_groups :: "nat list \<Rightarrow> nat option \<Rightarrow> string \<Rightarrow> (nat list \<times> nat option \<times> string) option" where
  "v6_groups gs ellipsis s =
     (if length gs \<ge> 8 then Some (gs, ellipsis, s)
      else (case hex_group s of
          None \<Rightarrow> None
        | Some (acc, rest) \<Rightarrow>
            if rest \<noteq> [] \<and> hd rest = CHR ''.'' then
              if ellipsis = None \<and> length gs \<noteq> 6 then None
              else if length gs + 2 > 8 then None
              else map_option (\<lambda>fs. (gs @ v4_tail fs, ellipsis, [])) (v4_fields [] 0 0 s)
            else
              let gs = gs @ [acc]
              in if rest = [] then Some (gs, ellipsis, [])
                 else if hd rest \<noteq> CHR '':'' \<or> tl rest = [] then None
                 else if hd (tl rest) = CHR '':'' then
                   if ellipsis \<noteq> None then None
                   else if tl (tl rest) = [] then Some (gs, Some (length gs), [])
                   else v6_groups gs (Some (length gs)) (tl (tl rest))
                 else v6_groups gs ellipsis (tl rest)))"
  by pat_completeness auto
termination
  by (relation "measure (\<lambda>(gs, e, s). length s)") (auto dest!: hex_group_shorter)

declare v6_groups.simps [simp del]

text \<open>All of the text must have been read; the ellipsis stands for at least one group.\<close>

definition expand :: "nat list \<times> nat option \<times> string \<Rightarrow> IP option" where
  "expand = (\<lambda>(gs, ellipsis, rest).
     if rest \<noteq> [] then None
     else if length gs < 8 then map_option (\<lambda>e. take e gs @ replicate (8 - length gs) 0 @ drop e gs) ellipsis
     else if ellipsis \<noteq> None then None else Some gs)"

definition parse_v6 :: "string \<Rightarrow> IP option" where
  "parse_v6 s =
     (if CHR ''%'' \<in> set s then None
      else if s = ''::'' then Some (replicate 8 0)
      else if take 2 s = ''::'' then Option.bind (v6_groups [] (Some 0) (drop 2 s)) expand
      else Option.bind (v6_groups [] None s) expand)"

definition ParseIP :: "string \<Rightarrow> IP option" where
  "ParseIP s =
     (case dropWhile (\<lambda>c. c \<notin> {CHR ''.'', CHR '':'', CHR ''%''}) s of
        [] \<Rightarrow> None
      | c # cs \<Rightarrow>
          if c = CHR ''.'' then map_option (\<lambda>fs. v4_prefix @ v4_tail fs) (v4_fields [] 0 0 s)
          else if c = CHR '':'' then parse_v6 s else None)"

section \<open>Printing\<close>

definition is_v4 :: "IP \<Rightarrow> bool" where
  "is_v4 ip \<longleftrightarrow> length ip = 8 \<and> take 6 ip = v4_prefix"

fun joined :: "string \<Rightarrow> string list \<Rightarrow> string" where
  "joined sep [] = []"
| "joined sep [w] = w"
| "joined sep (w # ws) = w @ sep @ joined sep ws"

definition hex_chars :: string where "hex_chars = ''0123456789abcdef''"

fun hex_text :: "nat \<Rightarrow> string" where
  "hex_text n = (if n < 16 then [hex_chars ! n] else hex_text (n div 16) @ [hex_chars ! (n mod 16)])"

declare hex_text.simps [simp del]

text \<open>The first of the longest runs of at least two zero groups.\<close>

definition zeros_at :: "IP \<Rightarrow> nat \<Rightarrow> nat" where
  "zeros_at ip i = length (takeWhile (\<lambda>g. g = 0) (drop i ip))"

definition zero_run :: "IP \<Rightarrow> (nat \<times> nat) option" where
  "zero_run ip =
     fold (\<lambda>i best. if zeros_at ip i \<ge> 2 \<and> zeros_at ip i > (case best of None \<Rightarrow> 0 | Some (s, e) \<Rightarrow> e - s)
       then Some (i, i + zeros_at ip i) else best) [0..<8] None"

definition v4_text :: "nat list \<Rightarrow> string" where
  "v4_text fs = joined ''.'' (map decimal fs)"

definition IP_String :: "IP \<Rightarrow> string" where
  "IP_String ip =
     (if ip = [] then ''<nil>''
      else if is_v4 ip then v4_text [ip ! 6 div 256, ip ! 6 mod 256, ip ! 7 div 256, ip ! 7 mod 256]
      else (case zero_run ip of
          None \<Rightarrow> joined '':'' (map hex_text ip)
        | Some (s, e) \<Rightarrow> joined '':'' (map hex_text (take s ip)) @ ''::'' @ joined '':'' (map hex_text (drop e ip))))"

section \<open>Resolving\<close>

text \<open>\<^verbatim>\<open>SplitHostPort\<close>.\<close>

definition last_colon :: "string \<Rightarrow> nat option" where
  "last_colon s = (if CHR '':'' \<in> set s then Some (length s - 1 - length (takeWhile (\<lambda>c. c \<noteq> CHR '':'') (rev s))) else None)"

definition SplitHostPort :: "string \<Rightarrow> (string \<times> string) option" where
  "SplitHostPort s =
     (case last_colon s of
        None \<Rightarrow> None
      | Some i \<Rightarrow>
          if hd s = CHR ''['' then
            (case dropWhile (\<lambda>c. c \<noteq> CHR '']'') s of
               [] \<Rightarrow> None
             | _ \<Rightarrow>
                 let host = takeWhile (\<lambda>c. c \<noteq> CHR '']'') (tl s); k = Suc (Suc (length host))
                 in if k \<noteq> i \<or> CHR ''['' \<in> set (tl s) \<or> CHR '']'' \<in> set (drop k s) then None
                    else Some (host, drop (Suc i) s))
          else if CHR '':'' \<in> set (take i s) then None
          else if CHR ''['' \<in> set s \<or> CHR '']'' \<in> set s then None
          else Some (take i s, drop (Suc i) s))"

definition JoinHostPort :: "string \<Rightarrow> string \<Rightarrow> string" where
  "JoinHostPort host port = (if CHR '':'' \<in> set host then ''['' @ host @ '']:'' @ port else host @ '':'' @ port)"

text \<open>
  \<^verbatim>\<open>ResolveTCPAddr\<close>: \<open>lookup_port\<close> reads a number or the name of a service, \<open>lookup_host\<close> resolves what is not a
  literal address.
\<close>

definition ResolveTCPAddr :: "(string \<Rightarrow> nat option) \<Rightarrow> (string \<Rightarrow> IP option) \<Rightarrow> string \<Rightarrow> TCPAddr option" where
  "ResolveTCPAddr lookup_port lookup_host s =
     Option.bind (SplitHostPort s) (\<lambda>(host, port).
     Option.bind (lookup_port port) (\<lambda>p.
       if host = [] then Some \<lparr>ta_IP = ''<nil>'', ta_String = CHR '':'' # decimal p\<rparr>
       else map_option (\<lambda>ip. \<lparr>ta_IP = IP_String ip, ta_String = JoinHostPort (IP_String ip) (decimal p)\<rparr>)
         (case ParseIP host of Some ip \<Rightarrow> Some ip | None \<Rightarrow> lookup_host host)))"

text \<open>The network of a service, on literal addresses.\<close>

definition literal_net :: "(string \<Rightarrow> nat option) \<Rightarrow> (string \<Rightarrow> IP option) \<Rightarrow> int \<Rightarrow> NetEnv" where
  "literal_net lookup_port lookup_host overflow =
     \<lparr>net_ParseIP = (\<lambda>s. map_option IP_String (ParseIP s)), net_ResolveTCPAddr = ResolveTCPAddr lookup_port lookup_host,
      f64_overflow = overflow\<rparr>"


section \<open>Dotted addresses\<close>

lemma decimal_small: "n < 10 \<Longrightarrow> decimal n = [digit n]"
  by (subst decimal.simps) simp

lemma decimal_snoc: "n \<noteq> 0 \<Longrightarrow> d < 10 \<Longrightarrow> decimal (10 * n + d) = decimal n @ [digit d]"
  by (subst decimal.simps) simp

lemma digit_of_value: "is_decimal c \<Longrightarrow> digit (digit_value c) = c"
  by (simp add: digit_def digit_value_def is_decimal_alt)

text \<open>The part of a field that has been read.\<close>

definition read_part :: "nat \<Rightarrow> nat \<Rightarrow> string" where
  "read_part val digLen = (if digLen = 0 then [] else decimal val)"

lemma v4_fields_canonical:
  "v4_fields fs val digLen s = Some gs \<Longrightarrow> (digLen = 0 \<Longrightarrow> val = 0 \<and> (s \<noteq> [] \<or> fs = [])) \<Longrightarrow>
    (val = 0 \<Longrightarrow> digLen \<le> 1) \<Longrightarrow> val \<le> 255 \<Longrightarrow> length fs \<le> 3 \<Longrightarrow>
    length gs = 4 \<and> take (length fs) gs = fs \<and> list_all (\<lambda>g. g \<le> 255) (drop (length fs) gs) \<and>
    read_part val digLen @ s = v4_text (drop (length fs) gs)"
proof (induction fs val digLen s arbitrary: gs rule: v4_fields.induct)
  case (1 fs val digLen)
  then have "length fs = 3" "gs = fs @ [val]" by (auto split: if_splits)
  then show ?case using 1 by (auto simp: read_part_def v4_text_def)
next
  case (2 fs val digLen c cs)
  show ?case
  proof (cases "is_decimal c")
    case True
    let ?val = "10 * val + digit_value c"
    have d: "digit_value c < 10" using digit_value_le[OF True] by simp
    have lead: "\<not> (digLen = 1 \<and> val = 0)" "?val \<le> 255"
      and rec: "v4_fields fs ?val (Suc digLen) cs = Some gs"
      using 2(3) True by (auto simp: Let_def split: if_splits)
    have part: "read_part ?val (Suc digLen) = read_part val digLen @ [c]"
    proof (cases "digLen = 0")
      case 0: True
      then show ?thesis using 2(4) d True by (simp add: read_part_def decimal_small digit_of_value)
    next
      case False
      then have "val \<noteq> 0" using lead(1) 2(5) by (cases "val = 0") auto
      then show ?thesis using False d True by (simp add: read_part_def decimal_snoc digit_of_value)
    qed
    have "?val = 0 \<Longrightarrow> Suc digLen \<le> 1" using 2(4,5) lead(1) by (cases "val = 0") auto
    from "2.IH"(1)[OF True lead(1) refl _ rec _ this lead(2) 2(7)] lead(2) show ?thesis
      unfolding part by simp
  next
    case False
    then have c: "c = CHR ''.''" "digLen \<noteq> 0" "cs \<noteq> []" "length fs \<noteq> 3"
      and rec: "v4_fields (fs @ [val]) 0 0 cs = Some gs"
      using 2(3) by (auto split: if_splits)
    have IH: "length gs = 4 \<and> take (length (fs @ [val])) gs = fs @ [val] \<and>
        list_all (\<lambda>g. g \<le> 255) (drop (length (fs @ [val])) gs) \<and>
        read_part 0 0 @ cs = v4_text (drop (length (fs @ [val])) gs)"
      using "2.IH"(2)[OF False c(1) _ c(4) rec] c 2(7) by auto
    then have gs: "drop (length fs) gs = val # drop (Suc (length fs)) gs" "take (length fs) gs = fs"
      "drop (Suc (length fs)) gs \<noteq> []"
      using c(4) 2(7) by (auto simp: take_Suc_conv_app_nth Cons_nth_drop_Suc[symmetric])
    then show ?thesis using IH c 2(6) by (cases "drop (Suc (length fs)) gs") (auto simp: read_part_def v4_text_def)
  qed
qed

lemma v4_text_read:
  assumes "v4_fields [] 0 0 s = Some gs"
  shows "length gs = 4" "list_all (\<lambda>g. g \<le> 255) gs" "v4_text gs = s"
proof -
  have "s \<noteq> [] \<or> [] = ([] :: nat list)" by simp
  then show "length gs = 4" "list_all (\<lambda>g. g \<le> 255) gs" "v4_text gs = s"
    using v4_fields_canonical[OF assms] by (simp_all add: read_part_def)
qed

lemma decimal_byte:
  assumes "n \<le> 255"
  obtains "n < 10" "decimal n = [digit n]"
  | a b where "n = 10 * a + b" "0 < a" "a < 10" "b < 10" "decimal n = [digit a, digit b]"
  | a b c where "n = 100 * a + 10 * b + c" "0 < a" "a < 10" "b < 10" "c < 10" "decimal n = [digit a, digit b, digit c]"
proof (cases "n < 10")
  case True
  then show thesis using that(1) decimal_small by blast
next
  case False
  let ?q = "n div 10"
  have n: "n = 10 * ?q + n mod 10" "?q \<noteq> 0" "n mod 10 < 10" using False by auto
  have dn: "decimal n = decimal ?q @ [digit (n mod 10)]" by (subst decimal.simps) (simp add: False)
  show thesis
  proof (cases "?q < 10")
    case True
    then show thesis using that(2)[OF n(1)] n dn by (simp add: decimal_small)
  next
    case big: False
    have q: "?q = 10 * (?q div 10) + ?q mod 10" "?q div 10 \<noteq> 0" "?q div 10 < 10" using big assms by auto
    have "n = 100 * (?q div 10) + 10 * (?q mod 10) + n mod 10" using n(1) q(1) by linarith
    moreover have "decimal ?q = [digit (?q div 10), digit (?q mod 10)]"
      by (subst decimal.simps) (simp add: big decimal_small q(3))
    ultimately show thesis using that(3) q n(3) dn by simp
  qed
qed

lemma v4_fields_byte:
  assumes "n \<le> 255"
  shows "\<exists>k. 0 < k \<and> v4_fields fs 0 0 (decimal n @ rest) = v4_fields fs n k rest"
  using assms
proof (cases n rule: decimal_byte)
  case 1
  then show ?thesis by (intro exI[of _ 1]) simp
next
  case (2 a b)
  then show ?thesis using assms by (intro exI[of _ 2]) (simp add: numeral_2_eq_2)
next
  case (3 a b c)
  then show ?thesis using assms by (intro exI[of _ 3]) (simp add: numeral_3_eq_3)
qed

lemma v4_fields_text:
  assumes "list_all (\<lambda>g. g \<le> 255) [a, b, c, d]"
  shows "v4_fields [] 0 0 (v4_text [a, b, c, d]) = Some [a, b, c, d]"
proof -
  have point: "v4_fields fs n k (CHR ''.'' # decimal m @ rest) = v4_fields (fs @ [n]) 0 0 (decimal m @ rest)"
    if "0 < k" "length fs < 3" for fs n k m rest
    using that by (simp add: is_decimal_def)
  have step: "v4_fields fs 0 0 (decimal n @ CHR ''.'' # decimal m @ rest) = v4_fields (fs @ [n]) 0 0 (decimal m @ rest)"
    if "n \<le> 255" "length fs < 3" for fs n m rest
    using v4_fields_byte[OF that(1), of fs "CHR ''.'' # decimal m @ rest"] point[OF _ that(2)] by auto
  have last: "v4_fields [a, b, c] 0 0 (decimal d) = Some [a, b, c, d]"
    using v4_fields_byte[of d "[a, b, c]" "[]"] assms by auto
  show ?thesis
    using step[of a "[]" b "CHR ''.'' # decimal c @ CHR ''.'' # decimal d"]
      step[of b "[a]" c "CHR ''.'' # decimal d"] step[of c "[a, b]" d "[]"] last assms
    by (simp add: v4_text_def)
qed


section \<open>Groups\<close>

definition groups_ok :: "nat list \<Rightarrow> bool" where
  "groups_ok gs \<longleftrightarrow> list_all (\<lambda>g. g < 65536) gs"

lemma groups_ok_simps [simp]:
  "groups_ok []" "groups_ok (g # gs) \<longleftrightarrow> g < 65536 \<and> groups_ok gs" "groups_ok (gs @ hs) \<longleftrightarrow> groups_ok gs \<and> groups_ok hs"
  "groups_ok (replicate n 0)"
  by (auto simp: groups_ok_def list_all_iff)

lemma groups_ok_cut: "groups_ok gs \<Longrightarrow> groups_ok (take n gs) \<and> groups_ok (drop n gs)"
  using groups_ok_simps(3)[of "take n gs" "drop n gs"] by simp

lemma v4_tail_ok: "list_all (\<lambda>g. g \<le> 255) fs \<Longrightarrow> length fs = 4 \<Longrightarrow> groups_ok (v4_tail fs) \<and> length (v4_tail fs) = 2"
proof -
  assume "list_all (\<lambda>g. g \<le> 255) fs" "length fs = 4"
  moreover from this(2) obtain a b c d where "fs = [a, b, c, d]"
    by (auto simp: length_Suc_conv numeral_Bit0 numeral_Bit1)
  ultimately show ?thesis by (simp add: v4_tail_def)
qed

lemma hex_value_le: "hex_value c = Some v \<Longrightarrow> v \<le> 15"
  by (auto simp: hex_value_def is_decimal_alt digit_value_def less_eq_char_def split: if_splits)

lemma hex_number: "\<forall>c \<in> set ds. hex_value c \<noteq> None \<Longrightarrow> n < 16 ^ k \<Longrightarrow>
    foldl (\<lambda>n c. 16 * n + the (hex_value c)) n ds < 16 ^ (k + length ds)"
proof (induction ds arbitrary: n k)
  case (Cons c ds)
  obtain v where v: "hex_value c = Some v" using Cons.prems(1) by auto
  have "16 * n + the (hex_value c) < 16 ^ Suc k" using Cons.prems(2) hex_value_le[OF v] v by simp
  from Cons.IH[OF _ this] Cons.prems(1) show ?case by simp
qed simp

lemma hex_group_ok: "hex_group s = Some (acc, rest) \<Longrightarrow> acc < 65536"
proof -
  assume "hex_group s = Some (acc, rest)"
  then obtain ds where ds: "length ds \<le> 4" "ds = takeWhile (\<lambda>c. hex_value c \<noteq> None) s"
    "acc = foldl (\<lambda>n c. 16 * n + the (hex_value c)) 0 ds"
    by (auto simp: hex_group_def Let_def split: if_splits)
  have "acc < 16 ^ (0 + length ds)"
    unfolding ds(3) by (rule hex_number) (auto simp: ds(2) dest: set_takeWhileD)
  also have "\<dots> \<le> 16 ^ 4" using ds(1) by (intro power_increasing) simp_all
  finally show ?thesis by simp
qed

lemma v6_groups_ok:
  "v6_groups gs e s = Some (gs', e', rest) \<Longrightarrow> groups_ok gs \<Longrightarrow> length gs \<le> 8 \<Longrightarrow> groups_ok gs' \<and> length gs' \<le> 8"
proof (induction gs e s arbitrary: gs' e' rest rule: v6_groups.induct)
  case (1 gs e s)
  show ?case
  proof (cases "8 \<le> length gs")
    case True
    then show ?thesis using 1(3-) by (subst (asm) v6_groups.simps) simp
  next
    case False
    then obtain acc r where h: "hex_group s = Some (acc, r)"
      using 1(3) by (subst (asm) v6_groups.simps) (auto split: option.splits)
    note acc = hex_group_ok[OF h]
    show ?thesis
    proof (cases "r \<noteq> [] \<and> hd r = CHR ''.''")
      case True
      then obtain fs where "v4_fields [] 0 0 s = Some fs" "gs' = gs @ v4_tail fs" "length gs + 2 \<le> 8"
        using 1(3) False h by (subst (asm) v6_groups.simps) (auto split: if_splits)
      then show ?thesis using v4_tail_ok[of fs] v4_text_read[of s fs] 1(4) by auto
    next
      case dot: False
      note eq = 1(3)[unfolded v6_groups.simps[of gs e s]]
      show ?thesis
        using eq False h dot acc 1(4) 1(1)[OF False h _ dot refl] 1(2)[OF False h _ dot refl]
        by (auto simp: Let_def split: if_splits)
    qed
  qed
qed

lemma expand_ok:
  assumes "v6_groups [] e s = Some r" "expand r = Some ip"
  shows "groups_ok ip \<and> length ip = 8"
proof -
  obtain gs e' rest where r: "r = (gs, e', rest)" by (cases r)
  have "groups_ok gs" "length gs \<le> 8" using v6_groups_ok[of "[]" e s gs e' rest] assms(1) r by simp_all
  then show ?thesis using assms(2) groups_ok_cut by (auto simp: expand_def r split: if_splits)
qed

lemma parse_v6_ok: "parse_v6 s = Some ip \<Longrightarrow> groups_ok ip \<and> length ip = 8"
  by (auto simp: parse_v6_def bind_eq_Some_conv dest: expand_ok split: if_splits)

lemma ParseIP_ok:
  assumes "ParseIP s = Some ip"
  shows "groups_ok ip \<and> length ip = 8"
proof -
  have "groups_ok (v4_prefix @ v4_tail fs) \<and> length (v4_prefix @ v4_tail fs) = 8" if "v4_fields [] 0 0 s = Some fs" for fs
    using v4_tail_ok[OF v4_text_read(2)[OF that] v4_text_read(1)[OF that]] by (simp add: v4_prefix_def)
  then show ?thesis
    using assms parse_v6_ok by (auto simp: ParseIP_def split: list.splits if_splits)
qed


section \<open>Texts of addresses\<close>

lemma hex_text_chars: "set (hex_text n) \<subseteq> set hex_chars"
proof (induction n rule: hex_text.induct)
  case (1 n)
  have nth: "m < 16 \<Longrightarrow> hex_chars ! m \<in> set hex_chars" for m by (rule nth_mem) (simp add: hex_chars_def)
  show ?case
  proof (cases "n < 16")
    case True
    then show ?thesis using nth[OF True] by (subst hex_text.simps) simp
  next
    case False
    then show ?thesis using 1 nth[of "n mod 16"] by (subst hex_text.simps) simp
  qed
qed

lemma joined_chars: "\<forall>w \<in> set ws. set w \<subseteq> A \<Longrightarrow> set (joined sep ws) \<subseteq> A \<union> set sep"
  by (induction sep ws rule: joined.induct) auto

lemma v4_text_chars: "set (v4_text fs) \<subseteq> {c. is_decimal c} \<union> {CHR ''.''}"
  using joined_chars[of "map decimal fs" "{c. is_decimal c}" "''.''"] decimal_digits by (force simp: v4_text_def)

lemma v6_text:
  assumes "length ip = 8" "\<not> is_v4 ip"
  shows "CHR '':'' \<in> set (IP_String ip)" "set (IP_String ip) \<subseteq> set hex_chars \<union> {CHR '':''}"
proof -
  have ip: "ip \<noteq> []" using assms(1) by auto
  have words: "set (joined '':'' (map hex_text gs)) \<subseteq> set hex_chars \<union> {CHR '':''}" for gs
    using joined_chars[of "map hex_text gs" "set hex_chars" "'':''"] hex_text_chars by fastforce
  then show "set (IP_String ip) \<subseteq> set hex_chars \<union> {CHR '':''}"
    using ip assms(2) by (auto simp: IP_String_def split: option.split prod.split)
  obtain g h gs where "ip = g # h # gs" using assms(1) by (cases ip; cases "tl ip") auto
  then have "CHR '':'' \<in> set (joined '':'' (map hex_text ip))" by (cases gs) simp_all
  then show "CHR '':'' \<in> set (IP_String ip)"
    using ip assms(2) by (auto simp: IP_String_def split: option.split prod.split)
qed

text \<open>A dotted address and the address it denotes.\<close>

lemma v4_shape:
  assumes "is_v4 ip" "groups_ok ip"
  obtains fs where "length fs = 4" "list_all (\<lambda>g. g \<le> 255) fs" "ip = v4_prefix @ v4_tail fs" "IP_String ip = v4_text fs"
proof -
  let ?fs = "[ip ! 6 div 256, ip ! 6 mod 256, ip ! 7 div 256, ip ! 7 mod 256]"
  have len: "length ip = 8" "take 6 ip = v4_prefix" using assms(1) by (simp_all add: is_v4_def)
  have "drop 6 ip = [ip ! 6, ip ! 7]"
    using len(1) Cons_nth_drop_Suc[of 6 ip] Cons_nth_drop_Suc[of 7 ip] by simp
  then have "ip = v4_prefix @ v4_tail ?fs" using len(2) append_take_drop_id[of 6 ip] by (simp add: v4_tail_def)
  moreover have "ip ! 6 < 65536" "ip ! 7 < 65536" using assms(2) len(1) by (simp_all add: groups_ok_def list_all_length)
  moreover have "ip \<noteq> []" using len(1) by auto
  ultimately show thesis using assms(1) by (intro that[of ?fs]) (auto simp: IP_String_def)
qed

lemma is_decimal_dot: "\<not> is_decimal CHR ''.''" "\<not> is_decimal CHR '':''" "\<not> is_decimal CHR ''%''" "\<not> is_decimal CHR ''[''"
  "\<not> is_decimal CHR '']''"
  by (simp_all add: is_decimal_def)

lemma ParseIP_String_v4:
  assumes "is_v4 ip" "groups_ok ip"
  shows "ParseIP (IP_String ip) = Some ip"
proof (rule v4_shape[OF assms])
  fix fs
  assume fs: "length fs = 4" "list_all (\<lambda>g. g \<le> 255) fs" "ip = v4_prefix @ v4_tail fs" "IP_String ip = v4_text fs"
  obtain a b c d where abcd: "fs = [a, b, c, d]" using fs(1) by (auto simp: length_Suc_conv numeral_Bit0 numeral_Bit1)
  have "\<forall>x \<in> set (decimal a). x \<notin> {CHR ''.'', CHR '':'', CHR ''%''}"
    using decimal_digits[of a] is_decimal_dot by auto
  then have "dropWhile (\<lambda>x. x \<notin> {CHR ''.'', CHR '':'', CHR ''%''}) (v4_text fs) = CHR ''.'' # v4_text [b, c, d]"
    by (simp add: v4_text_def abcd dropWhile_append)
  then show ?thesis using v4_fields_text[of a b c d] fs by (simp add: ParseIP_def abcd)
qed

lemma is_v4_tail: "length fs = 4 \<Longrightarrow> is_v4 (v4_prefix @ v4_tail fs)"
  by (simp add: is_v4_def v4_prefix_def v4_tail_def)

section \<open>Host and port\<close>

lemma last_colon_append: "CHR '':'' \<notin> set b \<Longrightarrow> last_colon (a @ CHR '':'' # b) = Some (length a)"
  by (simp add: last_colon_def takeWhile_append)

lemma last_colon_split:
  assumes "CHR '':'' \<in> set s"
  obtains a b where "s = a @ CHR '':'' # b" "last_colon s = Some (length a)" "CHR '':'' \<notin> set b"
  using split_list_last[OF assms] last_colon_append by metis

lemma SplitHostPort_colon:
  assumes "CHR '':'' \<in> set host" "CHR ''['' \<notin> set host"
  shows "SplitHostPort (host @ CHR '':'' # port) = None"
proof -
  let ?s = "host @ CHR '':'' # port"
  obtain a b where ab: "?s = a @ CHR '':'' # b" "last_colon ?s = Some (length a)" "CHR '':'' \<notin> set b"
    by (rule last_colon_split[of ?s]) simp_all
  have "length host \<le> length a"
  proof (rule ccontr)
    assume "\<not> length host \<le> length a"
    then have "drop (Suc (length a)) ?s = drop (Suc (length a)) host @ CHR '':'' # port" by simp
    moreover have "drop (Suc (length a)) ?s = b" unfolding ab(1) by simp
    ultimately show False using ab(3) by auto
  qed
  then have "CHR '':'' \<in> set (take (length a) ?s)" using assms(1) by simp
  moreover have "hd ?s \<noteq> CHR ''[''" using assms by (cases host) auto
  ultimately show ?thesis by (simp add: SplitHostPort_def ab(2))
qed

lemma SplitHostPort_plain:
  assumes "set host \<inter> {CHR '':'', CHR ''['', CHR '']''} = {}" "host \<noteq> []"
  shows "SplitHostPort (host @ CHR '':'' # port) =
    (if set port \<inter> {CHR '':'', CHR ''['', CHR '']''} = {} then Some (host, port) else None)"
proof (cases "CHR '':'' \<in> set port")
  case True
  then obtain a b where ab: "port = a @ CHR '':'' # b" "CHR '':'' \<notin> set b" by (rule last_colon_split)
  have "last_colon (host @ CHR '':'' # port) = Some (length (host @ CHR '':'' # a))"
    using last_colon_append[OF ab(2), of "host @ CHR '':'' # a"] by (simp add: ab(1))
  moreover have "hd (host @ CHR '':'' # port) \<noteq> CHR ''[''" using assms by (cases host) auto
  ultimately show ?thesis using True by (simp add: SplitHostPort_def ab(1))
next
  case False
  have "hd (host @ CHR '':'' # port) \<noteq> CHR ''[''" using assms by (cases host) auto
  then show ?thesis using False assms(1) by (auto simp: SplitHostPort_def last_colon_append)
qed

section \<open>Services\<close>

lemma bracket_not_hex: "CHR ''['' \<notin> set hex_chars"
  by (simp add: hex_chars_def)

text \<open>\<^verbatim>\<open>ip.String() + ":" + port\<close>, which both services and dnsdist clients resolve.\<close>

lemma resolve_literal:
  assumes "length ip = 8" "groups_ok ip"
  shows "ResolveTCPAddr lookup_port lookup_host (IP_String ip @ '':'' @ port) =
    (if is_v4 ip \<and> set port \<inter> {CHR '':'', CHR ''['', CHR '']''} = {}
     then map_option (\<lambda>p. \<lparr>ta_IP = IP_String ip, ta_String = IP_String ip @ '':'' @ decimal p\<rparr>) (lookup_port port)
     else None)"
proof (cases "is_v4 ip")
  case True
  obtain fs where "IP_String ip = v4_text fs" "length fs = 4" by (rule v4_shape[OF True assms(2)])
  then have chars: "set (IP_String ip) \<inter> {CHR '':'', CHR ''['', CHR '']''} = {}" "IP_String ip \<noteq> []"
    using v4_text_chars[of fs] is_decimal_dot by (auto simp: v4_text_def length_Suc_conv numeral_Bit0 numeral_Bit1)
  show ?thesis
    using chars SplitHostPort_plain[OF chars, of port] ParseIP_String_v4[OF True assms(2)] True
    by (auto simp: ResolveTCPAddr_def JoinHostPort_def split: Option.bind_split)
next
  case False
  have "CHR ''['' \<notin> set (IP_String ip)" using v6_text(2)[OF assms(1) False] bracket_not_hex by auto
  then show ?thesis
    using SplitHostPort_colon[OF v6_text(1)[OF assms(1) False], of port] False by (simp add: ResolveTCPAddr_def)
qed

text \<open>
  C38. Only IPv4 works: a configuration becomes a service exactly if its address is an IPv4 address (or one mapped into
  IPv6), its port is one that can be resolved, and it has an identifier; the address of the service is then the
  dotted text of the configured one. Every other IPv6 address is refused as one that cannot be resolved.
\<close>

theorem services_need_ipv4:
  "case NewServiceFromGSLBConfig (literal_net lookup_port lookup_host overflow) config opts of
     Inl e \<Rightarrow>
       e = (case ParseIP (cfg_Ip config) of
           None \<Rightarrow> ErrUnableToParseIpAddr
         | Some ip \<Rightarrow>
             if is_v4 ip \<and> set (cfg_Port config) \<inter> {CHR '':'', CHR ''['', CHR '']''} = {} \<and> lookup_port (cfg_Port config) \<noteq> None
             then ErrEmptyServiceId else ErrUnableToResolveAddr) \<and>
       (case e of ErrEmptyServiceId \<Rightarrow> cfg_ServiceID config = [] | _ \<Rightarrow> True)
   | Inr svc \<Rightarrow> (\<exists>ip. ParseIP (cfg_Ip config) = Some ip \<and> is_v4 ip \<and> GetIP svc = IP_String ip \<and> ParseIP (GetIP svc) = Some ip) \<and>
       lookup_port (cfg_Port config) \<noteq> None \<and> cfg_ServiceID config \<noteq> []"
proof (cases "ParseIP (cfg_Ip config)")
  case None
  then show ?thesis by (simp add: NewServiceFromGSLBConfig_def literal_net_def)
next
  case (Some ip)
  note ok = ParseIP_ok[OF Some]
  have addr: "svc_addr (foldl apply_option s opts) = svc_addr s" for s
  proof (induction opts arbitrary: s)
    case (Cons x xs)
    then show ?case by (cases x) simp_all
  qed simp
  show ?thesis
    using resolve_literal[of ip lookup_port lookup_host "cfg_Port config"] ok Some ParseIP_String_v4[of ip]
    by (auto simp: NewServiceFromGSLBConfig_def literal_net_def GetIP_def addr Let_def split: option.split)
qed

end
