(* ===== verification/DnsServers.thy ===== *)
theory DnsServers
  imports DnsSync DnsClient NetAddr Config
begin

text \<open>
  \<^verbatim>\<open>pkg/dnsdist/options.go\<close>, the construction of clients in \<^verbatim>\<open>pkg/dnsdist/client.go\<close> and of the
  dnsdist updater in \<^verbatim>\<open>internal/dns/update/dnsdist.go\<close>, with its periodic synchronisation. The decoding of
  base64 and JSON and host name lookups are parameters.
\<close>

section \<open>Options of a client\<close>

text \<open>A \<^verbatim>\<open>net.IP\<close> that was parsed, or the bytes of any string that was converted to one.\<close>

datatype host = Addr IP | RawIP string

definition byte_pairs :: "string \<Rightarrow> IP" where
  "byte_pairs bs = map (\<lambda>i. 256 * of_char (bs ! (2 * i)) + of_char (bs ! (2 * i + 1))) [0..<8]"

definition hex_string :: "string \<Rightarrow> string" where
  "hex_string bs = concat (map (\<lambda>c. [hex_chars ! (of_char c div 16), hex_chars ! (of_char c mod 16)]) bs)"

fun host_String :: "host \<Rightarrow> string" where
  "host_String (Addr ip) = IP_String ip"
| "host_String (RawIP bs) =
     (if bs = [] then ''<nil>''
      else if length bs = 4 then v4_text (map of_char bs)
      else if length bs = 16 then IP_String (byte_pairs bs)
      else CHR ''?'' # hex_string bs)"

record ClientConfig =
  cc_host :: host
  cc_port :: string
  cc_timeout :: Duration
  cc_retries :: int

datatype option_error = OptCouldNotParseAddr | OptLookupFailed | ErrNegativeRetryCount

datatype clientOption = WithHost string | WithHostName string | WithPort string | WithTimeout Duration
  | WithNumRetriesOnCommandFailure int

text \<open>\<^verbatim>\<open>strings.TrimSpace\<close> on bytes: the white space of ASCII and of Latin-1 in UTF-8.\<close>

definition is_space :: "char \<Rightarrow> bool" where
  "is_space c \<longleftrightarrow> c \<in> {CHR 0x09, CHR 0x0A, CHR 0x0B, CHR 0x0C, CHR 0x0D, CHR 0x20}"

fun trim_left :: "string \<Rightarrow> string" where
  "trim_left (c # d # cs) =
     (if is_space c then trim_left (d # cs)
      else if c = CHR 0xC2 \<and> (d = CHR 0x85 \<or> d = CHR 0xA0) then trim_left cs else c # d # cs)"
| "trim_left [c] = (if is_space c then [] else [c])"
| "trim_left [] = []"

fun trim_right_rev :: "string \<Rightarrow> string" where
  "trim_right_rev (d # c # cs) =
     (if is_space d then trim_right_rev (c # cs)
      else if c = CHR 0xC2 \<and> (d = CHR 0x85 \<or> d = CHR 0xA0) then trim_right_rev cs else d # c # cs)"
| "trim_right_rev [c] = (if is_space c then [] else [c])"
| "trim_right_rev [] = []"

definition TrimSpace :: "string \<Rightarrow> string" where
  "TrimSpace s = rev (trim_right_rev (rev (trim_left s)))"

text \<open>\<^verbatim>\<open>lookup\<close> is \<^verbatim>\<open>net.LookupHost\<close>: the first address and the others.\<close>

fun client_option :: "(string \<Rightarrow> (string \<times> string list) option) \<Rightarrow> clientOption \<Rightarrow> ClientConfig \<Rightarrow> option_error + ClientConfig" where
  "client_option lookup (WithHost h) c =
     (case ParseIP h of None \<Rightarrow> Inl OptCouldNotParseAddr | Some ip \<Rightarrow> Inr (c\<lparr>cc_host := Addr ip\<rparr>))"
| "client_option lookup (WithHostName hostname) c =
     (case lookup hostname of None \<Rightarrow> Inl OptLookupFailed | Some (ip, _) \<Rightarrow> Inr (c\<lparr>cc_host := RawIP ip\<rparr>))"
| "client_option lookup (WithPort p) c =
     (let port = TrimSpace p
      in if port = [] then Inl OptCouldNotParseAddr
         else if \<not> list_all is_decimal port then Inl OptCouldNotParseAddr
         else if digits_from 0 port < 1 \<or> digits_from 0 port > 65535 then Inl OptCouldNotParseAddr
         else Inr (c\<lparr>cc_port := port\<rparr>))"
| "client_option lookup (WithTimeout t) c = Inr (c\<lparr>cc_timeout := t\<rparr>)"
| "client_option lookup (WithNumRetriesOnCommandFailure n) c =
     (if n < 0 then Inl ErrNegativeRetryCount else Inr (c\<lparr>cc_retries := n\<rparr>))"

fun client_options where
  "client_options lookup [] c = Inr c"
| "client_options lookup (opt # opts) c =
     (case client_option lookup opt c of Inl e \<Rightarrow> Inl e | Inr c \<Rightarrow> client_options lookup opts c)"

definition default_client :: ClientConfig where
  "default_client = \<lparr>cc_host = Addr (v4_prefix @ v4_tail [127, 0, 0, 1]), cc_port = ''5199'', cc_timeout = 30 * Second, cc_retries = 1\<rparr>"

datatype client_failure = KeyFailure new_error | OptionFailure option_error

text \<open>Key and nonce first (\<open>NewClient\<close>), then the options in their order; the first error is returned.\<close>

definition configured_client ::
  "'w Net \<Rightarrow> (string \<Rightarrow> (string \<times> string list) option) \<Rightarrow> (string \<Rightarrow> byte list option) \<Rightarrow> string \<Rightarrow> clientOption list \<Rightarrow> 'w \<Rightarrow>
   (client_failure + ClientConfig \<times> Client) \<times> 'w" where
  "configured_client net lookup base64 key opts w =
     (case NewClient net (base64 key) 1 w of
        (Inl e, w) \<Rightarrow> (Inl (KeyFailure e), w)
      | (Inr client, w) \<Rightarrow>
          (case client_options lookup opts default_client of
             Inl e \<Rightarrow> (Inl (OptionFailure e), w)
           | Inr cfg \<Rightarrow> (Inr (cfg, client\<lparr>cl_retries := nat (cc_retries cfg)\<rparr>), w)))"

text \<open>Whether \<^verbatim>\<open>connect\<close> gets as far as dialling (\<open>nw_resolve\<close> of its network), and what it dials.\<close>

definition dialled :: "(string \<Rightarrow> nat option) \<Rightarrow> (string \<Rightarrow> IP option) \<Rightarrow> ClientConfig \<Rightarrow> string option" where
  "dialled lookup_port lookup_host cfg =
     map_option ta_String (ResolveTCPAddr lookup_port lookup_host (host_String (cc_host cfg) @ '':'' @ cc_port cfg))"

section \<open>The updater\<close>

record DNSDISTServer =
  ds_Name :: string
  ds_Host :: IP
  ds_Port :: string
  ds_Key :: string

datatype updater_error = ServersUnreadable | ServersMalformed | ClientNotCreated client_failure | FirstSyncFailed

definition server_options :: "DNSDISTServer \<Rightarrow> clientOption list" where
  "server_options server =
     [WithHost (IP_String (ds_Host server)), WithPort (ds_Port server), WithTimeout (5 * Second),
      WithNumRetriesOnCommandFailure 3]"

fun new_clients where
  "new_clients net lookup base64 [] clients w = (Inr clients, w)"
| "new_clients net lookup base64 (server # servers) clients w =
     (case configured_client net lookup base64 (ds_Key server) (server_options server) w of
        (Inl e, w) \<Rightarrow> (Inl (ClientNotCreated e), w)
      | (Inr client, w) \<Rightarrow> new_clients net lookup base64 servers (mput (ds_Name server) client clients) w)"

text \<open>
  \<^verbatim>\<open>NewDNSDISTUpdater\<close>: \<open>file\<close> is the contents of the file of servers, \<open>json\<close> its decoding, \<open>console_of\<close> the client as
  the console that synchronisation talks to. A failed first synchronisation returns the updater with an error.
\<close>

definition NewDNSDISTUpdater where
  "NewDNSDISTUpdater net lookup base64 json console_of digest co ops file s w =
     (case file of
        None \<Rightarrow> (Inl ServersUnreadable, s, w)
      | Some text \<Rightarrow>
          (case json text of
             None \<Rightarrow> (Inl ServersMalformed, s, w)
           | Some servers \<Rightarrow>
               (case new_clients net lookup base64 servers [] w of
                  (Inl e, w) \<Rightarrow> (Inl e, s, w)
                | (Inr clients, w) \<Rightarrow>
                    (case synchronizeServers digest co ops (s, map (console_of \<circ> snd) clients) of
                       (Inl e, s, cs) \<Rightarrow> (Inl FirstSyncFailed, s, w)
                     | (Inr _, s, cs) \<Rightarrow> (Inr (zip (map fst clients) cs), s, w)))))"

text \<open>\<^verbatim>\<open>Synchronize\<close>: once a minute until the context is done, which disconnects all clients.\<close>

datatype sync_event = Minute | SyncDone

fun Synchronize ::
  "(Spoof list \<Rightarrow> string) \<Rightarrow> 'c Console \<Rightarrow> ('c \<Rightarrow> 'c) \<Rightarrow> ('s, GSLBServiceGroup) Store \<Rightarrow> sync_event list \<Rightarrow> 's \<times> 'c list \<Rightarrow> 's \<times> 'c list" where
  "Synchronize digest co disconnect ops [] sc = sc"
| "Synchronize digest co disconnect ops (SyncDone # evs) (s, cs) = (s, map disconnect cs)"
| "Synchronize digest co disconnect ops (Minute # evs) (s, cs) =
     (let (_, s, cs) = synchronizeServers digest co ops (s, cs) in Synchronize digest co disconnect ops evs (s, cs))"

section \<open>Ports and hosts\<close>

lemma trim_plain: "list_all is_decimal s \<Longrightarrow> TrimSpace s = s"
proof -
  have s: "\<not> is_space c" "c \<noteq> CHR 0xC2" if "is_decimal c" for c
    using that by (auto simp: is_space_def is_decimal_def)
  have left: "list_all is_decimal s \<Longrightarrow> trim_left s = s" for s by (induction s rule: trim_left.induct) (auto simp: s)
  have right: "list_all is_decimal s \<Longrightarrow> trim_right_rev s = s" for s
    by (induction s rule: trim_right_rev.induct) (auto simp: s)
  assume "list_all is_decimal s"
  moreover from this have "list_all is_decimal (rev s)" by simp
  ultimately show ?thesis by (simp only: TrimSpace_def left right rev_rev_ident)
qed


lemma WithPort_iff:
  assumes "list_all is_decimal port"
  shows "client_option lookup (WithPort port) c =
    (if port \<noteq> [] \<and> 1 \<le> digits_from 0 port \<and> digits_from 0 port \<le> 65535 then Inr (c\<lparr>cc_port := port\<rparr>) else Inl OptCouldNotParseAddr)"
  using trim_plain[OF assms] assms by (auto simp: Let_def)

lemma client_options_append:
  "client_options lookup (xs @ ys) c =
    (case client_options lookup xs c of Inl e \<Rightarrow> Inl e | Inr c \<Rightarrow> client_options lookup ys c)"
  by (induction xs arbitrary: c) (auto split: sum.split)

text \<open>The options of a configured server.\<close>

lemma server_options_result:
  "client_options lookup (server_options server) c =
    (case ParseIP (IP_String (ds_Host server)) of
       None \<Rightarrow> Inl OptCouldNotParseAddr
     | Some ip \<Rightarrow>
         (case client_option lookup (WithPort (ds_Port server)) (c\<lparr>cc_host := Addr ip\<rparr>) of
            Inl e \<Rightarrow> Inl e
          | Inr c \<Rightarrow> Inr (c\<lparr>cc_timeout := 5 * Second, cc_retries := 3\<rparr>)))"
  by (simp add: server_options_def split: option.split sum.split del: client_option.simps(3))

fun last_named :: "string \<Rightarrow> DNSDISTServer list \<Rightarrow> DNSDISTServer option" where
  "last_named name [] = None"
| "last_named name (server # servers) =
     (case last_named name servers of
        Some later \<Rightarrow> Some later
      | None \<Rightarrow> if ds_Name server = name then Some server else None)"

definition client_of :: "(string \<Rightarrow> byte list option) \<Rightarrow> DNSDISTServer \<Rightarrow> ClientConfig \<times> Client \<Rightarrow> bool" where
  "client_of base64 server = (\<lambda>(cfg, client).
     (\<exists>ip. ParseIP (IP_String (ds_Host server)) = Some ip \<and> cc_host cfg = Addr ip) \<and> cc_port cfg = TrimSpace (ds_Port server) \<and>
     cc_timeout cfg = 5 * Second \<and> cl_retries client = 3 \<and> base64 (ds_Key server) = Some (cl_key client) \<and>
     length (cl_key client) = KEY_LEN \<and> \<not> cl_conn client)"

lemma configured_client_of:
  assumes "configured_client net lookup base64 (ds_Key server) (server_options server) w = (Inr client, w')"
  shows "client_of base64 server client"
proof -
  obtain c w1 where c: "NewClient net (base64 (ds_Key server)) 1 w = (Inr c, w1)"
    using assms by (auto simp: configured_client_def split: sum.splits prod.splits)
  then have key: "base64 (ds_Key server) = Some (cl_key c)" "length (cl_key c) = KEY_LEN" "\<not> cl_conn c"
    by (auto simp: NewClient_def generateClientNonce_def Let_def split: option.splits if_splits prod.splits)
  obtain cfg where cfg: "client_options lookup (server_options server) default_client = Inr cfg"
    "client = (cfg, c\<lparr>cl_retries := nat (cc_retries cfg)\<rparr>)"
    using assms c by (auto simp: configured_client_def split: sum.splits)
  then show ?thesis
    using key by (auto simp: server_options_result client_of_def Let_def split: option.splits sum.splits if_splits)
qed

definition client_for where
  "client_for base64 servers clients old name \<longleftrightarrow>
     (case last_named name servers of
        None \<Rightarrow> mget clients name = mget old name
      | Some server \<Rightarrow> \<exists>client. mget clients name = Some client \<and> client_of base64 server client)"

lemma new_clients_for:
  "new_clients net lookup base64 servers old w = (Inr clients, w') \<Longrightarrow> keys_ok old \<Longrightarrow>
    keys_ok clients \<and> client_for base64 servers clients old name"
proof (induction servers arbitrary: old w)
  case (Cons server servers)
  obtain client w1 where c: "configured_client net lookup base64 (ds_Key server) (server_options server) w = (Inr client, w1)"
    and rest: "new_clients net lookup base64 servers (mput (ds_Name server) client old) w1 = (Inr clients, w')"
    using Cons.prems(1) by (auto split: sum.splits prod.splits)
  note IH = Cons.IH[OF rest keys_ok_mput[OF Cons.prems(2)]] and c = configured_client_of[OF c]
  show ?case
  proof (cases "last_named name servers")
    case None
    then show ?thesis using IH c by (cases "name = ds_Name server") (simp_all add: client_for_def mget_mput)
  next
    case (Some later)
    then show ?thesis using IH unfolding client_for_def last_named.simps Some option.case by blast
  qed
qed (simp add: client_for_def)

text \<open>
  One client for each name: when the clients are created, every name in the file has exactly one client, made of
  the last server of that name: address, port and key are those of that server. Earlier servers of the same name have
  no client and are never updated.
\<close>

theorem one_client_per_name:
  assumes "new_clients net lookup base64 servers [] w = (Inr clients, w')"
  shows "distinct (map fst clients) \<and>
    (\<forall>name. case last_named name servers of
        None \<Rightarrow> mget clients name = None
      | Some server \<Rightarrow> \<exists>client. mget clients name = Some client \<and> client_of base64 server client)"
proof -
  have "keys_ok ([] :: (string, ClientConfig \<times> Client) gomap)" by simp
  note f = new_clients_for[OF assms this]
  show ?thesis
  proof (intro conjI allI)
    show "distinct (map fst clients)" using f by blast
    fix name
    show "case last_named name servers of
        None \<Rightarrow> mget clients name = None
      | Some server \<Rightarrow> \<exists>client. mget clients name = Some client \<and> client_of base64 server client"
      using f[of name] by (cases "last_named name servers") (simp_all only: client_for_def option.case map_of.simps)
  qed
qed

text \<open>Two servers of one name.\<close>

definition demo_server :: "IP \<Rightarrow> DNSDISTServer" where
  "demo_server ip = \<lparr>ds_Name = ''edge'', ds_Host = ip, ds_Port = '' 5199 '', ds_Key = ''k''\<rparr>"

definition quiet_net :: "unit Net" where
  "quiet_net = \<lparr>nw_resolve = True, nw_dial = Pair True, nw_write = (\<lambda>_. Pair True), nw_read = (\<lambda>_. Pair None),
     nw_readFull = (\<lambda>_. Pair None), nw_close = id, nw_rand = Pair None, sb_seal = (\<lambda>_ _ m. m), sb_open = (\<lambda>_ _ m. Some m)\<rparr>"

lemma demo_server_client:
  assumes "is_v4 ip" "groups_ok ip"
  shows "\<exists>client. configured_client quiet_net lookup (\<lambda>_. Some (replicate 32 0)) (ds_Key (demo_server ip)) (server_options (demo_server ip)) ()
    = (Inr client, ())"
proof -
  have "TrimSpace '' 5199 '' = ''5199''" by (simp add: TrimSpace_def is_space_def)
  then show ?thesis
    using ParseIP_String_v4[OF assms]
    by (simp add: configured_client_def NewClient_def generateClientNonce_def quiet_net_def KEY_LEN_def server_options_result demo_server_def
        is_decimal_def digits_from_def digit_value_def Let_def)
qed

theorem one_client_per_name_witness:
  "\<exists>clients. new_clients quiet_net (\<lambda>_. None) (\<lambda>_. Some (replicate 32 0))
      [demo_server (v4_prefix @ v4_tail [10, 0, 0, 1]), demo_server (v4_prefix @ v4_tail [10, 0, 0, 2])] [] () = (Inr clients, ()) \<and>
    length clients = 1 \<and>
    (\<exists>client. mget clients ''edge'' = Some client \<and> cc_host (fst client) = Addr (v4_prefix @ v4_tail [10, 0, 0, 2]))"
proof -
  let ?a = "v4_prefix @ v4_tail [10, 0, 0, 1]" and ?b = "v4_prefix @ v4_tail [10, 0, 0, 2]"
  have ip: "is_v4 ?a" "groups_ok ?a" "is_v4 ?b" "groups_ok ?b"
    by (simp_all add: is_v4_tail) (simp_all add: v4_prefix_def v4_tail_def)
  obtain c d where
    "configured_client quiet_net (\<lambda>_. None) (\<lambda>_. Some (replicate 32 0)) (ds_Key (demo_server ?a)) (server_options (demo_server ?a)) () = (Inr c, ())"
    "configured_client quiet_net (\<lambda>_. None) (\<lambda>_. Some (replicate 32 0)) (ds_Key (demo_server ?b)) (server_options (demo_server ?b)) () = (Inr d, ())"
    using demo_server_client[OF ip(1,2)] demo_server_client[OF ip(3,4)] by blast
  then have run: "new_clients quiet_net (\<lambda>_. None) (\<lambda>_. Some (replicate 32 0)) [demo_server ?a, demo_server ?b] [] () = (Inr [(''edge'', d)], ())"
    unfolding new_clients.simps by (simp only: prod.case sum.case) (simp add: demo_server_def)
  have last: "last_named ''edge'' [demo_server ?a, demo_server ?b] = Some (demo_server ?b)" by (simp add: demo_server_def)
  have "\<exists>client. mget [(''edge'', d)] ''edge'' = Some client \<and> client_of (\<lambda>_. Some (replicate 32 0)) (demo_server ?b) client"
    using one_client_per_name[OF run, THEN conjunct2, THEN spec, of "''edge''"] unfolding last option.case .
  then have "cc_host (fst d) = Addr ?b"
    using ParseIP_String_v4[OF ip(3,4)] by (auto simp: client_of_def demo_server_def)
  moreover have "mget [(''edge'', d)] ''edge'' = Some d" by simp
  ultimately show ?thesis using run by (metis length_Cons list.size(3) One_nat_def)
qed

section \<open>What is dialled\<close>

text \<open>
  Which servers can be reached: the client of a server whose host is an IPv4 address dials exactly that address and
  port; the client of any other IPv6 address is created all the same, but never gets as far as dialling.
\<close>

theorem dialled_address:
  assumes "ParseIP (IP_String host) = Some ip"
    and "client_options lookup [WithHost (IP_String host), WithPort port] default_client = Inr cfg"
  shows "dialled lookup_port lookup_host cfg =
    (if is_v4 ip then map_option (\<lambda>p. IP_String ip @ '':'' @ decimal p) (lookup_port (TrimSpace port)) else None)"
proof -
  have ok: "length ip = 8" "groups_ok ip" using ParseIP_ok[OF assms(1)] by simp_all
  have cfg: "cc_host cfg = Addr ip" "cc_port cfg = TrimSpace port" "list_all is_decimal (TrimSpace port)"
    using assms by (auto simp: Let_def split: if_splits)
  have "set (TrimSpace port) \<inter> {CHR '':'', CHR ''['', CHR '']''} = {}"
    using cfg(3) is_decimal_dot by (auto simp: list_all_iff)
  then show ?thesis
    using resolve_literal[OF ok, of lookup_port lookup_host "TrimSpace port"] cfg
    by (auto simp: dialled_def option.map_comp comp_def intro: map_option_cong)
qed

lemma literal_client:
  assumes "is_v4 ip" "groups_ok ip"
  obtains cfg where "client_options (\<lambda>_. None) [WithHost (IP_String ip), WithPort ''53''] default_client = Inr cfg"
proof -
  have "TrimSpace ''53'' = ''53''" by (simp add: TrimSpace_def is_space_def)
  then show thesis
    using that by (simp add: ParseIP_String_v4[OF assms] is_decimal_def digits_from_def digit_value_def Let_def)
qed

theorem dialled_address_witness:
  "\<exists>cfg. client_options (\<lambda>_. None) [WithHost (IP_String (v4_prefix @ v4_tail [10, 0, 0, 1])), WithPort ''53''] default_client = Inr cfg \<and>
    dialled (\<lambda>_. Some 53) (\<lambda>_. None) cfg = Some (IP_String (v4_prefix @ v4_tail [10, 0, 0, 1]) @ '':'' @ decimal 53)"
proof -
  let ?ip = "v4_prefix @ v4_tail [10, 0, 0, 1]"
  have ip: "is_v4 ?ip" "groups_ok ?ip" by (simp_all add: is_v4_tail) (simp add: v4_prefix_def v4_tail_def)
  note parse = ParseIP_String_v4[OF ip]
  obtain cfg where cfg: "client_options (\<lambda>_. None) [WithHost (IP_String ?ip), WithPort ''53''] default_client = Inr cfg"
    by (rule literal_client[OF ip])
  have "dialled (\<lambda>_. Some 53) (\<lambda>_. None) cfg = Some (IP_String ?ip @ '':'' @ decimal 53)"
    unfolding dialled_address[OF parse cfg] using ip(1) by simp
  then show ?thesis using cfg by blast
qed

lemma decimal_byte_length: "n \<le> 255 \<Longrightarrow> 1 \<le> length (decimal n) \<and> length (decimal n) \<le> 3"
  by (erule decimal_byte) simp_all

lemma v4_text_length:
  assumes "is_v4 ip" "groups_ok ip"
  shows "7 \<le> length (IP_String ip) \<and> length (IP_String ip) \<le> 15"
proof (rule v4_shape[OF assms])
  fix fs
  assume fs: "length fs = 4" "list_all (\<lambda>g. g \<le> 255) fs" "IP_String ip = v4_text fs"
  obtain a b c d where abcd: "fs = [a, b, c, d]" using fs(1) by (auto simp: length_Suc_conv numeral_Bit0 numeral_Bit1)
  have "length (v4_text fs) = length (decimal a) + length (decimal b) + length (decimal c) + length (decimal d) + 3"
    by (simp add: v4_text_def abcd)
  then show ?thesis
    using decimal_byte_length[of a] decimal_byte_length[of b] decimal_byte_length[of c] decimal_byte_length[of d] fs(2,3)
    by (simp add: abcd)
qed

text \<open>
  A client for a host name does not reach the host: the option takes the text of the looked-up IPv4 address for the
  bytes of an address, and what is resolved instead is a question mark and the text in hexadecimal.
\<close>

theorem host_name_is_mangled:
  assumes "lookup name = Some (IP_String ip, rest)" "is_v4 ip" "groups_ok ip"
  shows "\<exists>cfg. client_options lookup [WithHostName name] default_client = Inr cfg \<and>
    host_String (cc_host cfg) = CHR ''?'' # hex_string (IP_String ip) \<and> dialled lookup_port (\<lambda>_. None) cfg = None"
proof -
  let ?cfg = "default_client\<lparr>cc_host := RawIP (IP_String ip)\<rparr>" and ?h = "CHR ''?'' # hex_string (IP_String ip)"
  have host: "host_String (cc_host ?cfg) = ?h" using v4_text_length[OF assms(2,3)] by auto
  have hex: "set (hex_string s) \<subseteq> set hex_chars" for s
  proof -
    have "hex_chars ! (n div 16) \<in> set hex_chars \<and> hex_chars ! (n mod 16) \<in> set hex_chars" if "n < 256" for n
      using that by (intro conjI nth_mem) (simp_all add: hex_chars_def less_mult_imp_div_less)
    then show ?thesis using nat_of_char_less_256 by (auto simp: hex_string_def)
  qed
  have "c \<notin> set ?h" if "c \<in> {CHR ''.'', CHR '':'', CHR ''%'', CHR ''['', CHR '']''}" for c
  proof -
    have "c \<notin> set hex_chars" "c \<noteq> CHR ''?''" using that by (auto simp: hex_chars_def)
    then show ?thesis using hex[of "IP_String ip"] by auto
  qed
  then have none: "set ?h \<inter> {CHR '':'', CHR ''['', CHR '']''} = {}"
    and drop: "dropWhile (\<lambda>x. x \<notin> {CHR ''.'', CHR '':'', CHR ''%''}) ?h = []"
    by (auto simp: dropWhile_eq_Nil_conv)
  have "ParseIP ?h = None" unfolding ParseIP_def drop by simp
  then have "ResolveTCPAddr lookup_port (\<lambda>_. None) (?h @ CHR '':'' # p) = None" for p
    using SplitHostPort_plain[OF none, of p] by (auto simp: ResolveTCPAddr_def split: Option.bind_split if_splits)
  then have "dialled lookup_port (\<lambda>_. None) ?cfg = None" unfolding dialled_def host by simp
  then show ?thesis using assms(1) host by (intro exI[of _ ?cfg]) (simp del: host_String.simps)
qed

theorem host_name_is_mangled_witness:
  "\<exists>cfg. client_options (\<lambda>_. Some (IP_String (v4_prefix @ v4_tail [10, 0, 0, 1]), [])) [WithHostName ''dns''] default_client = Inr cfg \<and>
    dialled (\<lambda>_. Some 53) (\<lambda>_. None) cfg = None"
proof -
  have "is_v4 (v4_prefix @ v4_tail [10, 0, 0, 1])" "groups_ok (v4_prefix @ v4_tail [10, 0, 0, 1])"
    by (simp_all add: is_v4_tail) (simp add: v4_prefix_def v4_tail_def)
  from host_name_is_mangled[where lookup = "\<lambda>_. Some (IP_String (v4_prefix @ v4_tail [10, 0, 0, 1]), [])" and
      name = "''dns''" and rest = "[]", OF refl this]
  show ?thesis by blast
qed

section \<open>Synchronisation over time\<close>

text \<open>A synchronisation does not change what is stored.\<close>

definition same_store :: "GSLBServiceGroup FileStore \<Rightarrow> GSLBServiceGroup FileStore \<Rightarrow> bool" where
  "same_store s s' \<longleftrightarrow> (file_inv s \<longrightarrow> file_inv s' \<and> file_map s' = file_map s)"

lemma same_store_trans: "same_store s s' \<Longrightarrow> same_store s' s'' \<Longrightarrow> same_store s s''"
  by (simp add: same_store_def)

lemma ReadAll_same_store: "same_store s (snd (spoof_ReadAll (file_ops []) s))"
  unfolding same_store_def by (metis ReadAll_wanted snd_conv)

lemma reconcile_same_store: "same_store s (fst (snd (reconcileServer co (file_ops []) data (s, c))))"
  using ReadAll_same_store[of s] by (auto simp: reconcileServer_def split: sum.splits prod.splits)

lemma synchronize_server_same_store: "same_store s (fst (synchronize_server digest co (file_ops []) h (s, c)))"
  using reconcile_same_store[of s co]
  by (auto simp: synchronize_server_def Let_def same_store_def[of s s] split: option.splits prod.splits)

lemma synchronize_each_same_store: "same_store s (fst (synchronize_each digest co (file_ops []) h s cs))"
proof (induction cs arbitrary: s)
  case (Cons c cs)
  obtain s1 c1 where 1: "synchronize_server digest co (file_ops []) h (s, c) = (s1, c1)" by fastforce
  obtain s2 cs2 where 2: "synchronize_each digest co (file_ops []) h s1 cs = (s2, cs2)" by fastforce
  show ?case
    using same_store_trans[of s s1 s2] synchronize_server_same_store[of s digest co h c] Cons[of s1] by (simp add: 1 2)
qed (simp add: same_store_def)

lemma synchronizeServers_same_store: "same_store s (fst (snd (synchronizeServers digest co (file_ops []) (s, cs))))"
proof -
  obtain gslb s1 where 1: "spoof_ReadAll (file_ops []) s = (gslb, s1)" by fastforce
  have "same_store s s1" using ReadAll_same_store[of s] 1 by simp
  moreover have "same_store s1 (fst (synchronize_each digest co (file_ops []) h s1 cs))" for h
    by (rule synchronize_each_same_store)
  ultimately show ?thesis
    using same_store_trans[of s s1] 1
    by (auto simp: synchronizeServers_def spoof_Hash_def split: sum.splits prod.splits)
qed

text \<open>
  C39. Synchronisation is stable: servers whose rules carry the names that the store asks for are left alone, minute
  after minute, until the updater stops; then all of them, and nothing else, are disconnected.
\<close>

theorem synchronised_servers_stay:
  assumes "file_inv s" "\<forall>c \<in> set cs. rules_in_sync co (wanted (file_map s)) c"
  shows "snd (Synchronize digest co disconnect (file_ops []) (replicate n Minute) (s, cs)) = cs \<and>
    snd (Synchronize digest co disconnect (file_ops []) (replicate n Minute @ SyncDone # evs) (s, cs)) = map disconnect cs"
  using assms
proof (induction n arbitrary: s)
  case (Suc n)
  obtain s1 where s1: "synchronizeServers digest co (file_ops []) (s, cs) = (Inr (), s1, cs)"
    using synchronizeServers_in_sync[OF Suc.prems] by blast
  then have "file_inv s1" "file_map s1 = file_map s"
    using synchronizeServers_same_store[of s digest co cs] Suc.prems(1) by (simp_all add: same_store_def)
  then show ?case using Suc.IH[of s1] Suc.prems(2) s1 by simp
qed simp

theorem synchronised_servers_stay_witness:
  "snd (Synchronize (\<lambda>ss. concat (map sp_IP ss)) printing_console (\<lambda>_. []) (file_ops []) [Minute, Minute, SyncDone]
     (m_store demo_manager, [[(''example:DC1'', ''10.0.0.1'')]])) = [[]]"
proof -
  have sync: "rules_in_sync printing_console {''example:DC1''} [(''example:DC1'', ''10.0.0.1'')]"
    using demo_rules_parsed by (simp add: rules_in_sync_def printing_console_def spoof_Key_def)
  have inv: "file_inv (m_store demo_manager)" using demo_store by simp
  have "\<forall>c \<in> set [[(''example:DC1'', ''10.0.0.1'')]]. rules_in_sync printing_console (wanted (file_map (m_store demo_manager))) c"
    using sync by (simp add: demo_wanted)
  from synchronised_servers_stay[OF inv this, of "\<lambda>ss. concat (map sp_IP ss)" "\<lambda>_. []" 2 "[]"]
  show ?thesis by (simp add: numeral_2_eq_2)
qed

text \<open>Each rule name is asked for once: no two active members of the store share one.\<close>

definition rule_keys :: "GSLBServiceGroup \<Rightarrow> string list" where
  "rule_keys g = map (\<lambda>x. spoof_Key (toSpoof x)) (filter gs_IsActive g)"

definition unique_rules :: "(string \<Rightarrow> GSLBServiceGroup option) \<Rightarrow> bool" where
  "unique_rules fm \<longleftrightarrow> (\<forall>k. distinct (rule_keys (group_in fm k))) \<and>
     (\<forall>j k. j \<noteq> k \<longrightarrow> set (rule_keys (group_in fm j)) \<inter> set (rule_keys (group_in fm k)) = {})"

lemma ReadAll_distinct:
  assumes "file_inv s" "unique_rules (file_map s)" "spoof_ReadAll (file_ops []) s = (Inr gslb, s')"
  shows "distinct (map spoof_Key gslb)"
proof -
  obtain ks where ks: "distinct ks" "set ks = dom (file_map s)"
    "fst (st_LoadAll (file_ops []) s) = Inr (map (\<lambda>k. the (file_map s k)) ks)"
    using fstore.LoadAll_ok[OF assms(1), of "[]"] by blast
  have in_group: "the (file_map s k) = group_in (file_map s) k" if "k \<in> set ks" for k
    using that ks(2) by (auto simp: group_in_def)
  have "map spoof_Key gslb = concat (map (\<lambda>k. rule_keys (the (file_map s k))) ks)"
    using assms(3) ks(3) by (cases "st_LoadAll (file_ops []) s")
      (auto simp: spoof_ReadAll_def active_spoofs_def map_concat rule_keys_def comp_def)
  also have "\<dots> = concat (map (\<lambda>k. rule_keys (group_in (file_map s) k)) ks)"
    using in_group by (metis (no_types, lifting) map_eq_conv)
  also have "distinct \<dots>"
  proof (insert ks(1), induction ks)
    case (Cons k ks)
    have "set (rule_keys (group_in (file_map s) k)) \<inter> set (rule_keys (group_in (file_map s) j)) = {}" if "j \<in> set ks" for j
      using that Cons.prems assms(2) unfolding unique_rules_def by (metis distinct.simps(2))
    then show ?case using Cons assms(2) by (auto simp: unique_rules_def)
  qed simp
  finally show ?thesis .
qed

definition readable :: "'c Console \<Rightarrow> ('c \<Rightarrow> string \<Rightarrow> string option) \<Rightarrow> 'c \<Rightarrow> bool" where
  "readable co tbl c \<longleftrightarrow> rules_in_sync co (dom (tbl c)) c"

definition collision_free :: "(Spoof list \<Rightarrow> string) \<Rightarrow> bool" where
  "collision_free digest \<longleftrightarrow> (\<forall>xs ys. digest xs = digest ys \<longrightarrow> spoof_Key ` set xs = spoof_Key ` set ys)"

text \<open>The rules of a server afterwards: the wanted names, each with the address it had before if it had one.\<close>

definition converged :: "('c \<Rightarrow> string \<Rightarrow> string option) \<Rightarrow> string set \<Rightarrow> 'c \<Rightarrow> 'c \<Rightarrow> bool" where
  "converged tbl names c c' \<longleftrightarrow> dom (tbl c') = names \<and> (\<forall>k ip. tbl c k = Some ip \<longrightarrow> tbl c' k \<in> {None, Some ip})"

lemma synchronize_server_converges:
  assumes "console_laws co tbl" "file_inv s" "unique_rules (file_map s)" "collision_free digest" "readable co tbl c"
    and "spoof_Key ` set gslb0 = wanted (file_map s)"
  shows "converged tbl (wanted (file_map s)) c (snd (synchronize_server digest co (file_ops []) (digest (sort_spoofs gslb0)) (s, c)))"
proof -
  obtain raw where raw: "co_Show co c = (Some raw, c)" "spoof_Key ` set (ParseRuleSet raw) = dom (tbl c)"
    using assms(5) by (auto simp: readable_def rules_in_sync_def)
  obtain gslb s' where r: "spoof_ReadAll (file_ops []) s = (Inr gslb, s')" "spoof_Key ` set gslb = wanted (file_map s)"
    by (rule ReadAll_wanted[OF assms(2)])
  show ?thesis
  proof (cases "digest (sort_spoofs (ParseRuleSet raw)) = digest (sort_spoofs gslb0)")
    case True
    then have "spoof_Key ` set (sort_spoofs (ParseRuleSet raw)) = spoof_Key ` set (sort_spoofs gslb0)"
      using assms(4) unfolding collision_free_def by blast
    then have "dom (tbl c) = wanted (file_map s)" using assms(6) raw(2) by simp
    then show ?thesis using True raw(1) by (simp add: synchronize_server_def converged_def)
  next
    case False
    obtain c' where c': "reconcileServer co (file_ops []) (sort_spoofs (ParseRuleSet raw)) (s, c) = (Inr (), s', c')"
      "tbl c' = (\<lambda>k. case map_of (map (\<lambda>x. (spoof_Key x, sp_IP x)) gslb) k of
        None \<Rightarrow> None | Some ip \<Rightarrow> (case tbl c k of None \<Rightarrow> Some ip | Some old \<Rightarrow> Some old))"
      using reconcile_table[OF assms(1) r(1) ReadAll_distinct[OF assms(2,3) r(1)], of c "sort_spoofs (ParseRuleSet raw)"] raw(2)
      unfolding set_sort_spoofs by blast
    have "dom (tbl c') = dom (map_of (map (\<lambda>x. (spoof_Key x, sp_IP x)) gslb))"
      unfolding c'(2) by (auto simp: dom_def split: option.splits)
    also have "\<dots> = wanted (file_map s)" using r(2) by (simp add: dom_map_of_conv_image_fst image_image)
    finally have "converged tbl (wanted (file_map s)) c c'"
      by (auto simp: converged_def c'(2) split: option.splits)
    then show ?thesis using False raw(1) c'(1) by (simp add: synchronize_server_def Let_def)
  qed
qed

lemma synchronize_each_converges:
  assumes "console_laws co tbl" "collision_free digest" "spoof_Key ` set gslb = names"
  shows "file_inv s \<Longrightarrow> unique_rules (file_map s) \<Longrightarrow> wanted (file_map s) = names \<Longrightarrow> \<forall>c \<in> set cs. readable co tbl c \<Longrightarrow>
    list_all2 (converged tbl names) cs (snd (synchronize_each digest co (file_ops []) (digest (sort_spoofs gslb)) s cs))"
proof (induction cs arbitrary: s)
  case (Cons c cs)
  let ?h = "digest (sort_spoofs gslb)"
  obtain s1 c1 where 1: "synchronize_server digest co (file_ops []) ?h (s, c) = (s1, c1)" by fastforce
  obtain s2 cs2 where 2: "synchronize_each digest co (file_ops []) ?h s1 cs = (s2, cs2)" by fastforce
  have "converged tbl names c c1"
    using synchronize_server_converges[OF assms(1) Cons.prems(1,2) assms(2), of c gslb] Cons.prems(3,4) assms(3) 1 by simp
  moreover have "file_inv s1" "file_map s1 = file_map s"
    using synchronize_server_same_store[of s digest co ?h c] Cons.prems(1) by (simp_all add: same_store_def 1)
  ultimately show ?case using Cons.IH[of s1] Cons.prems 2 by (simp add: 1)
qed simp


text \<open>A digest without collisions: the names written out, each letter marked.\<close>

definition marked :: "string \<Rightarrow> string" where
  "marked k = concat (map (\<lambda>c. [CHR ''1'', c]) k) @ ''0''"

definition written_out :: "Spoof list \<Rightarrow> string" where
  "written_out xs = concat (map (\<lambda>x. marked (spoof_Key x)) xs)"

lemma marked_inj: "marked k @ u = marked l @ v \<Longrightarrow> k = l \<and> u = v"
  by (induction k arbitrary: l) (case_tac l; auto simp: marked_def)+

lemma written_out_free: "collision_free written_out"
proof -
  have "written_out xs = written_out ys \<Longrightarrow> map spoof_Key xs = map spoof_Key ys" for xs ys
  proof (induction xs arbitrary: ys)
    case Nil
    then show ?case by (cases ys) (auto simp: written_out_def marked_def)
  next
    case (Cons x xs)
    then obtain y ys' where ys: "ys = y # ys'" by (cases ys) (auto simp: written_out_def marked_def)
    have "marked (spoof_Key x) @ written_out xs = marked (spoof_Key y) @ written_out ys'"
      using Cons.prems by (simp add: ys written_out_def)
    from marked_inj[OF this] Cons.IH[of ys'] show ?case by (simp add: ys)
  qed
  then show ?thesis unfolding collision_free_def by (metis list.set_map)
qed


end
