(* ===== verification/Restart.thy ===== *)
theory Restart
  imports ManagerProps
begin

text \<open>
  What survives a restart: \<^verbatim>\<open>OnShutdown\<close> of \<^verbatim>\<open>internal/manager/manager.go\<close> stores the state of every service, and
  \<^verbatim>\<open>BuildServiceOptions\<close> of the next process reads it back.
\<close>

section \<open>Storing the services\<close>

definition saved :: "services \<Rightarrow> (string \<Rightarrow> GSLBServiceGroup option) \<Rightarrow> string \<Rightarrow> sref \<Rightarrow> bool" where
  "saved h fm k r \<longleftrightarrow> (\<exists>x. member_in fm k (svc_id (h r)) = Some x \<and>
     gs_IsHealthy x = svc_isHealthy (h r) \<and> gs_FailureCount x = svc_failureCount (h r))"

lemma updated_member_simps [simp]:
  "gs_ID (updated_member fm old new) = gs_ID new" "gs_IsHealthy (updated_member fm old new) = gs_IsHealthy new"
  "gs_FailureCount (updated_member fm old new) = gs_FailureCount new"
  by (simp_all add: updated_member_def)

lemma Update_member:
  assumes "file_inv s" "fst (repo_Update (file_ops []) new s) = Inr ()"
  defines "s' \<equiv> snd (repo_Update (file_ops []) new s)"
  shows "file_inv s'" "\<exists>old. member_in (file_map s') (gs_MemberOf new) (gs_ID new) = Some (updated_member (file_map s) old new)"
    "sid \<noteq> gs_ID new \<Longrightarrow> member_in (file_map s') (gs_MemberOf new) sid = member_in (file_map s) (gs_MemberOf new) sid"
    "k \<noteq> gs_MemberOf new \<Longrightarrow> member_in (file_map s') k sid = member_in (file_map s) k sid"
proof -
  let ?g = "group_in (file_map s) (gs_MemberOf new)" and ?p = "\<lambda>x. gs_ID x = gs_ID new"
  note y = file_groups.Update_yields[OF assms(1), of new]
  obtain i where i: "IndexFunc ?p ?g = Some i" using y assms(2) by (cases "IndexFunc ?p ?g") (auto simp: yields_def)
  then have s': "file_inv s'" "file_map s' = (file_map s)(gs_MemberOf new \<mapsto> ?g[i := updated_member (file_map s) (?g ! i) new])"
    using y by (simp_all add: yields_def s'_def)
  then show "file_inv s'" "k \<noteq> gs_MemberOf new \<Longrightarrow> member_in (file_map s') k sid = member_in (file_map s) k sid"
    by (simp_all add: member_in_def)
  show "\<exists>old. member_in (file_map s') (gs_MemberOf new) (gs_ID new) = Some (updated_member (file_map s) old new)"
    using find_update_first[OF i] by (auto simp: s'(2) member_in_def)
  have "gs_ID (?g ! i) = gs_ID new" using i by (auto simp: IndexFunc_Some)
  then show "sid \<noteq> gs_ID new \<Longrightarrow> member_in (file_map s') (gs_MemberOf new) sid = member_in (file_map s) (gs_MemberOf new) sid"
    by (auto simp: s'(2) member_in_def intro: find_update_other)
qed

lemma shutdown_members_saved:
  assumes "me_ops env = file_ops []"
  shows "shutdown_members env k active svcs m = (None, m') \<Longrightarrow> file_inv (m_store m) \<Longrightarrow>
    \<forall>r \<in> set svcs. svc_MemberOf (m_heap m r) = k \<Longrightarrow> distinct (map (\<lambda>r. svc_id (m_heap m r)) svcs) \<Longrightarrow>
    m_heap m' = m_heap m \<and> file_inv (m_store m') \<and> (\<forall>r \<in> set svcs. saved (m_heap m) (file_map (m_store m')) k r) \<and>
    (\<forall>j sid. j \<noteq> k \<or> sid \<notin> (\<lambda>r. svc_id (m_heap m r)) ` set svcs \<longrightarrow>
      member_in (file_map (m_store m')) j sid = member_in (file_map (m_store m)) j sid)"
proof (induction svcs arbitrary: m)
  case (Cons r rs)
  let ?g = "(toGSLBService (m_heap m r))\<lparr>gs_IsActive := (case active of None \<Rightarrow> False | Some a \<Rightarrow> svc_id (m_heap m a) = svc_id (m_heap m r))\<rparr>"
  obtain ov s1 where s1: "repo_HasOverride (file_ops []) k (m_store m) = (Inr ov, s1)" "file_inv s1" "file_map s1 = file_map (m_store m)"
    using file_groups.HasOverride_yields[OF Cons.prems(2), of k]
    by (cases "repo_HasOverride (file_ops []) k (m_store m)") (auto simp: yields_def)
  let ?new = "?g\<lparr>gs_HasOverride := ov\<rparr>"
  obtain x s2 where u: "repo_Update (file_ops []) ?new s1 = (x, s2)" by fastforce
  then have "x = Inr ()" and rest: "shutdown_members env k active rs (m\<lparr>m_store := s2\<rparr>) = (None, m')"
    using Cons.prems(1) s1(1) by (auto simp: on_repo_eq assms Let_def split: sum.splits)
  then have s2: "repo_Update (file_ops []) ?new s1 = (Inr (), s2)" using u by simp
  have new: "gs_MemberOf ?new = k" "gs_ID ?new = svc_id (m_heap m r)" "gs_IsHealthy ?new = svc_isHealthy (m_heap m r)"
    "gs_FailureCount ?new = svc_failureCount (m_heap m r)"
    using Cons.prems(3) by (simp_all add: toGSLBService_def)
  note upd = Update_member[OF s1(2), of ?new, unfolded s2 fst_conv snd_conv, OF refl, unfolded new s1(3)]
  have IH: "m_heap m' = m_heap m" "file_inv (m_store m')" "\<forall>r \<in> set rs. saved (m_heap m) (file_map (m_store m')) k r"
    "\<forall>j sid. j \<noteq> k \<or> sid \<notin> (\<lambda>r. svc_id (m_heap m r)) ` set rs \<longrightarrow>
      member_in (file_map (m_store m')) j sid = member_in (file_map s2) j sid"
    using Cons.IH[OF rest] upd(1) Cons.prems(3,4) by simp_all
  have "svc_id (m_heap m r) \<notin> (\<lambda>r. svc_id (m_heap m r)) ` set rs" using Cons.prems(4) by simp
  then have "member_in (file_map (m_store m')) k (svc_id (m_heap m r)) = member_in (file_map s2) k (svc_id (m_heap m r))"
    using IH(4) by blast
  then have "saved (m_heap m) (file_map (m_store m')) k r" using upd(2) new by (auto simp: saved_def)
  moreover have "member_in (file_map s2) j sid = member_in (file_map (m_store m)) j sid"
    if "j \<noteq> k \<or> sid \<noteq> svc_id (m_heap m r)" for j sid
    using that upd(3)[of sid] upd(4)[of j sid] by (cases "j = k") auto
  ultimately show ?case using IH by auto
qed simp

definition group_filed :: "services \<Rightarrow> string \<times> ServiceGroup \<Rightarrow> bool" where
  "group_filed h = (\<lambda>(k, grp). (\<forall>r \<in> set (sg_Members grp). svc_MemberOf (h r) = k) \<and> distinct (map (\<lambda>r. svc_id (h r)) (sg_Members grp)))"

lemma shutdown_groups_saved:
  assumes "me_ops env = file_ops []"
  shows "shutdown_groups env gs m = Ok (None, m') \<Longrightarrow> file_inv (m_store m) \<Longrightarrow> keys_ok gs \<Longrightarrow>
    \<forall>g \<in> set gs. group_filed (m_heap m) g \<Longrightarrow>
    m_heap m' = m_heap m \<and> file_inv (m_store m') \<and>
    (\<forall>(k, grp) \<in> set gs. \<forall>r \<in> set (sg_Members grp). saved (m_heap m) (file_map (m_store m')) k r) \<and>
    (\<forall>j sid. j \<notin> fst ` set gs \<longrightarrow> member_in (file_map (m_store m')) j sid = member_in (file_map (m_store m)) j sid)"
proof (induction gs arbitrary: m)
  case (Cons g gs)
  obtain k grp where g: "g = (k, grp)" by fastforce
  obtain active where act: "(case shutdown_members env k active (sg_Members grp) m of
      (Some e, m) \<Rightarrow> Ok (Some e, m) | (None, m) \<Rightarrow> shutdown_groups env gs m) = Ok (None, m')"
    using Cons.prems(1) unfolding g shutdown_groups.simps bind_eq_Ok by blast
  obtain e m1 where "shutdown_members env k active (sg_Members grp) m = (e, m1)" by fastforce
  with act have m1: "shutdown_members env k active (sg_Members grp) m = (None, m1)" and rest: "shutdown_groups env gs m1 = Ok (None, m')"
    by (cases e, simp_all)+
  have members: "m_heap m1 = m_heap m" "file_inv (m_store m1)" "\<forall>r \<in> set (sg_Members grp). saved (m_heap m) (file_map (m_store m1)) k r"
    "\<forall>j sid. j \<noteq> k \<longrightarrow> member_in (file_map (m_store m1)) j sid = member_in (file_map (m_store m)) j sid"
    using shutdown_members_saved[OF assms m1 Cons.prems(2)] Cons.prems(4) by (auto simp: g group_filed_def)
  have IH: "m_heap m' = m_heap m" "file_inv (m_store m')"
    "\<forall>(k, grp) \<in> set gs. \<forall>r \<in> set (sg_Members grp). saved (m_heap m) (file_map (m_store m')) k r"
    "\<forall>j sid. j \<notin> fst ` set gs \<longrightarrow> member_in (file_map (m_store m')) j sid = member_in (file_map (m_store m1)) j sid"
    using Cons.IH[OF rest members(2)] Cons.prems(3,4) members(1) by simp_all
  have "k \<notin> fst ` set gs" using Cons.prems(3) g by simp
  then have "\<forall>r \<in> set (sg_Members grp). saved (m_heap m) (file_map (m_store m')) k r"
    using members(3) IH(4) by (simp add: saved_def)
  then show ?case using IH members(4) by (auto simp: g)
qed simp

section \<open>The next process\<close>

text \<open>The store of a process that opens the file of the last one.\<close>

definition reopened :: "GSLBServiceGroup FileStore \<Rightarrow> GSLBServiceGroup FileStore" where
  "reopened s = file_NewStore (fs_content s)"

lemma reopened_map: "file_inv s \<Longrightarrow> file_inv (reopened s) \<and> file_map (reopened s) = file_map s"
  by (auto simp: reopened_def file_inv_def file_map_def file_NewStore_def)

lemma BuildServiceOptions_saved:
  assumes "me_ops env = file_ops []" "file_inv (m_store m)" "member_in (file_map (m_store m)) (cfg_MemberOf cfg) (cfg_ServiceID cfg) = Some x"
  shows "fst (BuildServiceOptions env cfg m) =
    [WithDryRunChecks (m_dryrun m), WithFailureCount (gs_FailureCount x)] @ (if gs_IsHealthy x then [WithHealthy] else [])"
  using file_groups.GetMember_yields[OF assms(2), of "cfg_MemberOf cfg" "cfg_ServiceID cfg"] assms
  by (auto simp: BuildServiceOptions_def on_repo_eq yields_def Let_def split: sum.splits)

text \<open>
  C14. A restart loses no health: when the shutdown of the manager has stored its services without error, the next
  process, which opens the same file, starts each service of a group with the health and the failure counter it had,
  whatever the rest of its configuration is by then.
\<close>

theorem restart_restores_health:
  assumes "OnShutdown env m = Ok (None, m')" "me_ops env = file_ops []" "file_inv (m_store m)"
    and "keys_ok (m_groups m)" "\<forall>g \<in> set (m_groups m). group_filed (m_heap m) g"
    and "mget (m_groups m) k = Some grp" "r \<in> set (sg_Members grp)" "0 \<le> svc_failureCount (m_heap m r)"
    and "cfg_MemberOf cfg = k" "cfg_ServiceID cfg = svc_id (m_heap m r)"
    and "NewServiceFromGSLBConfig (me_net env) cfg
      (fst (BuildServiceOptions env cfg (NewManager dryrun (reopened (m_store m'))))) = Inr s"
  shows "svc_isHealthy s = svc_isHealthy (m_heap m r) \<and> svc_failureCount s = svc_failureCount (m_heap m r)"
proof -
  obtain m2 where m2: "shutdown_groups env (m_groups m) (m\<lparr>m_mutex := True\<rparr>) = Ok (None, m2)" "m' = m_unlock m2"
    using assms(1) by (auto simp: OnShutdown_def m_lock_def bind_eq_Ok split: if_splits)
  from shutdown_groups_saved[OF assms(2) m2(1)] assms(3-5)
  have groups: "file_inv (m_store m2)" "\<forall>(k, grp) \<in> set (m_groups m). \<forall>r \<in> set (sg_Members grp). saved (m_heap m) (file_map (m_store m2)) k r"
    by simp_all
  moreover have "(k, grp) \<in> set (m_groups m)" using assms(6) by (rule map_of_SomeD)
  moreover have "m_store m' = m_store m2" by (simp add: m2(2) m_unlock_def)
  ultimately obtain x where x: "member_in (file_map (m_store m')) k (svc_id (m_heap m r)) = Some x"
    "gs_IsHealthy x = svc_isHealthy (m_heap m r)" "gs_FailureCount x = svc_failureCount (m_heap m r)" "file_inv (m_store m')"
    using assms(7) by (fastforce simp: saved_def)
  let ?m = "NewManager dryrun (reopened (m_store m'))"
  have "fst (BuildServiceOptions env cfg ?m) =
      [WithDryRunChecks dryrun, WithFailureCount (gs_FailureCount x)] @ (if gs_IsHealthy x then [WithHealthy] else [])"
    using BuildServiceOptions_saved[OF assms(2), of ?m cfg x] reopened_map[OF x(4)] x(1) assms(9,10) by (simp add: NewManager_def)
  then show ?thesis
    using assms(11,8) x(2,3) by (auto simp: NewServiceFromGSLBConfig_def Let_def split: option.splits if_splits)
qed

text \<open>Storing succeeds for services that the store knows.\<close>

lemma shutdown_members_ok:
  assumes "me_ops env = file_ops []"
  shows "file_inv (m_store m) \<Longrightarrow> \<forall>r \<in> set svcs. svc_MemberOf (m_heap m r) = k \<Longrightarrow>
    \<forall>r \<in> set svcs. member_in (file_map (m_store m)) k (svc_id (m_heap m r)) \<noteq> None \<Longrightarrow>
    fst (shutdown_members env k active svcs m) = None"
proof (induction svcs arbitrary: m)
  case (Cons r rs)
  let ?g = "(toGSLBService (m_heap m r))\<lparr>gs_IsActive := (case active of None \<Rightarrow> False | Some a \<Rightarrow> svc_id (m_heap m a) = svc_id (m_heap m r))\<rparr>"
  obtain ov s1 where s1: "repo_HasOverride (file_ops []) k (m_store m) = (Inr ov, s1)" "file_inv s1" "file_map s1 = file_map (m_store m)"
    using file_groups.HasOverride_yields[OF Cons.prems(1), of k]
    by (cases "repo_HasOverride (file_ops []) k (m_store m)") (auto simp: yields_def)
  let ?new = "?g\<lparr>gs_HasOverride := ov\<rparr>"
  have new: "gs_MemberOf ?new = k" "gs_ID ?new = svc_id (m_heap m r)" using Cons.prems(2) by (simp_all add: toGSLBService_def)
  have "member_in (file_map s1) k (gs_ID ?new) \<noteq> None" using Cons.prems(3) s1(3) new(2) by simp
  then have "IndexFunc (\<lambda>x. gs_ID x = gs_ID ?new) (group_in (file_map s1) (gs_MemberOf ?new)) \<noteq> None"
    unfolding new(1) by (simp add: member_in_def find_IndexFunc split: option.splits)
  then have ok: "fst (repo_Update (file_ops []) ?new s1) = Inr ()"
    using file_groups.Update_yields[OF s1(2), of ?new] by (auto simp: yields_def split: option.splits)
  obtain s2 where s2: "repo_Update (file_ops []) ?new s1 = (Inr (), s2)" using ok by (metis prod.collapse)
  note upd = Update_member[OF s1(2) ok, unfolded s2 snd_conv new s1(3)]
  have "\<forall>r' \<in> set rs. member_in (file_map s2) k (svc_id (m_heap m r')) \<noteq> None"
    using Cons.prems(3) upd(2,3) by (metis list.set_intros(2) option.distinct(1))
  then have "fst (shutdown_members env k active rs (m\<lparr>m_store := s2\<rparr>)) = None" using Cons upd(1) by simp
  then show ?case using s1(1) s2 by (simp add: on_repo_eq assms Let_def)
qed simp

lemma demo_shutdown: "\<exists>m'. OnShutdown demo_menv demo_manager = Ok (None, m')"
proof -
  let ?m = "demo_manager\<lparr>m_mutex := True\<rparr>" and ?grp = "snd (hd (m_groups demo_manager))"
  have heap: "svc_MemberOf (queue_services r) = ''example''" for r by (simp add: queue_services_def blank_service_def)
  have "\<forall>r \<in> set (sg_Members ?grp). member_in (file_map (m_store demo_manager)) ''example'' (svc_id (queue_services r)) \<noteq> None"
    using demo_store(2) by (simp add: member_in_def demo_group_def toGSLBService_def queue_services_def demo_manager_def)
  then have "fst (shutdown_members demo_menv ''example'' None (sg_Members ?grp) ?m) = None"
    using demo_store(1) heap by (intro shutdown_members_ok) (simp_all add: demo_menv_def demo_manager_def)
  then obtain m1 where m1: "shutdown_members demo_menv ''example'' None (sg_Members ?grp) ?m = (None, m1)" by (metis prod.collapse)
  have m: "\<not> m_mutex demo_manager" "m_groups ?m = [(''example'', ?grp)]" by (simp_all add: demo_manager_def)
  have act: "GetActive (m_heap ?m) ?grp = Ok None" by (simp add: demo_manager_def GetActive_def sg_rlock_def)
  have "shutdown_groups demo_menv (m_groups ?m) ?m = Ok (None, m1)"
    unfolding m(2) shutdown_groups.simps bind_eq_Ok using act m1 by (metis (no_types, lifting) case_prod_conv option.case(1))
  then show ?thesis by (simp add: OnShutdown_def m_lock_def m(1))
qed

theorem restart_restores_health_witness:
  "\<exists>m' s. OnShutdown demo_menv demo_manager = Ok (None, m') \<and>
    NewServiceFromGSLBConfig demo_env (demo_cfg\<lparr>cfg_ServiceID := ''a''\<rparr>)
      (fst (BuildServiceOptions demo_menv (demo_cfg\<lparr>cfg_ServiceID := ''a''\<rparr>) (NewManager False (reopened (m_store m'))))) = Inr s \<and>
    svc_isHealthy s = svc_isHealthy (queue_services 0) \<and> svc_failureCount s = svc_failureCount (queue_services 0)"
proof -
  obtain m' where m': "OnShutdown demo_menv demo_manager = Ok (None, m')" using demo_shutdown by blast
  let ?cfg = "demo_cfg\<lparr>cfg_ServiceID := ''a''\<rparr>"
  obtain s where s: "NewServiceFromGSLBConfig (me_net demo_menv) ?cfg
      (fst (BuildServiceOptions demo_menv ?cfg (NewManager False (reopened (m_store m'))))) = Inr s"
    by (simp add: NewServiceFromGSLBConfig_def demo_cfg_def demo_env_def demo_menv_def Let_def)
  have "svc_isHealthy s = svc_isHealthy (m_heap demo_manager 0) \<and> svc_failureCount s = svc_failureCount (m_heap demo_manager 0)"
    by (rule restart_restores_health[OF m' _ demo_store(1) _ _ _ _ _ _ _ s, where k = "''example''" and
            grp = "snd (hd (m_groups demo_manager))"])
      (simp_all add: demo_menv_def demo_manager_def group_filed_def queue_services_def blank_service_def demo_cfg_def)
  then show ?thesis using m' s by (auto simp: demo_menv_def demo_manager_def)
qed

end
