(* ===== verification/CheckJob.thy ===== *)
theory CheckJob
  imports ManagerFrame WorkerPool
begin

text \<open>
  \<^verbatim>\<open>internal/manager/healthcheck\<close>, the options of \<^verbatim>\<open>internal/manager/options.go\<close> and what a worker of the pool
  does with a job: it checks the service, reports the result to it, and keeps the metrics. Times are in nanoseconds; a
  dry run draws its answer.
\<close>

section \<open>Options of the manager\<close>

record 's managerConfig =
  gc_MinRunningWorkers :: nat
  gc_NonBlockingBufferSize :: nat
  gc_DryRun :: bool
  gc_repo :: 's

datatype 's serviceManagerOption =
    WithMinRunningWorkers nat | WithNonBlockingBufferSize nat | WithDryRun bool | WithServiceRepository 's

fun manager_option :: "'s serviceManagerOption \<Rightarrow> 's managerConfig \<Rightarrow> 's managerConfig" where
  "manager_option (WithMinRunningWorkers n) cfg = cfg\<lparr>gc_MinRunningWorkers := n\<rparr>"
| "manager_option (WithNonBlockingBufferSize n) cfg = cfg\<lparr>gc_NonBlockingBufferSize := n\<rparr>"
| "manager_option (WithDryRun b) cfg = cfg\<lparr>gc_DryRun := b\<rparr>"
| "manager_option (WithServiceRepository repo) cfg = cfg\<lparr>gc_repo := repo\<rparr>"

text \<open>The manager and the pool it is given; \<open>memory\<close> is the repository that is used when no option gives one.\<close>

record HealthCheckJob =
  hj_Service :: sref
  hj_lastCheck :: int

definition NewManagerWith :: "'s \<Rightarrow> 's serviceManagerOption list \<Rightarrow> HealthCheckJob WorkerPool \<times> 's Manager" where
  "NewManagerWith memory opts =
     (let cfg = fold manager_option opts
            \<lparr>gc_MinRunningWorkers = 100, gc_NonBlockingBufferSize = 100, gc_DryRun = False, gc_repo = memory\<rparr>
      in (NewWorkerPool (gc_MinRunningWorkers cfg) (gc_NonBlockingBufferSize cfg), Manager.NewManager (gc_DryRun cfg) (gc_repo cfg)))"

section \<open>Jobs\<close>

definition NewJob :: "sref \<Rightarrow> HealthCheckJob" where
  "NewJob svc = \<lparr>hj_Service = svc, hj_lastCheck = 0\<rparr>"

text \<open>The observed durations in milliseconds, and the counter of results by labels and status.\<close>

record CheckMetrics =
  cm_durations :: "(string list \<times> int) list"
  cm_total :: "string list \<Rightarrow> string \<Rightarrow> nat"

definition labels :: "services \<Rightarrow> sref \<Rightarrow> string list" where
  "labels h r = [svc_MemberOf (h r), svc_Fqdn (h r), svc_Datacenter (h r)]"

text \<open>What a check meets: when it starts and ends, the times its checker records, and the answer of the network.\<close>

record check_run =
  cr_start :: int
  cr_end :: int
  cr_trip :: "int \<times> int"
  cr_probe :: probe

definition job_Execute ::
  "check_run \<Rightarrow> HealthCheckJob \<Rightarrow> services \<times> CheckMetrics \<Rightarrow> bool \<times> HealthCheckJob \<times> services \<times> CheckMetrics" where
  "job_Execute cr hj = (\<lambda>(h, mx).
     let r = hj_Service hj; hj = hj\<lparr>hj_lastCheck := cr_start cr\<rparr>;
         (s, ok) = Execute (cr_trip cr) (cr_probe cr) (h r); h = h(r := s);
         checkTimeMs = quot (cr_end cr - hj_lastCheck hj) 1000000
     in (ok, hj, h, mx\<lparr>cm_durations := cm_durations mx @ [(labels h r, checkTimeMs)]\<rparr>))"

definition counted :: "string list \<Rightarrow> string \<Rightarrow> CheckMetrics \<Rightarrow> CheckMetrics" where
  "counted ls st mx = mx\<lparr>cm_total := (cm_total mx)(ls := (cm_total mx ls)(st := Suc (cm_total mx ls st)))\<rparr>"

definition job_OnSuccess :: "'s MEnv \<Rightarrow> HealthCheckJob \<Rightarrow> 's Manager \<times> CheckMetrics \<Rightarrow> ('s Manager \<times> CheckMetrics) res" where
  "job_OnSuccess env hj = (\<lambda>(m, mx).
     bind (checkDone env (hj_Service hj) True m) (\<lambda>m'. Ok (m', counted (labels (m_heap m) (hj_Service hj)) ''success'' mx)))"

definition job_OnFailure :: "'s MEnv \<Rightarrow> HealthCheckJob \<Rightarrow> 's Manager \<times> CheckMetrics \<Rightarrow> ('s Manager \<times> CheckMetrics) res" where
  "job_OnFailure env hj = (\<lambda>(m, mx).
     bind (checkDone env (hj_Service hj) False m) (\<lambda>m'. Ok (m', counted (labels (m_heap m) (hj_Service hj)) ''failure'' mx)))"

text \<open>One job in the hands of a worker.\<close>

definition worker_job ::
  "'s MEnv \<Rightarrow> HealthCheckJob \<Rightarrow> check_run \<Rightarrow> 's Manager \<times> CheckMetrics \<Rightarrow> ('s Manager \<times> CheckMetrics) res" where
  "worker_job env hj cr = (\<lambda>(m, mx).
     let (ok, hj, h, mx) = job_Execute cr hj (m_heap m, mx); m = m\<lparr>m_heap := h\<rparr>
     in if \<not> ok then job_OnFailure env hj (m, mx) else job_OnSuccess env hj (m, mx))"

fun run_jobs ::
  "'s MEnv \<Rightarrow> (sref \<times> check_run) list \<Rightarrow> 's Manager \<times> CheckMetrics \<Rightarrow> ('s Manager \<times> CheckMetrics) res" where
  "run_jobs env [] mm = Ok mm"
| "run_jobs env ((r, cr) # jobs) mm = bind (worker_job env (NewJob r) cr mm) (run_jobs env jobs)"

text \<open>A dry run sleeps and fails when the generator draws zero out of ten.\<close>

definition dry_probe :: "nat \<Rightarrow> probe" where
  "dry_probe num = (if num = 0 then Unreachable False else Reached 200 True)"

lemma dry_run_check: "check_ok DryRun (dry_probe num) \<longleftrightarrow> num \<noteq> 0"
  by (simp add: dry_probe_def)

section \<open>What jobs change\<close>

lemma checkDone_heap:
  assumes "checkDone env r ok m = Ok m'"
  shows "only_intervals ((m_heap m)(r := on_result ok (m_heap m r))) (m_heap m')"
proof -
  obtain s callback where s: "(if ok then OnSuccess (m_heap m r) else OnFailure (m_heap m r)) = (s, callback)" by fastforce
  let ?m1 = "m\<lparr>m_heap := (m_heap m)(r := s)\<rparr>"
  have "only_intervals (m_heap ?m1) (m_heap m')"
  proof (cases callback)
    case None
    then show ?thesis using assms s by (simp add: checkDone_def Let_def)
  next
    case (Some healthy)
    then have "onHealthChange env r healthy ?m1 = Ok m'" using assms s by (simp add: checkDone_def split: if_splits)
    then obtain g g' m2 where g: "OnServiceHealthChange m_heap (handlePromotion env) r healthy g
        (snd (on_repo (repo_Update (me_ops env) (toGSLBService (m_heap ?m1 r))) ?m1)) = Ok (g', m2)" "m_heap m' = m_heap m2"
      by (auto simp: onHealthChange_def on_group_def bind_eq_Ok Let_def)
    have "only_intervals (m_heap (snd (on_repo (repo_Update (me_ops env) (toGSLBService (m_heap ?m1 r))) ?m1))) (m_heap m2)"
      using OnServiceHealthChange_world[OF g(1)]
    proof (elim disjE exE)
      fix ev assume "handlePromotion env ev (snd (on_repo (repo_Update (me_ops env) (toGSLBService (m_heap ?m1 r))) ?m1)) = Ok m2"
      from handlePromotion_frame[OF this] show ?thesis unfolding frame_def by blast
    qed simp
    then show ?thesis by (simp add: on_repo_eq g(2))
  qed
  moreover have "s = on_result ok (m_heap m r)" using s by (simp add: on_result_def split: if_splits)
  ultimately show ?thesis by simp
qed

text \<open>What a service shows of itself to its checks: recorded times and the interval are left out.\<close>

definition view :: "Service \<Rightarrow> bool \<times> int \<times> int \<times> string list \<times> (probe \<Rightarrow> bool)" where
  "view s = (svc_isHealthy s, svc_failureCount s, svc_FailureThreshold s,
     [svc_MemberOf s, svc_Fqdn s, svc_Datacenter s], check_ok (svc_checker s))"

lemma view_intervals: "only_intervals h h' \<Longrightarrow> view (h' r) = view (h r)"
proof -
  assume "only_intervals h h'"
  then have "h' r = (h r)\<lparr>svc_ScheduledInterval := svc_ScheduledInterval (h' r)\<rparr>" unfolding only_intervals_def by blast
  then obtain iv where "h' r = (h r)\<lparr>svc_ScheduledInterval := iv\<rparr>" by blast
  then show ?thesis by (simp add: view_def)
qed

lemma view_on_result: "view s = view s' \<Longrightarrow> view (on_result ok s) = view (on_result ok s')"
  by (auto simp: view_def on_result_def OnSuccess_def OnFailure_def Let_def)

lemma view_run_checks: "view s = view s' \<Longrightarrow> view (run_checks vs s) = view (run_checks vs s')"
proof (induction vs arbitrary: s s')
  case (Cons ok vs)
  from Cons.IH[OF view_on_result[OF Cons.prems]] show ?case by (simp add: run_checks_def)
qed (simp add: run_checks_def)

lemma on_result_Fqdn [simp]: "svc_Fqdn (on_result ok s) = svc_Fqdn s"
  by (simp add: on_result_def OnSuccess_def OnFailure_def Let_def)

lemma check_ok_recorded [simp]: "check_ok (record_check t c) = check_ok c"
proof (rule ext)
  fix p show "check_ok (record_check t c) p = check_ok c p" by (cases c; cases p) simp_all
qed

lemma view_executed: "Execute t p s = (s', ok) \<Longrightarrow> view s' = view s \<and> ok = check_ok (svc_checker s) p"
  by (auto simp: Execute_def Check_def view_def)

definition res_label :: "bool \<Rightarrow> string" where
  "res_label ok = (if ok then ''success'' else ''failure'')"

definition passes :: "services \<Rightarrow> sref \<Rightarrow> check_run \<Rightarrow> bool" where
  "passes h r cr = check_ok (svc_checker (h r)) (cr_probe cr)"

lemma worker_job_effect:
  assumes "worker_job env (NewJob r) cr (m, mx) = Ok (m', mx')"
  shows "view (m_heap m' q) = view (if q = r then on_result (passes (m_heap m) r cr) (m_heap m r) else m_heap m q)"
    and "cm_total mx' = cm_total (counted (labels (m_heap m) r) (res_label (passes (m_heap m) r cr)) mx)"
proof -
  obtain s ok where x: "Execute (cr_trip cr) (cr_probe cr) (m_heap m r) = (s, ok)" by fastforce
  note s = view_executed[OF x]
  let ?h = "(m_heap m)(r := s)"
  obtain mx1 where run: "(if \<not> ok then job_OnFailure env (\<lparr>hj_Service = r, hj_lastCheck = cr_start cr\<rparr>) (m\<lparr>m_heap := ?h\<rparr>, mx1)
      else job_OnSuccess env (\<lparr>hj_Service = r, hj_lastCheck = cr_start cr\<rparr>) (m\<lparr>m_heap := ?h\<rparr>, mx1)) = Ok (m', mx')"
    "cm_total mx1 = cm_total mx"
    using assms x by (auto simp: worker_job_def job_Execute_def NewJob_def Let_def)
  then have fin: "checkDone env r ok (m\<lparr>m_heap := ?h\<rparr>) = Ok m'" "mx' = counted (labels ?h r) (res_label ok) mx1"
    by (auto simp: job_OnFailure_def job_OnSuccess_def NewJob_def bind_eq_Ok res_label_def split: if_splits)
  have ok: "ok = passes (m_heap m) r cr" using s by (simp add: passes_def)
  show "view (m_heap m' q) = view (if q = r then on_result (passes (m_heap m) r cr) (m_heap m r) else m_heap m q)"
    using view_intervals[OF checkDone_heap[OF fin(1)], of q] s view_on_result[of s "m_heap m r" ok] by (simp add: ok)
  have "labels ?h r = labels (m_heap m) r" using s by (simp add: labels_def view_def)
  then show "cm_total mx' = cm_total (counted (labels (m_heap m) r) (res_label (passes (m_heap m) r cr)) mx)"
    using fin(2) run(2) ok by (simp add: counted_def)
qed

text \<open>The results of the jobs of a service.\<close>

definition verdicts :: "services \<Rightarrow> sref \<Rightarrow> (sref \<times> check_run) list \<Rightarrow> bool list" where
  "verdicts h r jobs = map (\<lambda>(q, cr). passes h q cr) (filter (\<lambda>(q, cr). q = r) jobs)"

lemma view_determines: "view s = view s' \<Longrightarrow> check_ok (svc_checker s) = check_ok (svc_checker s')"
  by (simp add: view_def)

lemma run_jobs_effect:
  "run_jobs env jobs (m, mx) = Ok (m', mx') \<Longrightarrow>
    view (m_heap m' r) = view (run_checks (verdicts (m_heap m) r jobs) (m_heap m r)) \<and>
    cm_total mx' ls st = cm_total mx ls st +
      length (filter (\<lambda>(q, cr). labels (m_heap m) q = ls \<and> res_label (passes (m_heap m) q cr) = st) jobs)"
proof (induction jobs arbitrary: m mx)
  case (Cons job jobs)
  obtain q cr where job: "job = (q, cr)" by fastforce
  obtain m1 mx1 where 1: "worker_job env (NewJob q) cr (m, mx) = Ok (m1, mx1)" and rest: "run_jobs env jobs (m1, mx1) = Ok (m', mx')"
    using Cons.prems unfolding job run_jobs.simps bind_eq_Ok split_paired_Ex by blast
  note eff = worker_job_effect[OF 1] and IH = Cons.IH[OF rest]
  have same: "check_ok (svc_checker (m_heap m1 p)) = check_ok (svc_checker (m_heap m p))"
    "labels (m_heap m1) p = labels (m_heap m) p" for p
    using eff(1)[of p] by (cases "p = q"; simp add: view_def labels_def)+
  then have v: "passes (m_heap m1) = passes (m_heap m)" by (simp add: passes_def fun_eq_iff)
  then have vs: "verdicts (m_heap m1) r jobs = verdicts (m_heap m) r jobs" by (simp add: verdicts_def)
  have "view (m_heap m' r) = view (run_checks (verdicts (m_heap m) r jobs) (if r = q then on_result (passes (m_heap m) q cr) (m_heap m q) else m_heap m r))"
    using IH view_run_checks[OF eff(1)[of r]] vs by simp
  also have "\<dots> = view (run_checks (verdicts (m_heap m) r (job # jobs)) (m_heap m r))"
    by (simp add: job verdicts_def run_checks_def)
  finally show ?case using IH eff(2) same(2) v by (simp add: job counted_def)
qed (simp add: verdicts_def run_checks_def)

text \<open>
  C18. Jobs drive health: after workers have run any jobs, of any services in any order, with whatever promotions
  they cause, the health and the failure counter of each service are what its own results alone make of them, a result being
  what its checker makes of the answer of the network; and for all labels the counters of successes and failures have
  grown by exactly the number of such results.
\<close>

theorem jobs_drive_health:
  assumes "run_jobs env jobs (m, mx) = Ok (m', mx')"
  shows "svc_isHealthy (m_heap m' r) = svc_isHealthy (run_checks (verdicts (m_heap m) r jobs) (m_heap m r)) \<and>
    svc_failureCount (m_heap m' r) = svc_failureCount (run_checks (verdicts (m_heap m) r jobs) (m_heap m r)) \<and>
    cm_total mx' ls st = cm_total mx ls st +
      length (filter (\<lambda>(q, cr). labels (m_heap m) q = ls \<and> res_label (passes (m_heap m) q cr) = st) jobs)"
  using run_jobs_effect[OF assms, of r ls st] by (simp add: view_def)

definition demo_run_of :: "probe \<Rightarrow> check_run" where
  "demo_run_of p = \<lparr>cr_start = 0, cr_end = 7000000, cr_trip = (0, 7000000), cr_probe = p\<rparr>"

definition no_metrics :: CheckMetrics where
  "no_metrics = \<lparr>cm_durations = [], cm_total = (\<lambda>_ _. 0)\<rparr>"

theorem jobs_drive_health_witness:
  "\<exists>m' mx'. run_jobs demo_menv [(0, demo_run_of (dry_probe 4)), (1, demo_run_of (dry_probe 0)), (0, demo_run_of (dry_probe 9))]
      (demo_manager, no_metrics) = Ok (m', mx') \<and>
    svc_failureCount (m_heap m' 0) = 1 \<and> svc_failureCount (m_heap m' 1) = 3 \<and>
    cm_total mx' [''example'', ''a.example'', ''DC1''] ''success'' = 2"
proof -
  let ?jobs = "[(0, demo_run_of (dry_probe 4)), (1, demo_run_of (dry_probe 0)), (0, demo_run_of (dry_probe 9))]"
  have heap: "m_heap demo_manager r = queue_services r" for r by (simp add: demo_manager_def)
  have "is_Ok (run_jobs demo_menv ?jobs (demo_manager, no_metrics))"
    by (simp add: worker_job_def job_Execute_def NewJob_def demo_run_of_def job_OnSuccess_def job_OnFailure_def checkDone_def
        heap queue_services_def blank_service_def Execute_def Check_def dry_probe_def OnSuccess_def OnFailure_def Let_def)
  then obtain m' mx' where run: "run_jobs demo_menv ?jobs (demo_manager, no_metrics) = Ok (m', mx')"
    by (cases "run_jobs demo_menv ?jobs (demo_manager, no_metrics)") auto
  have v: "passes queue_services r (demo_run_of (dry_probe n)) \<longleftrightarrow> n \<noteq> 0" for r n
    by (simp add: passes_def queue_services_def blank_service_def demo_run_of_def dry_run_check)
  have heaps: "m_heap demo_manager = queue_services" by (simp add: demo_manager_def)
  have labels: "labels queue_services r = [''example'', ''a.example'', ''DC1'']" for r
    by (simp add: labels_def queue_services_def blank_service_def)
  have verdicts: "verdicts queue_services 0 ?jobs = [True, True]" "verdicts queue_services 1 ?jobs = [False]"
    by (simp_all add: verdicts_def v)
  have "svc_failureCount (m_heap m' 0) = 1" "svc_failureCount (m_heap m' 1) = 3"
    using jobs_drive_health[OF run, of 0] jobs_drive_health[OF run, of 1] unfolding heaps verdicts
    by (simp_all add: run_checks_def on_result_def OnSuccess_def OnFailure_def queue_services_def blank_service_def Let_def)
  moreover have "cm_total mx' [''example'', ''a.example'', ''DC1''] ''success'' = 2"
    using jobs_drive_health[OF run, of 0 "[''example'', ''a.example'', ''DC1'']" "''success''"] unfolding heaps
    by (simp add: labels v res_label_def no_metrics_def)
  ultimately show ?thesis using run by blast
qed

text \<open>The options that \<^verbatim>\<open>main\<close> gives.\<close>

lemma main_manager:
  "NewManagerWith memory [WithMinRunningWorkers 80, WithNonBlockingBufferSize 50, WithServiceRepository store] =
    (NewWorkerPool 80 50, Manager.NewManager False store)"
  by (simp add: NewManagerWith_def)

text \<open>Running a check does not change what is scheduled.\<close>

definition executed :: "check_run \<Rightarrow> sref \<Rightarrow> 's Manager \<Rightarrow> 's Manager" where
  "executed cr r m = m\<lparr>m_heap := fst (snd (snd (job_Execute cr (NewJob r) (m_heap m, \<lparr>cm_durations = [], cm_total = (\<lambda>_ _. 0)\<rparr>))))\<rparr>"

lemma executed_schedule:
  assumes "schedule_ok m"
  shows "schedule_ok (executed cr r m)" "scheduled_ids (executed cr r m) = scheduled_ids m"
proof -
  obtain s ok where x: "Execute (cr_trip cr) (cr_probe cr) (m_heap m r) = (s, ok)" by fastforce
  then have e: "executed cr r m = m\<lparr>m_heap := (m_heap m)(r := s)\<rparr>"
    by (simp add: executed_def job_Execute_def NewJob_def Let_def)
  have "svc_id s = svc_id (m_heap m r)" "svc_MemberOf s = svc_MemberOf (m_heap m r)"
    "svc_ScheduledInterval s = svc_ScheduledInterval (m_heap m r)"
    using x by (auto simp: Execute_def Check_def)
  then have keeps: "schedule_is S ids n m \<Longrightarrow> schedule_is S ids n (executed cr r m)" for S ids n
    unfolding e by (intro sched_frame.checks)
  show "schedule_ok (executed cr r m)" "scheduled_ids (executed cr r m) = scheduled_ids m"
    using schedule_kept[OF assms keeps] by blast+
qed

end
