(* ===== verification/StoreKept.thy ===== *)
theory StoreKept
  imports DnsHandler RepoSpec Restart
begin

text \<open>
  The file store stays usable: no operation of the manager, no zone and no shutdown leaves a cache that disagrees with
  the file. Every call of the repository keeps \<open>file_inv\<close>, because the repository refines its specification; the manager
  changes the store by nothing else.
\<close>

section \<open>Calls of the repository\<close>

lemma snd_answering: "snd (answering f r s) = snd (r s)"
  by (simp add: answering_def rbind_def rreturn_def split: prod.split sum.split)

lemma run_call_inv: "file_inv s \<Longrightarrow> file_inv (snd (run_call (file_ops []) c s))"
  using file_groups.call_refines[of s c] by (simp add: yields_def)

lemma repo_calls_inv:
  assumes "file_inv s"
  shows "file_inv (snd (repo_Update (file_ops []) x s))" "file_inv (snd (repo_Create (file_ops []) x s))"
    "file_inv (snd (repo_Delete (file_ops []) k sid s))" "file_inv (snd (repo_UpdateOverride (file_ops []) ip x s))"
    "file_inv (snd (repo_RemoveOverrideFlag (file_ops []) k s))" "file_inv (snd (repo_GetActive (file_ops []) k s))"
    "file_inv (snd (repo_HasOverride (file_ops []) k s))" "file_inv (snd (repo_GetMemberInGroup (file_ops []) k sid s))"
  using run_call_inv[OF assms, of "CallUpdate x"] run_call_inv[OF assms, of "CallCreate x"]
    run_call_inv[OF assms, of "CallDelete k sid"] run_call_inv[OF assms, of "CallUpdateOverride ip x"]
    run_call_inv[OF assms, of "CallRemoveOverrideFlag k"] run_call_inv[OF assms, of "CallGetActive k"]
    run_call_inv[OF assms, of "CallHasOverride k"] run_call_inv[OF assms, of "CallGetMember k sid"]
  by (simp_all add: snd_answering)

section \<open>The manager\<close>

definition store_ok :: "GSLBServiceGroup FileStore Manager \<Rightarrow> bool" where
  "store_ok m \<longleftrightarrow> file_inv (m_store m)"

interpretation file_frame: manager_frame "env\<lparr>me_ops := file_ops []\<rparr>" UNIV store_ok for env
  by unfold_locales (simp_all add: store_ok_def repo_calls_inv)

lemma RegisterService_store:
  assumes "RegisterService env cfg m = Ok (res, m')" "me_ops env = file_ops []" "store_ok m"
  shows "store_ok m'"
proof -
  have env: "env\<lparr>me_ops := file_ops []\<rparr> = env" using assms(2) by simp
  note ff = file_frame.updateService_keeps[of env, unfolded env] file_frame.register_in_group_keeps[of env, unfolded env]
  have b: "store_ok (snd (BuildServiceOptions env cfg m))"
    using file_frame.BuildServiceOptions_keeps[of env cfg m, unfolded env] assms(3) by (cases "BuildServiceOptions env cfg m") simp
  show ?thesis
    using assms(1)
  proof (cases rule: RegisterService_cases)
    case (invalid e)
    then show ?thesis using b by (metis snd_conv)
  next
    case (known s m0 i iv old)
    then show ?thesis using b by (intro ff(1)[OF known(5)]) (simp_all add: store_ok_def)
  next
    case (refused s m0 e m2)
    then show ?thesis
      using b assms(2) repo_calls_inv(2)[of "m_store m0" "toGSLBService s"] by (auto simp: store_ok_def on_repo_eq m_unlock_def)
  next
    case (new s m0 m2 m3 m4)
    have "store_ok m2"
      using b new(2,5) assms(2) repo_calls_inv(2)[of "m_store m0" "toGSLBService s"] by (auto simp: store_ok_def on_repo_eq)
    then have "store_ok (m2\<lparr>m_heap := (m_heap m2)(m_next m0 := SetHealthChangeCallback s)\<rparr>)" by (simp add: store_ok_def)
    then have "store_ok m3" using new(6) file_frame.newScheduler_keeps file_frame.schedule_on_keeps by metis
    then have "store_ok m4"
      by (intro ff(2)[OF new(7)]) (simp add: store_ok_def newServiceGroup_def)
    then show ?thesis using new(8) by (simp add: file_frame.unlock)
  qed
qed

lemma RemoveService_store:
  assumes "RemoveService env sid m = Ok (e, m')" "me_ops env = file_ops []" "store_ok m"
  shows "store_ok m'"
  using assms(1)
proof (cases rule: RemoveService_cases)
  case unknown
  then show ?thesis using assms(3) by simp
next
  case (known i iv r b1 m1 b2 m2 m3 m4)
  have env: "env\<lparr>me_ops := file_ops []\<rparr> = env" using assms(2) by simp
  have "store_ok m2"
    using file_frame.unschedule_on_keeps[OF known(2) assms(3)] known(3) file_frame.remove_from_group_keeps[of env, unfolded env] by blast
  then have "store_ok m3" using known(4) by (auto elim: file_frame.deleteGroup_keeps split: if_splits)
  then have "store_ok m4" using file_frame.lock[OF known(5)] by blast
  then show ?thesis using known(6) assms(2) by (simp add: store_ok_def on_repo_eq m_unlock_def repo_calls_inv)
qed

lemma checkDone_store:
  assumes "checkDone env r ok m = Ok m'" "me_ops env = file_ops []" "store_ok m"
  shows "store_ok m'"
proof -
  have "env\<lparr>me_ops := file_ops []\<rparr> = env" using assms(2) by simp
  then show ?thesis using file_frame.checkDone_keeps[of env r ok m m'] assms(1,3) by simp
qed

section \<open>The handler and the shutdown\<close>

lemma handleRecord_store:
  assumes "handleRecord env decode r m = Ok (svc, m')" "me_ops env = file_ops []" "store_ok m"
  shows "store_ok m'"
proof (cases "record_config decode r")
  case None
  then have "m' = m" using assms(1) by (auto simp: handleRecord_def split: RR.splits list.splits option.splits)
  then show ?thesis using assms(3) by simp
next
  case (Some cfg)
  obtain res where "RegisterService env cfg m = Ok (res, m')" by (rule handleRecord_registers[OF assms(1) Some])
  then show ?thesis by (rule RegisterService_store) (use assms in simp_all)
qed

lemma register_batch_store:
  assumes "me_ops env = file_ops []"
  shows "register_batch env decode rs batch m = Ok (batch', m') \<Longrightarrow> store_ok m \<Longrightarrow> store_ok m'"
proof (induction rs arbitrary: batch m)
  case (Cons r rs)
  obtain svc m1 where r: "handleRecord env decode r m = Ok (svc, m1)"
    and rs: "register_batch env decode rs
      (case svc of None \<Rightarrow> batch | Some svc \<Rightarrow> List.insert (svc_id (m_heap m1 svc)) batch) m1 = Ok (batch', m')"
    using Cons.prems(1) unfolding register_batch.simps bind_eq_Ok split_paired_Ex prod.case by blast
  show ?case by (rule Cons.IH[OF rs handleRecord_store[OF r assms Cons.prems(2)]])
qed simp

lemma remove_missing_store:
  assumes "me_ops env = file_ops []"
  shows "remove_missing env batch keys m = Ok m' \<Longrightarrow> store_ok m \<Longrightarrow> store_ok m'"
proof (induction keys arbitrary: m)
  case (Cons key keys)
  then show ?case
    by (cases "key \<in> set batch") (auto simp: bind_eq_Ok dest: RemoveService_store[OF _ assms])
qed simp

lemma handleZoneUpdates_store:
  assumes "handleZoneUpdates env decode ev h m = Ok (h', m')" "me_ops env = file_ops []" "store_ok m"
  shows "store_ok m'"
  using assms
  by (cases ev) (auto simp: handleZoneUpdates_def bind_eq_Ok split: if_splits
      dest: register_batch_store[OF assms(2)] remove_missing_store[OF assms(2)])

lemma shutdown_members_store:
  assumes "me_ops env = file_ops []"
  shows "store_ok m \<Longrightarrow> store_ok (snd (shutdown_members env k active svcs m))"
proof (induction svcs arbitrary: m)
  case (Cons r rs)
  show ?case
    using Cons by (simp add: Let_def on_repo_eq assms store_ok_def repo_calls_inv split: sum.split)
qed simp

lemma shutdown_groups_store:
  assumes "me_ops env = file_ops []"
  shows "shutdown_groups env gs m = Ok (e, m') \<Longrightarrow> store_ok m \<Longrightarrow> store_ok m'"
proof (induction gs arbitrary: m)
  case (Cons g gs)
  obtain k grp where g: "g = (k, grp)" by fastforce
  obtain active where act: "(case shutdown_members env k active (sg_Members grp) m of
      (Some e, m) \<Rightarrow> Ok (Some e, m) | (None, m) \<Rightarrow> shutdown_groups env gs m) = Ok (e, m')"
    using Cons.prems(1) unfolding g shutdown_groups.simps bind_eq_Ok by blast
  have "store_ok (snd (shutdown_members env k active (sg_Members grp) m))" by (rule shutdown_members_store[OF assms Cons.prems(2)])
  then show ?case
    using act Cons.IH by (cases "shutdown_members env k active (sg_Members grp) m") (auto split: option.splits)
qed simp

lemma manager_Stop_store:
  assumes "manager_Stop env m = Ok m'" "me_ops env = file_ops []" "store_ok m"
  shows "store_ok m'"
  using assms(1,3)
  by (auto simp: manager_Stop_def OnShutdown_def bind_eq_Ok m_lock_Ok m_unlock_def store_ok_def split: if_splits
      dest!: shutdown_groups_store[OF assms(2), unfolded store_ok_def])

end
