(* ===== verification/ApiFrame.thy ===== *)
theory ApiFrame
  imports Api StoreKept
begin

text \<open>
  What requests can change: no handler touches anything of the manager but its store, and a usable file store stays
  usable.
\<close>

section \<open>The store after a request\<close>

definition kept :: "GSLBServiceGroup FileStore MEnv \<Rightarrow> GSLBServiceGroup FileStore Manager \<Rightarrow> GSLBServiceGroup FileStore Manager \<Rightarrow> bool" where
  "kept env m m' \<longleftrightarrow> m' = m\<lparr>m_store := m_store m'\<rparr> \<and> (me_ops env = file_ops [] \<and> store_ok m \<longrightarrow> store_ok m')"

definition store_only :: "GSLBServiceGroup FileStore MEnv \<Rightarrow> GSLBServiceGroup FileStore Manager \<Rightarrow>
    (int \<times> GSLBServiceGroup FileStore Manager) res \<Rightarrow> bool" where
  "store_only env m r \<longleftrightarrow> (\<forall>code m'. r = Ok (code, m') \<longrightarrow> kept env m m')"

lemma store_onlyI [intro]: "(\<And>code m'. r = Ok (code, m') \<Longrightarrow> kept env m m') \<Longrightarrow> store_only env m r"
  unfolding store_only_def by blast

lemma kept_same [simp]: "kept env m m"
  by (simp add: kept_def)

lemma store_only_same [simp]: "store_only env m (Ok (code, m))" "store_only env m (Panic x)"
  "store_only env m (Ok (code, m')) \<longleftrightarrow> kept env m m'"
  by (simp_all add: store_only_def)

lemma kept_stores [simp]:
  "kept env m (m\<lparr>m_store := s\<rparr>) \<longleftrightarrow> (me_ops env = file_ops [] \<and> file_inv (m_store m) \<longrightarrow> file_inv s)"
  by (simp add: kept_def store_ok_def)

lemma on_repo_case_kept:
  assumes "(case on_repo f m1 of (Inl e, m) \<Rightarrow> Ok (Inl (g e), m) | (Inr _, m) \<Rightarrow> Ok (Inr (), m)) = Ok (x, m')"
  shows "m' = m1\<lparr>m_store := snd (f (m_store m1))\<rparr>"
  using assms by (cases "fst (f (m_store m1))") (auto simp: on_repo_eq)

lemma newOverride_kept: "newOverride env ov m = (x, m') \<Longrightarrow> kept env m m'"
  by (auto simp: newOverride_def on_repo_eq Let_def repo_calls_inv split: sum.splits if_splits)

lemma updateOverride_kept: "updateOverride env ov m = (x, m') \<Longrightarrow> kept env m m'"
  by (auto simp: updateOverride_def on_repo_eq Let_def repo_calls_inv split: sum.splits if_splits)

lemma deleteOverride_kept: "deleteOverride env ov m = Ok (x, m') \<Longrightarrow> kept env m m'"
  by (cases "fst (repo_GetActive (me_ops env) (ov_MemberOf ov) (m_store m))";
      cases "fst (repo_RemoveOverrideFlag (me_ops env) (ov_MemberOf ov) (snd (repo_GetActive (me_ops env) (ov_MemberOf ov) (m_store m))))")
    (auto simp: deleteOverride_def on_repo_eq[of _ m] on_repo_eq[of "repo_RemoveOverrideFlag ops k" for ops k] Let_def bind_eq_Ok repo_calls_inv
      split: if_splits dest!: on_repo_case_kept)

lemma reads_inv:
  assumes "file_inv s"
  shows "file_inv (snd (spoof_ReadAll (file_ops []) s))" "file_inv (snd (spoof_Read (file_ops []) k s))"
  using fstore.LoadAll_inv[OF assms, of "[]"] fstore.Load_inv[OF assms, of "[]" k]
  by (auto simp: spoof_ReadAll_def spoof_Read_def split: sum.splits prod.splits option.splits)

lemma GetSpoofs_kept: "GetSpoofs env q m = Ok (x, m') \<Longrightarrow> kept env m m'"
  using reads_inv(1)[of "m_store m"]
  by (cases "spoof_ReadAll (me_ops env) (m_store m)"; cases "fst (spoof_ReadAll (me_ops env) (m_store m))")
    (auto simp: GetSpoofs_def bind_eq_Ok Let_def split: option.splits)

lemma run_handler_frame: "store_only (ap_env ap) m (run_handler ap h var r m)"
proof (cases h)
  case HFailover
  then show ?thesis by (simp add: FailoverService_def split: option.split)
next
  case HGetSpoofs
  have "store_only (ap_env ap) m (bind (GetSpoofs (ap_env ap) q m) (\<lambda>((code, _), m). Ok (int code, m)))" for q
    by (rule store_onlyI) (auto simp: bind_eq_Ok dest: GetSpoofs_kept)
  then show ?thesis using HGetSpoofs by simp
next
  case HGetFQDNSpoof
  then show ?thesis
    using reads_inv(2)[of "m_store m" var]
    by (cases "spoof_Read (me_ops (ap_env ap)) var (m_store m)"; cases "fst (spoof_Read (me_ops (ap_env ap)) var (m_store m))")
      (auto simp: GetFQDNSpoof_def)
next
  case HGetSpoofsHash
  then show ?thesis
    using reads_inv(1)[of "m_store m"]
    by (cases "spoof_ReadAll (me_ops (ap_env ap)) (m_store m)"; cases "fst (spoof_ReadAll (me_ops (ap_env ap)) (m_store m))")
      (auto simp: GetSpoofsHash_def)
next
  case HGetOverride
  then show ?thesis by (simp add: GetOverride_def on_repo_eq repo_calls_inv split: sum.split)
next
  case HUpdateOverride
  obtain code m' where "UpdateOverride (ap_env ap) (hq_Override r) m = (code, m')" by fastforce
  moreover from this have "kept (ap_env ap) m m'"
    by (cases "hq_Override r") (auto simp: UpdateOverride_def dest: updateOverride_kept split: prod.splits)
  ultimately show ?thesis using HUpdateOverride by auto
next
  case HCreateOverride
  obtain code m' where "CreateOverride (ap_env ap) (hq_Override r) m = (code, m')" by fastforce
  moreover from this have "kept (ap_env ap) m m'"
    by (cases "hq_Override r") (auto simp: CreateOverride_def dest: newOverride_kept split: prod.splits)
  ultimately show ?thesis using HCreateOverride by auto
next
  case HDeleteOverride
  have "store_only (ap_env ap) m (bind (DeleteOverride (ap_env ap) body m) (\<lambda>(code, m). Ok (int code, m)))" for body
    by (rule store_onlyI) (auto simp: DeleteOverride_def bind_eq_Ok dest: deleteOverride_kept split: option.splits)
  then show ?thesis using HDeleteOverride by simp
next
  case HMetrics
  then show ?thesis by simp
qed

lemma ServeHTTP_frame: "store_only (ap_env ap) m (ServeHTTP ap r m)"
proof (cases "find_route (hq_Method r) (hq_Path r)")
  case None
  then show ?thesis by (simp add: ServeHTTP_def)
next
  case (Some rt)
  have "ServeHTTP ap r m = (let r' = if rt_logged rt then identified ap r else r in
      if rt_auth rt then token_middleware (ap_auth ap) (run_handler ap (rt_handler rt) (wildcard (rt_segs rt) (hq_Path r))) r' m
      else run_handler ap (rt_handler rt) (wildcard (rt_segs rt) (hq_Path r)) r' m)"
    using Some all_logged[OF Some]
    by (simp add: ServeHTTP_def route_handler_def Chain_def WithIncomingRequestLogging_def token_middleware_def)
  moreover have "store_only (ap_env ap) m (token_middleware ae (run_handler ap h var) r' m)" for ae h var r'
    using run_handler_frame[of ap m h var r']
    by (cases "WithTokenValidation (ae_parse ae) (ae_mgrInstance ae) (ae_now ae) (hq_Authorization r') (hq_Method r') (URL_String r')")
      (simp_all add: token_middleware_def split: outcome.split)
  ultimately show ?thesis using run_handler_frame by (cases "rt_auth rt"; cases "rt_logged rt") (simp_all only: Let_def if_True if_False)
qed

text \<open>
  A handler that panics has by then written nothing, read the spoofs into the cache, or removed the flag of the
  override.
\<close>

definition panic_stores :: "'s ApiEnv \<Rightarrow> HttpRequest \<Rightarrow> 's \<Rightarrow> 's list" where
  "panic_stores ap r s =
     (let ops = me_ops (ap_env ap)
      in [s, snd (spoof_ReadAll ops s)] @
         (case hq_Override r of
            None \<Rightarrow> []
          | Some ov \<Rightarrow> [snd (repo_RemoveOverrideFlag ops (ov_MemberOf ov) (snd (repo_GetActive ops (ov_MemberOf ov) s)))]))"

lemma panic_stores_inv:
  "s' \<in> set (panic_stores ap r s) \<Longrightarrow> me_ops (ap_env ap) = file_ops [] \<Longrightarrow> file_inv s \<Longrightarrow> file_inv s'"
  by (auto simp: panic_stores_def Let_def reads_inv repo_calls_inv split: option.splits)

end
