(* ===== verification/OperatorProcess.thy ===== *)
theory OperatorProcess
  imports Polling DnsServers LuaChecks ApiFrame CheckJob
begin

text \<open>
  \<^verbatim>\<open>cmd/main.go\<close>: how the parts are put together, and the process from its start to its end. The machine is what
  the process finds: files and environment, what the script of the sandbox does, the store file, the network and the
  parameters of the parts. The rules of the dnsdist servers are outside of the process.
\<close>

section \<open>The start\<close>

record ('w, 'c) Machine =
  mc_ext :: Ext
  mc_sandbox :: "string \<Rightarrow> bool"
  mc_cpus :: nat
  mc_open :: "string \<Rightarrow> GSLBServiceGroup file_content option"
  mc_net :: "'w Net"
  mc_lookup :: "string \<Rightarrow> (string \<times> string list) option"
  mc_base64 :: "string \<Rightarrow> byte list option"
  mc_json :: "string \<Rightarrow> DNSDISTServer list option"
  mc_console_of :: "ClientConfig \<times> Client \<Rightarrow> 'c"
  mc_console :: "'c Console"
  mc_digest :: "Spoof list \<Rightarrow> string"
  mc_sign :: signer
  mc_now :: int
  mc_issued :: int

text \<open>What is set up once, and what runs: where \<^verbatim>\<open>main\<close> is, and the handler with its poller and manager.\<close>

record 'c Parts =
  pt_config :: Config
  pt_log :: log_handler
  pt_bucket :: Bucket
  pt_clients :: "(string \<times> 'c) list"
  pt_tokens :: "TokenManager option"
  pt_addr :: string
  pt_pool :: "HealthCheckJob WorkerPool"

datatype fatal = ConfigNotLoaded | SandboxNotLoaded | StoreNotOpened | UpdaterNotCreated updater_error | ServerCrashed

datatype main_pc = Selecting | StoppingHandler | ShuttingServer | Returned | ExitedWith fatal | Panicked

record Process =
  ps_pc :: main_pc
  ps_poll :: "GSLBServiceGroup FileStore Poll"

definition store_path :: string where "store_path = ''./data/store.json''"

text \<open>
  The memory store that the manager would use without the option for the repository is never used: \<open>store\<close> stands for it.
  The start ends with the reason that is logged when the process exits, or with the running process.
\<close>

definition main_start :: "('w, 'c) Machine \<Rightarrow> 'w \<Rightarrow> (fatal + 'c Parts \<times> Process) res" where
  "main_start mc w =
     (case newConfig (mc_ext mc) of
        None \<Rightarrow> Ok (Inl ConfigNotLoaded)
      | Some cfg \<Rightarrow>
          if \<not> mc_sandbox mc (LuaSandbox cfg) then Ok (Inl SandboxNotLoaded)
          else
            (case mc_open mc store_path of
               None \<Rightarrow> Ok (Inl StoreNotOpened)
             | Some content \<Rightarrow>
                 (case NewDNSDISTUpdater (mc_net mc) (mc_lookup mc) (mc_base64 mc) (mc_json mc) (mc_console_of mc)
                      (mc_digest mc) (mc_console mc) (file_ops []) (ReadFile (mc_ext mc) (Servers cfg)) (file_NewStore content) w of
                    (Inl e, _) \<Rightarrow> Ok (Inl (UpdaterNotCreated e))
                  | (Inr clients, store, _) \<Rightarrow>
                      let (pool, mgr) = NewManagerWith store
                            [WithMinRunningWorkers 80, WithNonBlockingBufferSize 50, WithServiceRepository store]
                      in bind (handler_Start (NewZoneFetcherWithAutoPoll cfg []) mgr) (\<lambda>poll.
                        Ok (Inr (\<lparr>pt_config = cfg, pt_log = init_handler cfg, pt_bucket = LoadSandboxConfig (mc_cpus mc),
                              pt_clients = clients, pt_tokens = main_tokens (mc_sign mc) (mc_now mc) (mc_issued mc) cfg,
                              pt_addr = Port cfg, pt_pool = pool_Start pool\<rparr>,
                            \<lparr>ps_pc = Selecting, ps_poll = poll\<rparr>))))))"

section \<open>The process\<close>

definition on_manager :: "(GSLBServiceGroup FileStore Manager \<Rightarrow> GSLBServiceGroup FileStore Manager) \<Rightarrow> Process \<Rightarrow> Process" where
  "on_manager f s = s\<lparr>ps_poll := (ps_poll s)\<lparr>po_manager := f (po_manager (ps_poll s))\<rparr>\<rparr>"

definition alive :: "Process \<Rightarrow> bool" where
  "alive s \<longleftrightarrow> ps_pc s \<in> {Selecting, StoppingHandler, ShuttingServer}"

text \<open>
  The goroutines of the handler work on while the shutdown goes its way, which only a signal starts. Requests are
  served until the process is over; one that panics is dropped by the HTTP server and leaves one
  of \<open>panic_stores\<close>. A synchronisation reads the store, whatever the servers answer. The twenty seconds
  that \<^verbatim>\<open>Stop\<close> is given may pass at any time. The checks of the workers run and, as steps of the poller's relation, report.
\<close>

inductive main_step ::
  "GSLBServiceGroup FileStore ApiEnv \<Rightarrow> 'c Console \<Rightarrow> decoder \<Rightarrow> (nat \<Rightarrow> transfer_event list option) \<Rightarrow> Process \<Rightarrow> Process \<Rightarrow> bool"
  for ap co decode server where
  work: "alive s \<Longrightarrow> poll_step (ap_env ap) decode server (ps_poll s) p \<Longrightarrow>
    po_shutdown p = po_shutdown (ps_poll s) \<or> ps_pc s \<noteq> Selecting \<Longrightarrow>
    main_step ap co decode server s (s\<lparr>ps_poll := p\<rparr>)"
| execute: "alive s \<Longrightarrow> main_step ap co decode server s (on_manager (executed cr r) s)"
| request: "alive s \<Longrightarrow> ServeHTTP (ap\<lparr>ap_auth := (ap_auth ap)\<lparr>ae_now := now\<rparr>\<rparr>) r (po_manager (ps_poll s)) = Ok (code, m) \<Longrightarrow>
    main_step ap co decode server s (on_manager (\<lambda>_. m) s)"
| request_panics: "alive s \<Longrightarrow> ServeHTTP (ap\<lparr>ap_auth := (ap_auth ap)\<lparr>ae_now := now\<rparr>\<rparr>) r (po_manager (ps_poll s)) = Panic x \<Longrightarrow>
    store \<in> set (panic_stores ap r (m_store (po_manager (ps_poll s)))) \<Longrightarrow>
    main_step ap co decode server s (on_manager (\<lambda>m. m\<lparr>m_store := store\<rparr>) s)"
| synchronise: "alive s \<Longrightarrow> po_shutdown (ps_poll s) = Serving \<Longrightarrow>
    synchronizeServers (ap_digest ap) co (me_ops (ap_env ap)) (m_store (po_manager (ps_poll s)), cs) = (res, store, cs') \<Longrightarrow>
    main_step ap co decode server s (on_manager (\<lambda>m. m\<lparr>m_store := store\<rparr>) s)"
| server_failed: "ps_pc s = Selecting \<Longrightarrow> main_step ap co decode server s (s\<lparr>ps_pc := ExitedWith ServerCrashed\<rparr>)"
| quit: "ps_pc s = Selecting \<Longrightarrow> main_step ap co decode server s (s\<lparr>ps_pc := StoppingHandler\<rparr>)"
| stopped: "ps_pc s = StoppingHandler \<Longrightarrow> po_shutdown (ps_poll s) = ManagerStopped \<Longrightarrow>
    main_step ap co decode server s (s\<lparr>ps_pc := ShuttingServer\<rparr>)"
| stop_timed_out: "ps_pc s = StoppingHandler \<Longrightarrow> main_step ap co decode server s (s\<lparr>ps_pc := ShuttingServer\<rparr>)"
| server_shut: "ps_pc s = ShuttingServer \<Longrightarrow> main_step ap co decode server s (s\<lparr>ps_pc := Returned\<rparr>)"
| shut_failed: "ps_pc s = ShuttingServer \<Longrightarrow> main_step ap co decode server s (s\<lparr>ps_pc := Panicked\<rparr>)"

abbreviation main_steps ::
  "GSLBServiceGroup FileStore ApiEnv \<Rightarrow> 'c Console \<Rightarrow> decoder \<Rightarrow> (nat \<Rightarrow> transfer_event list option) \<Rightarrow> Process \<Rightarrow> Process \<Rightarrow> bool" where
  "main_steps ap co decode server \<equiv> (main_step ap co decode server)\<^sup>*\<^sup>*"

section \<open>Starting\<close>

definition server_ok :: "(string \<Rightarrow> byte list option) \<Rightarrow> DNSDISTServer \<Rightarrow> bool" where
  "server_ok base64 server \<longleftrightarrow>
     (\<exists>k. base64 (ds_Key server) = Some k \<and> length k = KEY_LEN) \<and> ParseIP (IP_String (ds_Host server)) \<noteq> None \<and>
     (let port = TrimSpace (ds_Port server)
      in port \<noteq> [] \<and> list_all is_decimal port \<and> 1 \<le> digits_from 0 port \<and> digits_from 0 port \<le> 65535)"

lemma NewClient_created:
  "(\<exists>c. fst (NewClient net xKey retries w) = Inr c) \<longleftrightarrow> (\<exists>k. xKey = Some k \<and> length k = KEY_LEN)"
  by (auto simp: NewClient_def Let_def split: option.splits prod.splits)

lemma configured_client_created:
  "(\<exists>c. fst (configured_client net lookup base64 (ds_Key server) (server_options server) w) = Inr c) \<longleftrightarrow> server_ok base64 server"
proof -
  have opts: "(\<exists>c. client_options lookup (server_options server) default_client = Inr c) \<longleftrightarrow>
      ParseIP (IP_String (ds_Host server)) \<noteq> None \<and>
      (let port = TrimSpace (ds_Port server)
       in port \<noteq> [] \<and> list_all is_decimal port \<and> 1 \<le> digits_from 0 port \<and> digits_from 0 port \<le> 65535)"
    unfolding server_options_result by (auto simp: Let_def split: option.splits)
  then show ?thesis
    using NewClient_created[of net "base64 (ds_Key server)" 1 w]
    by (auto simp: configured_client_def server_ok_def split: sum.splits prod.splits)
qed

lemma new_clients_created:
  "(\<exists>cs. fst (new_clients net lookup base64 servers old w) = Inr cs) \<longleftrightarrow> list_all (server_ok base64) servers"
proof (induction servers arbitrary: old w)
  case (Cons server servers)
  obtain x w1 where x: "configured_client net lookup base64 (ds_Key server) (server_options server) w = (x, w1)" by fastforce
  show ?case using configured_client_created[of net lookup base64 server w] Cons by (cases x) (auto simp: x)
qed simp

lemma first_sync:
  "fst (synchronizeServers digest co (file_ops []) (file_NewStore content, cs)) = Inr () \<longleftrightarrow> content \<noteq> Garbage"
  by (cases content)
    (auto simp: synchronizeServers_def spoof_Hash_def spoof_ReadAll_def file_LoadAll_def file_NewStore_def file_ops_def
      split: prod.splits)

lemma updater_created:
  "(\<exists>cs. fst (NewDNSDISTUpdater net lookup base64 json console_of digest co (file_ops []) file (file_NewStore content) w) = Inr cs) \<longleftrightarrow>
    content \<noteq> Garbage \<and> (case Option.bind file json of None \<Rightarrow> False | Some servers \<Rightarrow> list_all (server_ok base64) servers)"
proof (cases "Option.bind file json")
  case None
  then show ?thesis by (auto simp: NewDNSDISTUpdater_def split: option.splits)
next
  case (Some servers)
  then obtain t where t: "file = Some t" "json t = Some servers" by (auto simp: bind_eq_Some_conv)
  obtain x w1 where x: "new_clients net lookup base64 servers [] w = (x, w1)" by fastforce
  note created = new_clients_created[of net lookup base64 servers "[]" w]
  show ?thesis
  proof (cases x)
    case (Inl e)
    then show ?thesis using created by (simp add: NewDNSDISTUpdater_def t x)
  next
    case (Inr clients)
    obtain r s' cs' where "synchronizeServers digest co (file_ops []) (file_NewStore content, map (console_of \<circ> snd) clients) = (r, s', cs')"
      by (metis prod_cases3)
    then show ?thesis
      using created first_sync[of digest co content "map (console_of \<circ> snd) clients"] Inr
      by (cases r) (simp_all add: NewDNSDISTUpdater_def t x)
  qed
qed

definition ready :: "('w, 'c) Machine \<Rightarrow> Config \<Rightarrow> bool" where
  "ready mc cfg \<longleftrightarrow> mc_sandbox mc (LuaSandbox cfg) \<and> mc_open mc store_path \<notin> {None, Some Garbage} \<and>
     (case Option.bind (ReadFile (mc_ext mc) (Servers cfg)) (mc_json mc) of
        None \<Rightarrow> False | Some servers \<Rightarrow> list_all (server_ok (mc_base64 mc)) servers)"

definition interval_of :: "Config \<Rightarrow> Duration" where
  "interval_of cfg = (case FromString (poll_interval_text cfg) of None \<Rightarrow> 300 * Second | Some d \<Rightarrow> d)"

lemma main_start_outcome:
  assumes "newConfig (mc_ext mc) = Some cfg"
  obtains (exits) reason where "main_start mc w = Ok (Inl reason)" "\<not> ready mc cfg"
  | (panics) "main_start mc w = Panic NonPositiveInterval" "ready mc cfg" "interval_of cfg \<le> 0"
  | (serves) parts s0 where "main_start mc w = Ok (Inr (parts, s0))" "ready mc cfg" "0 < interval_of cfg"
proof (cases "\<exists>content. mc_sandbox mc (LuaSandbox cfg) \<and> mc_open mc store_path = Some content")
  case False
  then have "\<not> ready mc cfg" by (auto simp: ready_def)
  moreover have "\<exists>reason. main_start mc w = Ok (Inl reason)"
    using False assms(1) by (cases "mc_sandbox mc (LuaSandbox cfg)") (auto simp: main_start_def split: option.splits)
  ultimately show ?thesis using exits by blast
next
  case True
  then obtain content where content: "mc_sandbox mc (LuaSandbox cfg)" "mc_open mc store_path = Some content" by blast
  let ?u = "NewDNSDISTUpdater (mc_net mc) (mc_lookup mc) (mc_base64 mc) (mc_json mc) (mc_console_of mc)
      (mc_digest mc) (mc_console mc) (file_ops []) (ReadFile (mc_ext mc) (Servers cfg)) (file_NewStore content) w"
  obtain x s w1 where x: "?u = (x, s, w1)" by (metis prod_cases3)
  have ready: "(\<exists>cs. x = Inr cs) \<longleftrightarrow> ready mc cfg"
    using updater_created[of "mc_net mc" "mc_lookup mc" "mc_base64 mc" "mc_json mc" "mc_console_of mc" "mc_digest mc" "mc_console mc"
        "ReadFile (mc_ext mc) (Servers cfg)" content w] content
    by (simp add: x ready_def)
  have "zf_interval (NewZoneFetcherWithAutoPoll cfg []) = interval_of cfg"
    by (simp add: NewZoneFetcherWithAutoPoll_def interval_of_def PollInterval_def DEFAULT_POLL_INTERVAL_def split: option.split)
  then show ?thesis
    using ready assms(1) content that by (cases x; cases "interval_of cfg \<le> 0") (auto simp: main_start_def x handler_Start_def main_manager)
qed


section \<open>The whole process\<close>

text \<open>Known services are services of the last zone that was handled; before the first zone there are none.\<close>

definition known_from :: "decoder \<Rightarrow> RR list list \<Rightarrow> string list \<Rightarrow> bool" where
  "known_from decode zones known \<longleftrightarrow> set known \<subseteq> (if zones = [] then {} else zone_ids decode (last zones))"

definition zone_inv :: "decoder \<Rightarrow> 's Poll \<Rightarrow> bool" where
  "zone_inv decode p \<longleftrightarrow> po_shutdown p = ManagerStopped \<or>
     in_step (po_handler p) (po_manager p) \<and> known_from decode (zones_of (po_trace p)) (h_known (po_handler p))"

lemma zone_inv_quiet:
  assumes "handleZoneUpdates env decode ev (po_handler p) (po_manager p) = Ok hm" "\<forall>rs. ev \<noteq> Records rs" "zone_inv decode p"
    "po_shutdown q = po_shutdown p" "po_trace q = po_trace p"
  shows "zone_inv decode (handled ev hm q)"
proof -
  have hm: "h_known (fst hm) = h_known (po_handler p)" "snd hm = po_manager p"
    using assms(1,2) by (cases ev; auto simp: handleZoneUpdates_def split: if_splits)+
  moreover have "zones_of [Zone ev] = []" using assms(2) by (cases ev) simp_all
  ultimately show ?thesis using assms(3-5) by (simp add: zone_inv_def handled_def in_step_def)
qed

lemma zone_inv_step:
  "poll_step env decode server p p' \<Longrightarrow> zone_inv decode p \<Longrightarrow> channel_inv p \<Longrightarrow> zone_inv decode p'"
proof (induction rule: poll_step.induct)
  case (handle p records hm)
  have "h_running (po_handler p)" using handle by (simp add: channel_inv_def)
  then show ?case
    using handle_batch_in_step[of env decode records "po_handler p" "po_manager p" "fst hm" "snd hm"] handle
    by (auto simp: zone_inv_def handled_def known_from_def)
next
  case (check p svc ok m)
  then show ?case
    using checkDone_schedule[of env svc ok "po_manager p" m] by (auto simp: zone_inv_def in_step_def)
next
  case (take_error p hm)
  show ?case by (rule zone_inv_quiet[OF take_error(3)]) (use take_error in auto)
next
  case (zone_closed p hm)
  show ?case by (rule zone_inv_quiet[OF zone_closed(4)]) (use zone_closed in auto)
next
  case (errors_closed p hm)
  show ?case by (rule zone_inv_quiet[OF errors_closed(3)]) (use errors_closed in auto)
next
  case (stop_signal p hm)
  show ?case by (rule zone_inv_quiet[OF stop_signal(3)]) (use stop_signal in auto)
qed (auto simp: zone_inv_def)

lemma zone_inv_store:
  "zone_inv decode p \<Longrightarrow> zone_inv decode (p\<lparr>po_manager := (po_manager p)\<lparr>m_store := s\<rparr>\<rparr>)"
  by (simp add: zone_inv_def in_step_def schedule_ok_def scheduled_ids_def)

lemma channel_inv_manager: "channel_inv p \<Longrightarrow> channel_inv (p\<lparr>po_manager := m\<rparr>)"
  by (simp add: channel_inv_def)

text \<open>The shutdown of the handler starts only after a signal.\<close>

definition process_inv :: "decoder \<Rightarrow> Process \<Rightarrow> bool" where
  "process_inv decode s \<longleftrightarrow> channel_inv (ps_poll s) \<and> zone_inv decode (ps_poll s) \<and>
     (ps_pc s = Selecting \<or> ps_pc s = ExitedWith ServerCrashed \<longrightarrow> po_shutdown (ps_poll s) = Serving)"

lemma process_inv_manager:
  assumes "process_inv decode s" "\<exists>st. f (po_manager (ps_poll s)) = (po_manager (ps_poll s))\<lparr>m_store := st\<rparr>"
  shows "process_inv decode (on_manager f s)"
proof -
  obtain st where "f (po_manager (ps_poll s)) = (po_manager (ps_poll s))\<lparr>m_store := st\<rparr>" using assms(2) by blast
  then show ?thesis
    using assms(1) zone_inv_store[of decode "ps_poll s" st] channel_inv_manager[of "ps_poll s"]
    by (simp add: process_inv_def on_manager_def)
qed

lemma process_inv_step:
  "main_step ap co decode server s s' \<Longrightarrow> process_inv decode s \<Longrightarrow> process_inv decode s'"
proof (induction rule: main_step.induct)
  case (work s p)
  then show ?case
    using channel_inv_step[OF work(2)] zone_inv_step[OF work(2)] by (auto simp: process_inv_def alive_def)
next
  case (execute s cr r)
  have "po_shutdown (ps_poll s) = ManagerStopped \<or> in_step (po_handler (ps_poll s)) (executed cr r (po_manager (ps_poll s)))"
    using execute(2) executed_schedule[of "po_manager (ps_poll s)" cr r] by (auto simp: process_inv_def zone_inv_def in_step_def)
  then show ?case
    using execute(2) channel_inv_manager[of "ps_poll s"] by (auto simp: process_inv_def zone_inv_def on_manager_def)
next
  case (request s now r code m)
  then have "\<exists>st. m = (po_manager (ps_poll s))\<lparr>m_store := st\<rparr>"
    using ServeHTTP_frame[of "ap\<lparr>ap_auth := (ap_auth ap)\<lparr>ae_now := now\<rparr>\<rparr>" "po_manager (ps_poll s)"]
    unfolding store_only_def kept_def by blast
  then show ?case using request by (intro process_inv_manager) simp_all
next
  case (request_panics s now r x store)
  then show ?case by (intro process_inv_manager) auto
next
  case (synchronise s cs res store cs')
  then show ?case by (intro process_inv_manager) auto
qed (auto simp: process_inv_def)

lemma updater_same_store:
  "same_store s (fst (snd (NewDNSDISTUpdater net lookup base64 json console_of digest co (file_ops []) file s w)))"
proof -
  have refl: "same_store s s" by (simp add: same_store_def)
  show ?thesis
    using synchronizeServers_same_store[of s digest co] refl
    by (auto simp: NewDNSDISTUpdater_def split: option.splits sum.splits prod.splits) (metis fst_conv snd_conv)+
qed

lemma main_start_started:
  assumes "main_start mc w = Ok (Inr (parts, s0))"
  obtains f content store where "handler_Start f (NewManager False store) = Ok (ps_poll s0)" "ps_pc s0 = Selecting"
    "mc_open mc store_path = Some content" "same_store (file_NewStore content) store"
proof -
  obtain cfg content where cfg: "newConfig (mc_ext mc) = Some cfg" "mc_open mc store_path = Some content"
    "mc_sandbox mc (LuaSandbox cfg)"
    using assms by (auto simp: main_start_def split: option.splits if_splits)
  obtain x store w1 where x: "NewDNSDISTUpdater (mc_net mc) (mc_lookup mc) (mc_base64 mc) (mc_json mc) (mc_console_of mc)
      (mc_digest mc) (mc_console mc) (file_ops []) (ReadFile (mc_ext mc) (Servers cfg)) (file_NewStore content) w = (x, store, w1)"
    by (metis prod_cases3)
  have "same_store (file_NewStore content) store"
    using updater_same_store[of "file_NewStore content" "mc_net mc" "mc_lookup mc" "mc_base64 mc" "mc_json mc" "mc_console_of mc" "mc_digest mc"
        "mc_console mc" "ReadFile (mc_ext mc) (Servers cfg)" w] x by simp
  moreover have "handler_Start (NewZoneFetcherWithAutoPoll cfg []) (NewManager False store) = Ok (ps_poll s0)" "ps_pc s0 = Selecting"
    using assms cfg x by (cases x; auto simp: main_start_def bind_eq_Ok main_manager)+
  ultimately show ?thesis using that cfg(2) by blast
qed

lemma process_inv_start: "main_start mc w = Ok (Inr (parts, s0)) \<Longrightarrow> process_inv decode s0"
proof -
  assume "main_start mc w = Ok (Inr (parts, s0))"
  then obtain f content store where s0: "handler_Start f (NewManager False store) = Ok (ps_poll s0)" "ps_pc s0 = Selecting"
    by (rule main_start_started)
  have "handler_Start f m = Ok p \<Longrightarrow> po_handler p = NewHandler \<and> po_manager p = start_manager m \<and>
      po_shutdown p = Serving \<and> po_trace p = []" for m p
    by (auto simp: handler_Start_def split: if_splits)
  from this[OF s0(1)] have "po_handler (ps_poll s0) = NewHandler" "po_manager (ps_poll s0) = start_manager (NewManager False store)"
    "po_shutdown (ps_poll s0) = Serving" "po_trace (ps_poll s0) = []"
    by simp_all
  then show ?thesis
    using s0(2) handler_Start_inv(2)[OF s0(1)] in_step_start[of False store]
    by (simp add: process_inv_def zone_inv_def known_from_def) (simp add: NewHandler_def)
qed

lemma process_invariant:
  assumes "main_start mc w = Ok (Inr (parts, s0))" "main_steps ap co decode server s0 s"
  shows "process_inv decode s"
  using assms(2) by (induction rule: rtranclp_induct) (auto intro: process_inv_step process_inv_start[OF assms(1)])


text \<open>A machine with an empty store, one dnsdist server that never answers, and the given interval.\<close>

definition demo_ext :: "Duration \<Rightarrow> Ext" where
  "demo_ext d = \<lparr>x_env = [''GSLB_POLL_INTERVAL'' \<mapsto> Duration_String d, ''GSLB_DNSDIST_SERVERS_FILE'' \<mapsto> ''servers''],
     x_stat = [''servers'' \<mapsto> RegularFile (Some ''[]'')], x_godotenv = (\<lambda>_. None), x_json = (\<lambda>_ d. (False, d))\<rparr>"

definition demo_machine :: "Duration \<Rightarrow> (unit, (string \<times> string) list) Machine" where
  "demo_machine d = \<lparr>mc_ext = demo_ext d, mc_sandbox = (\<lambda>_. True), mc_cpus = 4, mc_open = (\<lambda>_. Some EmptyFile), mc_net = quiet_net,
     mc_lookup = (\<lambda>_. None), mc_base64 = (\<lambda>_. Some (replicate 32 0)),
     mc_json = (\<lambda>_. Some [demo_server (v4_prefix @ v4_tail [10, 0, 0, 1])]), mc_console_of = (\<lambda>_. []),
     mc_console = printing_console\<lparr>co_Show := Pair None\<rparr>, mc_digest = (\<lambda>_. []), mc_sign = unary_sign, mc_now = 0, mc_issued = 0\<rparr>"

lemma demo_config:
  assumes "min_int64 \<le> d" "d \<le> max_int64"
  obtains cfg where "newConfig (mc_ext (demo_machine d)) = Some cfg" "Servers cfg = ''servers''"
    "FromString (poll_interval_text cfg) = Some d"
proof -
  let ?r = "resolve (demo_ext d) []"
  have files: "NewFileLoader (demo_ext d) [''.env'', ''./secrets''] = Some []" by (simp add: demo_ext_def)
  let ?cfg = "\<lparr>c_server = strings (set_all ?r server_table), c_api = strings (set_all ?r api_table),
      c_gslb = strings (set_all ?r gslb_table), c_jwt = strings (set_all ?r jwt_table)\<rparr>"
  have "newConfig (demo_ext d) = Some ?cfg" using newConfig_eq[OF files] by simp
  moreover have "?r ''GSLB_POLL_INTERVAL'' v = Duration_String d" "?r ''GSLB_DNSDIST_SERVERS_FILE'' v = ''servers''" for v
    by (simp_all add: resolve_def over_def demo_ext_def)
  ultimately show ?thesis
    using that[of ?cfg] get_string_tables[OF refl, of ?r] ParseDuration_String[OF assms]
    by (simp add: demo_machine_def FromString_def)
qed

lemma demo_ready:
  assumes "Servers cfg = ''servers''"
  shows "ready (demo_machine d) cfg"
proof -
  let ?ip = "v4_prefix @ v4_tail [10, 0, 0, 1]"
  have "is_v4 ?ip" "groups_ok ?ip" by (simp_all add: is_v4_tail) (simp add: v4_prefix_def v4_tail_def)
  then have "configured_client quiet_net (\<lambda>_. None) (\<lambda>_. Some (replicate 32 0)) (ds_Key (demo_server ?ip)) (server_options (demo_server ?ip)) ()
      = (Inr c, ()) \<Longrightarrow> server_ok (\<lambda>_. Some (replicate 32 0)) (demo_server ?ip)" for c
    using configured_client_created[of quiet_net "\<lambda>_. None" "\<lambda>_. Some (replicate 32 0)" "demo_server ?ip" "()"] by (metis fst_conv)
  then have "server_ok (\<lambda>_. Some (replicate 32 0)) (demo_server ?ip)"
    using demo_server_client[of ?ip "\<lambda>_. None"] \<open>is_v4 ?ip\<close> \<open>groups_ok ?ip\<close> by blast
  then show ?thesis using assms by (simp add: ready_def demo_machine_def demo_ext_def ReadFile_def)
qed


text \<open>A run that handles a zone and is then asked for an unknown page.\<close>

lemma steps_lift:
  assumes "poll_steps (ap_env ap) decode server (ps_poll s0) p" "po_shutdown p = Serving" "ps_pc s0 = Selecting"
  shows "main_steps ap co decode server s0 (s0\<lparr>ps_poll := p\<rparr>)"
  using assms(1,2)
proof (induction rule: rtranclp_induct)
  case (step y z)
  have y: "po_shutdown y = Serving" using step(2,4) by (induction rule: poll_step.induct) (simp_all add: handled_def)
  have "main_step ap co decode server (s0\<lparr>ps_poll := y\<rparr>) (s0\<lparr>ps_poll := y\<rparr>\<lparr>ps_poll := z\<rparr>)"
    by (rule main_step.work) (use step y assms(3) in \<open>simp_all add: alive_def\<close>)
  then show ?case using step(3)[OF y] by simp
qed simp

lemma demo_process:
  obtains parts s0 s where "main_start (demo_machine Second) () = Ok (Inr (parts, s0))"
    "main_steps (demo_api (\<lambda>_ _. None) None) printing_console demo_decode one_transfer s0 s"
    "po_shutdown (ps_poll s) = Serving" "po_trace (ps_poll s) = [Zone (Records one_zone)]" "h_known (po_handler (ps_poll s)) \<noteq> []"
proof -
  have int64: "min_int64 \<le> Second" "Second \<le> max_int64" "0 < Second" by simp_all
  obtain cfg where cfg: "newConfig (mc_ext (demo_machine Second)) = Some cfg" "Servers cfg = ''servers''"
    "FromString (poll_interval_text cfg) = Some Second" by (rule demo_config[OF int64(1,2)])
  have "ready (demo_machine Second) cfg" "0 < interval_of cfg" using demo_ready cfg(2,3) int64(3) by (simp_all add: interval_of_def)
  then obtain parts s0 where s0: "main_start (demo_machine Second) () = Ok (Inr (parts, s0))"
    by (cases rule: main_start_outcome[OF cfg(1), of "()"]) auto
  obtain f content store where f: "handler_Start f (NewManager False store) = Ok (ps_poll s0)" "ps_pc s0 = Selecting"
    "mc_open (demo_machine Second) store_path = Some content" "same_store (file_NewStore content) store"
    by (rule main_start_started[OF s0])
  have "content = EmptyFile" using f(3) by (simp add: demo_machine_def)
  then have "file_inv store" "file_map store = file_map (file_NewStore EmptyFile)"
    using f(4) file_inv_new[of content] by (simp_all add: same_store_def)
  moreover have "file_map (file_NewStore EmptyFile) k = None" for k by (simp add: file_NewStore_def file_map_def)
  ultimately have store: "file_inv store" "file_map store ''example'' = None" by simp_all
  obtain h m where hm: "handleZoneUpdates demo_menv demo_decode (Records one_zone) NewHandler (start_manager (NewManager False store)) = Ok (h, m)"
    "h_running h" "h_known h \<noteq> []"
    unfolding one_zone_def by (rule demo_zone[OF store])
  obtain p where p: "poll_steps demo_menv demo_decode one_transfer (ps_poll s0) p" "po_shutdown p = Serving"
    "po_trace p = [Zone (Records one_zone)]" "po_published p = [(0, one_zone)]"
    by (rule zone_is_polled[OF f(1) hm(1)])
  let ?ap = "demo_api (\<lambda>_ _. None) None"
  have "ap_env ?ap = demo_menv" by (simp add: demo_api_def)
  then have run: "main_steps ?ap printing_console demo_decode one_transfer s0 (s0\<lparr>ps_poll := p\<rparr>)"
    using steps_lift[of ?ap demo_decode one_transfer s0 p printing_console] p(1,2) f(2) by simp
  have "operator_run demo_menv demo_decode (po_trace p) NewHandler (start_manager (NewManager False store)) = Ok (po_handler p, po_manager p)"
    using poll_steps_inv[OF p(1) f(1)] p(2) by (simp add: run_inv_def)
  then have "po_handler p = h" by (simp add: p(3) hm(1))
  then show ?thesis using that[OF s0 run] p(2,3) hm(3) by simp
qed


section \<open>The store along a run\<close>

abbreviation store_of :: "Process \<Rightarrow> GSLBServiceGroup FileStore" where
  "store_of s \<equiv> m_store (po_manager (ps_poll s))"

lemma poll_step_store:
  "poll_step env decode server p p' \<Longrightarrow> me_ops env = file_ops [] \<Longrightarrow> store_ok (po_manager p) \<Longrightarrow> store_ok (po_manager p')"
proof (induction rule: poll_step.induct)
  case (check p svc ok m)
  then show ?case by (auto intro: checkDone_store)
next
  case (stop_manager p m)
  then show ?case by (auto intro: manager_Stop_store)
qed (auto simp: handled_def dest: handleZoneUpdates_store[where h' = "fst hm" and m' = "snd hm" for hm, simplified])

lemma main_step_store:
  assumes "me_ops (ap_env ap) = file_ops []"
  shows "main_step ap co decode server s s' \<Longrightarrow> file_inv (store_of s) \<Longrightarrow> file_inv (store_of s')"
proof (induction rule: main_step.induct)
  case (work s p)
  then show ?case using poll_step_store[OF work(2) assms] by (simp add: store_ok_def)
next
  case (execute s cr r)
  then show ?case by (simp add: on_manager_def executed_def)
next
  case (request s now r code m)
  then have "kept (ap_env ap) (po_manager (ps_poll s)) m"
    using ServeHTTP_frame[of "ap\<lparr>ap_auth := (ap_auth ap)\<lparr>ae_now := now\<rparr>\<rparr>" "po_manager (ps_poll s)" r] by (simp add: store_only_def)
  then show ?case using request(3) assms by (simp add: on_manager_def kept_def store_ok_def)
next
  case (request_panics s now r x store)
  then show ?case using panic_stores_inv[OF request_panics(3) assms] by (simp add: on_manager_def)
next
  case (synchronise s cs res store cs')
  then show ?case
    using synchronizeServers_same_store[of "store_of s" "ap_digest ap" co cs] assms by (simp add: on_manager_def same_store_def)
qed simp_all

lemma started_store:
  assumes "main_start mc w = Ok (Inr (parts, s0))" "\<forall>m. mc_open mc store_path = Some (Json m) \<longrightarrow> keys_ok m"
  shows "file_inv (store_of s0)"
proof -
  obtain f content store where s0: "handler_Start f (NewManager False store) = Ok (ps_poll s0)"
    "mc_open mc store_path = Some content" "same_store (file_NewStore content) store" by (rule main_start_started[OF assms(1)])
  obtain cfg where cfg: "newConfig (mc_ext mc) = Some cfg" using assms(1) by (auto simp: main_start_def split: option.splits)
  have "ready mc cfg" using assms(1) by (cases rule: main_start_outcome[OF cfg, of w]) auto
  then have "file_inv (file_NewStore content)"
    using s0(2) assms(2) by (intro file_inv_new) (auto simp: ready_def)
  then have "file_inv store" using s0(3) by (simp add: same_store_def)
  then show ?thesis using s0(1) by (auto simp: handler_Start_def start_manager_def NewManager_def split: if_splits dest!: sym[of _ "ps_poll s0"])
qed

lemma reopened:
  fixes s :: "GSLBServiceGroup FileStore"
  assumes "file_inv s"
  shows "fs_content s \<noteq> Garbage" "fst (st_Load (file_ops []) k s) = fst (st_Load (file_ops []) k (file_NewStore (fs_content s)))"
proof -
  have content: "fs_content s \<noteq> Garbage" "\<forall>m. fs_content s = Json m \<longrightarrow> keys_ok m"
    using assms by (auto simp: file_inv_def)
  then have new: "file_inv (file_NewStore (fs_content s))" by (rule file_inv_new)
  have "file_map (file_NewStore (fs_content s)) = file_map s" by (simp add: file_map_def file_NewStore_def)
  then show "fst (st_Load (file_ops []) k s) = fst (st_Load (file_ops []) k (file_NewStore (fs_content s)))"
    using file_load[OF assms, of k] file_load[OF new, of k] by (metis fst_conv)
  show "fs_content s \<noteq> Garbage" by (rule content(1))
qed



end
