(* ===== verification/Spec2Isabelle.thy ===== *)
theory Spec2Isabelle
  imports DnsHandler DnsSync WorkerPool DnsClient DurationText RestUpdater LuaChecks Api Polling DnsServers Restart CheckJob OperatorProcess
begin

text \<open>
  The GSLB operator keeps DNS pointing at healthy servers. It reads the configured services from a DNS
  zone, checks each of them on its own interval, keeps the services of one name in a \<^emph>\<open>group\<close> with one
  active member, stores what it decides, and tells dnsdist servers which address to answer with. This
  development models that path and states what each part guarantees and where it does not.

  \<^bold>\<open>The parts and their theories\<close>

  \<^item> \<open>Prelude\<close>, \<open>GoSlices\<close>, \<open>GoHeap\<close>, \<open>GoTime\<close>: what the program uses of Go. An outcome that may be a panic
    or a call that blocks for ever is \<open>res\<close>; a map is an association list (\<open>gomap\<close>) whose order stands for
    the order of iteration; \<^verbatim>\<open>slices.SortFunc\<close> and \<^verbatim>\<open>BinarySearchFunc\<close> under the locale \<open>strict_weak_cmp\<close>;
    \<^verbatim>\<open>container/heap\<close> as an instance of the locale \<open>priority_queue\<close>; durations as integers and the
    float64 arithmetic of the intervals (\<open>f64\<close>) with its rounding.
  \<^item> \<open>RoundTrip\<close>, \<open>Checks\<close>, \<open>Service\<close> (\<^verbatim>\<open>internal/checks\<close>, \<^verbatim>\<open>internal/service\<close>): a service with its checker,
    intervals, failure counter and recorded round trips. What the network answers is an input.
  \<^item> \<open>ServiceGroup\<close>, \<open>GroupActive\<close> (\<^verbatim>\<open>internal/manager/servicegroup.go\<close>): members, mode, active and last
    active service, the mutex as a flag, the promotion callback as a parameter. Any callback that keeps the
    health, priority and identity of services is an instance of \<open>promotion_callback\<close>; \<open>group_reach\<close> are the
    histories of a group.
  \<^item> \<open>ScheduledServices\<close>, \<open>Scheduler\<close> (\<^verbatim>\<open>scheduled_services.go\<close>, \<^verbatim>\<open>internal/manager/scheduler\<close>): the queues of
    services by interval, and one scheduler per interval whose loop is the step relation \<open>sched_step\<close>.
  \<^item> \<open>Store\<close>, \<open>ServiceRepo\<close>, \<open>RepoSpec\<close> (\<^verbatim>\<open>pkg/persistence\<close>, \<^verbatim>\<open>internal/repositories/service\<close>): the store
    interface as the locale \<open>kv_store\<close> with the memory and the file store as its instances, the repository over
    any store (\<open>group_store\<close>), and its specification on plain maps, which both stores refine.
  \<^item> \<open>Manager\<close>, \<open>Promotion\<close>, \<open>ManagerProps\<close> (\<^verbatim>\<open>internal/manager/manager.go\<close>): the manager composes all of the
    above in one state; its handler of promotions is the callback of the groups (interpretation \<open>mgr\<close>), and
    \<open>managed_store\<close> is the manager over a store that keeps its contract.
  \<^item> \<open>ManagerFrame\<close>: predicates on the manager that survive every operation, as the locale \<open>manager_frame\<close>; its
    instances are which services are scheduled, and what the store holds under a name no service has.
  \<^item> \<open>CheckJob\<close> (\<^verbatim>\<open>internal/manager/healthcheck\<close>, \<^verbatim>\<open>internal/manager/options.go\<close>): a job from its execution to
    its report to the manager, with its counters; the options of the manager and the pool it is given.
  \<^item> \<open>Restart\<close>: what \<^verbatim>\<open>OnShutdown\<close> stores and \<^verbatim>\<open>BuildServiceOptions\<close> of the next process reads back.
  \<^item> \<open>DnsHandler\<close>, \<open>Polling\<close> (\<^verbatim>\<open>internal/dns\<close>): the transfer of the zone and its reconciliation with the manager;
    \<open>operator_run\<close> is the sequential view of it, with finished health checks. In \<open>Polling\<close> the goroutine of the fetcher,
    its channels, the handler, health checks and the shutdown are interleaved steps (\<open>poll_step\<close>), which refine it.
  \<^item> \<open>Spoofs\<close>, \<open>Api\<close> (\<^verbatim>\<open>internal/repositories/spoof\<close>, \<^verbatim>\<open>internal/api\<close>, \<^verbatim>\<open>pkg/rest/middleware\<close>): the API on the same
    store: spoofs, their digest, overrides and failover, the routes with their middleware, and the pattern matching of
    Go's mux.
  \<^item> \<open>Auth\<close> (\<^verbatim>\<open>pkg/auth\<close>): claims, the policy of roles and routes, validation, the service's own token and the
    middleware. \<open>Regex\<close> is a backtracking matcher with Go's preferences, for the routes and the rule sets.
  \<^item> \<open>DnsSync\<close>, \<open>DnsServers\<close> (\<^verbatim>\<open>internal/dns/update/dnsdist.go\<close>, \<^verbatim>\<open>pkg/dnsdist/options.go\<close>): the rule set of a dnsdist server
    is read back and reconciled with the store; the clients with their options, made from the file of servers, and the
    synchronisation of all servers every minute. \<open>NetAddr\<close> holds Go's literal addresses (\<^verbatim>\<open>ParseIP\<close>, \<^verbatim>\<open>IP.String\<close>,
    \<^verbatim>\<open>ResolveTCPAddr\<close>), which services use as well.
  \<^item> \<open>DnsClient\<close> (\<^verbatim>\<open>pkg/dnsdist\<close>): the encrypted console protocol, the client over an abstract network
    (\<open>Net\<close>) and the mock server as its other end, byte by byte.
  \<^item> \<open>HttpClient\<close>, \<open>RestUpdater\<close> (\<^verbatim>\<open>pkg/rest/request\<close>, \<^verbatim>\<open>internal/dns/update/rest.go\<close>): requests and their builder,
    transports, retries, and the updater that reports to another service.
  \<^item> \<open>LuaChecks\<close> (\<^verbatim>\<open>internal/checks/lua.go\<close>, \<^verbatim>\<open>pkg/lua\<close>): the validation of a response, the sandbox that all
    interpreters share, and the bucket they wait in, as interleaved steps.
  \<^item> \<open>WorkerPool\<close> (\<^verbatim>\<open>pkg/pool\<close>): the pool that runs the checks, as the step relation \<open>pool_step\<close>.
  \<^item> \<open>Decimal\<close>, \<open>DurationText\<close> (\<^verbatim>\<open>internal/utils/timesutil\<close>): printing and parsing of numbers and durations.
    \<open>Reflect\<close>, \<open>Config\<close> (\<^verbatim>\<open>pkg/rest/request/url_params.go\<close>, \<^verbatim>\<open>pkg/loaders\<close>, \<^verbatim>\<open>internal/config\<close>): filling a struct by
    its tags, from a query, the environment or files. Every loader is an instance of \<open>typed_loader\<close>.
  \<^item> \<open>OperatorProcess\<close> (\<^verbatim>\<open>cmd/main.go\<close>): the start of the process with every reason to exit, and its run
    (\<open>main_step\<close>): polling, checks, requests, synchronisation and the shutdown, in every interleaving. It rests on
    \<open>StoreKept\<close> and \<open>ApiFrame\<close>: what the manager, the handler and the requests leave of the store.

  \<^bold>\<open>What the lemmas show\<close>

  Process: when it starts, and that whatever interleaves it checks exactly the services of the last zone it handled
  and leaves a file on which it can be started again.
  Groups: in every history that leaves the mutex free the active service is a healthy member of best
  priority; each branch of a health change with its event; the branches that leave the mutex locked.
  Manager: a promotion swaps intervals, stored flags and DNS answers; when a registration returns; a recovery
  that DNS never hears of; health follows the results of a service's own jobs and survives a restart. Zone: polling
  refines its sequential view, when the poller can end, and what a restart forgets to remove. Scheduler: heap order, one
  loop, and the schedule call that is lost for ever. Repository: refinement of the specification by both stores,
  well-formed groups, what an override protects and how the protection is lost. API: which requests reach
  which handler, what an override changes and what deleting it leaves behind. Tokens: the validation is the policy
  table, and the service's own token passes it. Synchronisation: one minute brings all servers to the wanted names, which
  then stay; rules read back, and addresses that are never corrected. Console: a session of client and server, the
  calls that never return on a wrong key, the period of a nonce. Clients: when retrying ends, what is lost of a query.
  Pool: no job is lost or run twice, and the race of \<^verbatim>\<open>Put\<close> with \<^verbatim>\<open>Stop\<close>. Interpreters: exclusive use, and the
  deadlock of the exhausted bucket. Text: durations, addresses and rules read back what was printed. Configuration: which
  source wins, and that loading keeps the types of fields.

  \<^bold>\<open>Bounds and fuel\<close>

  \<^verbatim>\<open>connect\<close>, \<^verbatim>\<open>reconnect\<close> and \<^verbatim>\<open>command\<close> of the client call each other; their fuel counts the depth of those
  calls. Three are enough for every session with a server that answers (\<open>console_session\<close>), and no fuel is
  enough with a wrong key (\<open>wrong_key_never_returns\<close>). The loop of retries is a partial function, which is defined exactly
  when an attempt settles the request (\<open>retries_are_unbounded\<close>). All other functions are total: the loops of the
  heap, of the bisection, of the parsers and of the server terminate by a measure. Integers that wrap in reachable ranges are
  words (nonces, lengths) or carry their bounds (durations in int64).

  \<^bold>\<open>Not modelled\<close>

  Parameters, because their code is not part of the repository: the network, host and port lookups, the clock and
  the random generator, base64, JSON and SHA-256 (a digest is any function of the spoofs), NaCl encryption,
  the Lua interpreter, signing and parsing of tokens, the parser of \<^verbatim>\<open>.env\<close> files; the decoding of a zone record
  with its defaults is the parameter \<open>decode\<close>. Not modelled, because they only write: logging (\<^verbatim>\<open>pkg/bslog\<close>), the gauges
  of groups and pool, and the JSON of an answer's body, whose status is modelled. The listener of the mock server
  only hands over connections. Of the twenty seconds that the shutdown is given only that they may pass is modelled.
  Concurrency is modelled where the code's guarantees rest on it: the scheduler's loop, the worker pool, the interpreters,
  polling with the process around it, and the mutexes of groups and manager; the operations of the manager are otherwise
  run one after the other, and the rules of dnsdist servers are not part of the process.
\<close>

end
